(* ===== verification/Prelude.thy ===== *)
theory Prelude
  imports Main "HOL-Library.Word" "HOL-Library.Sublist" "HOL-Library.List_Lexorder" "HOL-Library.Char_ord"
  "HOL-Library.Multiset"
begin

text \<open>
  Shared vocabulary of the development: the result type of fallible Go functions, the
  outcome type of functions that may panic, Go's fixed-width integers, the parts of
  packages \<^verbatim>\<open>strings\<close> and \<^verbatim>\<open>strconv\<close> the repository uses, and generic lemmas on lists,
  options and maps.  Strings are byte strings (\<^typ>\<open>string\<close>, one \<^typ>\<open>char\<close> per byte),
  ordered bytewise by the library's lexicographic order, as Go orders them.
\<close>

named_theorems result_simps \<open>equations of the result monad\<close>
named_theorems go_defs \<open>unfoldings of small Go helpers\<close>

section \<open>Results and outcomes\<close>

text \<open>
  A Go function returning \<^verbatim>\<open>(T, error)\<close> is a function into \<open>'e + 'a\<close>: \<open>Inl e\<close> is a
  non-nil error, \<open>Inr x\<close> the value with a nil error.
\<close>

primrec bind_result :: "'e + 'a \<Rightarrow> ('a \<Rightarrow> 'e + 'b) \<Rightarrow> 'e + 'b" where
  "bind_result (Inl e) f = Inl e"
| "bind_result (Inr x) f = f x"

text \<open>A loop that appends \<open>f x\<close> for every element and returns at the first error.\<close>

fun map_result :: "('a \<Rightarrow> 'e + 'b) \<Rightarrow> 'a list \<Rightarrow> 'e + 'b list" where
  "map_result f [] = Inr []"
| "map_result f (x # xs) =
     bind_result (f x) (\<lambda>y. bind_result (map_result f xs) (\<lambda>ys. Inr (y # ys)))"

text \<open>A function that may panic: \<open>Panic\<close> carries the reason.\<close>

datatype 'a outcome = Panic string | Return 'a

section \<open>Fixed-width integers\<close>

definition int32 :: "int \<Rightarrow> int" where
  "int32 n = sint (word_of_int n :: 32 word)"

definition int64 :: "int \<Rightarrow> int" where
  "int64 n = sint (word_of_int n :: 64 word)"

definition MaxInt32 :: int where "MaxInt32 = 2147483647"
definition MinInt32 :: int where "MinInt32 = - 2147483648"
definition MaxInt64 :: int where "MaxInt64 = 9223372036854775807"
definition MinInt64 :: int where "MinInt64 = - 9223372036854775808"

section \<open>Package strings\<close>

definition HasPrefix :: "string \<Rightarrow> string \<Rightarrow> bool" where
  "HasPrefix s p = prefix p s"

definition HasSuffix :: "string \<Rightarrow> string \<Rightarrow> bool" where
  "HasSuffix s p = suffix p s"

fun Contains :: "string \<Rightarrow> string \<Rightarrow> bool" where
  "Contains [] p = (p = [])"
| "Contains (c # s) p = (prefix p (c # s) \<or> Contains s p)"

fun join_with :: "string \<Rightarrow> string list \<Rightarrow> string" where
  "join_with sep [] = []"
| "join_with sep [s] = s"
| "join_with sep (s # t # ts) = s @ sep @ join_with sep (t # ts)"

text \<open>\<^verbatim>\<open>strings.Split\<close> on a one-byte separator: always at least one piece.\<close>

fun split_on :: "char \<Rightarrow> string \<Rightarrow> string list" where
  "split_on c [] = [[]]"
| "split_on c (x # s) =
     (if x = c then [] # split_on c s
      else (case split_on c s of [] \<Rightarrow> [[x]] | t # ts \<Rightarrow> (x # t) # ts))"

text \<open>\<^verbatim>\<open>strings.Cut\<close> on a one-byte separator: the text before and after its first occurrence.\<close>

fun cut_on :: "char \<Rightarrow> string \<Rightarrow> string \<times> string" where
  "cut_on c [] = ([], [])"
| "cut_on c (x # s) = (if x = c then ([], s) else (let (a, b) = cut_on c s in (x # a, b)))"

text \<open>
  \<^verbatim>\<open>strings.TrimSpace\<close>: the white space of Unicode, in its UTF-8 encoding.  The non-ASCII
  ones are U+0085 and U+00A0 (two bytes), U+1680, U+2000 to U+200A, U+2028, U+2029, U+202F,
  U+205F and U+3000 (three bytes).
\<close>

definition is_space :: "char \<Rightarrow> bool" where
  "is_space c = (c \<in> {CHR 0x09, CHR 0x0A, CHR 0x0B, CHR 0x0C, CHR 0x0D, CHR 0x20})"

definition is_space2 :: "char \<Rightarrow> char \<Rightarrow> bool" where
  "is_space2 a b = (a = CHR 0xC2 \<and> (b = CHR 0x85 \<or> b = CHR 0xA0))"

definition is_space3 :: "char \<Rightarrow> char \<Rightarrow> char \<Rightarrow> bool" where
  "is_space3 a b c =
     (let n = of_char c :: nat in
      (a = CHR 0xE1 \<and> b = CHR 0x9A \<and> n = 0x80)
      \<or> (a = CHR 0xE2 \<and> b = CHR 0x80 \<and> (0x80 \<le> n \<and> n \<le> 0x8A \<or> n = 0xA8 \<or> n = 0xA9 \<or> n = 0xAF))
      \<or> (a = CHR 0xE2 \<and> b = CHR 0x81 \<and> n = 0x9F)
      \<or> (a = CHR 0xE3 \<and> b = CHR 0x80 \<and> n = 0x80))"

fun TrimLeft :: "string \<Rightarrow> string" where
  "TrimLeft [] = []"
| "TrimLeft (a # s) =
     (if is_space a then TrimLeft s
      else (case s of
              [] \<Rightarrow> a # s
            | b # t \<Rightarrow>
                if is_space2 a b then TrimLeft t
                else (case t of
                        [] \<Rightarrow> a # s
                      | c # u \<Rightarrow> if is_space3 a b c then TrimLeft u else a # s)))"

text \<open>The same from the right, on the reversed bytes.\<close>

fun trim_rev :: "string \<Rightarrow> string" where
  "trim_rev [] = []"
| "trim_rev (a # s) =
     (if is_space a then trim_rev s
      else (case s of
              [] \<Rightarrow> a # s
            | b # t \<Rightarrow>
                if is_space2 b a then trim_rev t
                else (case t of
                        [] \<Rightarrow> a # s
                      | c # u \<Rightarrow> if is_space3 c b a then trim_rev u else a # s)))"

definition TrimSpace :: "string \<Rightarrow> string" where
  "TrimSpace s = rev (trim_rev (rev (TrimLeft s)))"

text \<open>
  \<^verbatim>\<open>strings.EqualFold\<close> against an ASCII text.  Besides the ASCII letters, two other runes
  fold onto one: U+017F onto \<^verbatim>\<open>s\<close> and U+212A onto \<^verbatim>\<open>k\<close>.
\<close>

definition lower_char :: "char \<Rightarrow> char" where
  "lower_char c = (let n = of_char c :: nat in if 65 \<le> n \<and> n \<le> 90 then char_of (n + 32) else c)"

fun fold_ascii :: "string \<Rightarrow> string" where
  "fold_ascii [] = []"
| "fold_ascii (a # s) =
     (case s of
        b # t \<Rightarrow>
          if a = CHR 0xC5 \<and> b = CHR 0xBF then CHR ''s'' # fold_ascii t
          else (case t of
                  c # u \<Rightarrow>
                    if a = CHR 0xE2 \<and> b = CHR 0x84 \<and> c = CHR 0xAA then CHR ''k'' # fold_ascii u
                    else lower_char a # fold_ascii s
                | [] \<Rightarrow> lower_char a # fold_ascii s)
      | [] \<Rightarrow> [lower_char a])"

definition EqualFold :: "string \<Rightarrow> string \<Rightarrow> bool" where
  "EqualFold s t = (fold_ascii s = fold_ascii t)"

section \<open>Package strconv\<close>

definition digit_char :: "nat \<Rightarrow> char" where
  "digit_char d = char_of (48 + d)"

definition is_digit :: "char \<Rightarrow> bool" where
  "is_digit c = (let n = of_char c :: nat in 48 \<le> n \<and> n \<le> 57)"

definition digit_val :: "char \<Rightarrow> nat" where
  "digit_val c = (of_char c :: nat) - 48"

fun itoa_nat :: "nat \<Rightarrow> string" where
  "itoa_nat n = (if n < 10 then [digit_char n] else itoa_nat (n div 10) @ [digit_char (n mod 10)])"

declare itoa_nat.simps [simp del]

definition Itoa :: "int \<Rightarrow> string" where
  "Itoa n = (if n < 0 then CHR ''-'' # itoa_nat (nat (- n)) else itoa_nat (nat n))"

definition digits_val :: "string \<Rightarrow> nat" where
  "digits_val s = foldl (\<lambda>a c. 10 * a + digit_val c) 0 s"

text \<open>\<^verbatim>\<open>strconv.Atoi\<close>: an optional sign, decimal digits only, in the int64 range.\<close>

definition Atoi :: "string \<Rightarrow> int option" where
  "Atoi s =
     (let neg = (case s of c # _ \<Rightarrow> c = CHR ''-'' | [] \<Rightarrow> False);
          ds = (case s of c # r \<Rightarrow> if c = CHR ''-'' \<or> c = CHR ''+'' then r else s | [] \<Rightarrow> []);
          n = (if neg then - int (digits_val ds) else int (digits_val ds))
      in if ds = [] \<or> \<not> list_all is_digit ds then None
         else if n < MinInt64 \<or> MaxInt64 < n then None else Some n)"

section \<open>Lemmas\<close>

lemma bind_result_eq_Inr [simp]:
  "(bind_result r f = Inr y) = (\<exists>x. r = Inr x \<and> f x = Inr y)"
  by (cases r) auto

lemma bind_result_eq_Inl:
  "(bind_result r f = Inl e) = (r = Inl e \<or> (\<exists>x. r = Inr x \<and> f x = Inl e))"
  by (cases r) auto

lemma bind_result_cong [fundef_cong]:
  "r = r' \<Longrightarrow> (\<And>x. r' = Inr x \<Longrightarrow> f x = g x) \<Longrightarrow> bind_result r f = bind_result r' g"
  by (cases r') auto

lemma map_result_cong [fundef_cong]:
  "xs = ys \<Longrightarrow> (\<And>x. x \<in> set ys \<Longrightarrow> f x = g x) \<Longrightarrow> map_result f xs = map_result g ys"
  by (induction ys arbitrary: xs) (auto cong: bind_result_cong)

lemma map_result_Inr:
  "(map_result f xs = Inr ys) = list_all2 (\<lambda>x y. f x = Inr y) xs ys"
  by (induction xs arbitrary: ys) (auto simp: list_all2_Cons1)

lemma map_result_length: "map_result f xs = Inr ys \<Longrightarrow> length ys = length xs"
  by (simp add: map_result_Inr list_all2_lengthD)

lemma map_result_set:
  "map_result f xs = Inr ys \<Longrightarrow> y \<in> set ys \<Longrightarrow> \<exists>x \<in> set xs. f x = Inr y"
  by (induction xs arbitrary: ys) auto

lemma map_result_Inl:
  "map_result f xs = Inl e \<Longrightarrow> \<exists>x \<in> set xs. f x = Inl e"
  by (induction xs) (auto simp: bind_result_eq_Inl)

lemma map_result_total:
  "(\<And>x. x \<in> set xs \<Longrightarrow> f x = Inr (g x)) \<Longrightarrow> map_result f xs = Inr (map g xs)"
  by (induction xs) auto

lemma int32_id: "MinInt32 \<le> n \<Longrightarrow> n \<le> MaxInt32 \<Longrightarrow> int32 n = n"
  unfolding int32_def MinInt32_def MaxInt32_def sint_sbintrunc'
  by (rule signed_take_bit_int_eq_self) simp_all

lemma int64_id: "MinInt64 \<le> n \<Longrightarrow> n \<le> MaxInt64 \<Longrightarrow> int64 n = n"
  unfolding int64_def MinInt64_def MaxInt64_def sint_sbintrunc'
  by (rule signed_take_bit_int_eq_self) simp_all

lemma int32_range: "MinInt32 \<le> int32 n \<and> int32 n \<le> MaxInt32"
  using sint_greater_eq [of "word_of_int n :: 32 word"] sint_less [of "word_of_int n :: 32 word"]
  by (simp add: int32_def MinInt32_def MaxInt32_def)

lemma split_on_nonempty [simp]: "split_on c s \<noteq> []"
  by (induction s) (auto split: list.splits)

lemma split_on_no_sep: "t \<in> set (split_on c s) \<Longrightarrow> c \<notin> set t"
proof (induction s arbitrary: t)
  case Nil
  then show ?case by simp
next
  case (Cons x s)
  then show ?case by (cases "split_on c s") (auto split: if_splits)
qed

lemma join_split_on: "join_with [c] (split_on c s) = s"
proof (induction s)
  case Nil
  show ?case by simp
next
  case (Cons x s)
  then show ?case
    by (cases "split_on c s"; cases "tl (split_on c s)") (auto split: list.splits)
qed

lemma digit_char_is_digit: "d < 10 \<Longrightarrow> is_digit (digit_char d) \<and> digit_val (digit_char d) = d"
  by (simp add: is_digit_def digit_char_def digit_val_def Let_def)

lemma itoa_nat_digits: "list_all is_digit (itoa_nat n)"
proof (induction n rule: itoa_nat.induct)
  case (1 n)
  then show ?case
    by (subst itoa_nat.simps) (simp add: digit_char_is_digit)
qed

lemma itoa_nat_nonempty: "itoa_nat n \<noteq> []"
  by (subst itoa_nat.simps) simp

lemma digits_val_snoc: "digits_val (s @ [c]) = 10 * digits_val s + digit_val c"
  by (simp add: digits_val_def)

lemma digits_val_itoa: "digits_val (itoa_nat n) = n"
proof (induction n rule: itoa_nat.induct)
  case (1 n)
  show ?case
  proof (cases "n < 10")
    case True
    then show ?thesis
      by (subst itoa_nat.simps) (simp add: digits_val_def digit_char_is_digit)
  next
    case False
    with 1 have "digits_val (itoa_nat (n div 10)) = n div 10" by simp
    with False show ?thesis
      by (subst itoa_nat.simps) (simp add: digits_val_snoc digit_char_is_digit)
  qed
qed

lemma itoa_nat_hd_digit: "is_digit (hd (itoa_nat n))"
  using itoa_nat_digits [of n] itoa_nat_nonempty [of n] by (cases "itoa_nat n") auto

text \<open>Decimal printing and parsing are inverse on the int64 range.\<close>

lemma Atoi_Itoa:
  assumes "MinInt64 \<le> n" "n \<le> MaxInt64"
  shows "Atoi (Itoa n) = Some n"
proof (cases "n < 0")
  case True
  with assms show ?thesis
    by (simp add: Atoi_def Itoa_def Let_def itoa_nat_nonempty itoa_nat_digits digits_val_itoa)
next
  case False
  obtain c r where s: "itoa_nat (nat n) = c # r"
    using itoa_nat_nonempty [of "nat n"] by (cases "itoa_nat (nat n)") auto
  have "is_digit c" using itoa_nat_hd_digit [of "nat n"] s by simp
  then have "c \<noteq> CHR ''-''" "c \<noteq> CHR ''+''" by (auto simp: is_digit_def)
  with False assms s itoa_nat_digits [of "nat n"] digits_val_itoa [of "nat n"] show ?thesis
    by (simp add: Atoi_def Itoa_def Let_def)
qed

lemma map_result_inverse:
  "(\<And>x. x \<in> set xs \<Longrightarrow> f (h x) = Inr x) \<Longrightarrow> map_result f (map h xs) = Inr xs"
  by (induction xs) auto

lemma set_map_filter: "(x \<in> set (List.map_filter f xs)) = (\<exists>y \<in> set xs. f y = Some x)"
  by (induction xs) (auto simp: map_filter_simps split: option.splits)

lemma map_filter_inverse:
  "(\<And>x. x \<in> set xs \<Longrightarrow> f (h x) = Some x) \<Longrightarrow> List.map_filter f (map h xs) = xs"
  by (induction xs) (auto simp: map_filter_simps)

lemma split_on_app: "c \<notin> set a \<Longrightarrow> split_on c (a @ c # b) = a # split_on c b"
  by (induction a) auto

lemma split_on_single: "c \<notin> set a \<Longrightarrow> split_on c a = [a]"
  by (induction a) auto

lemma split_join_on:
  "ts \<noteq> [] \<Longrightarrow> (\<And>t. t \<in> set ts \<Longrightarrow> c \<notin> set t) \<Longrightarrow> split_on c (join_with [c] ts) = ts"
proof (induction ts)
  case (Cons t ts)
  then show ?case by (cases ts) (auto simp: split_on_single split_on_app)
qed simp

lemma cut_on_app: "c \<notin> set a \<Longrightarrow> cut_on c (a @ c # b) = (a, b)"
  by (induction a) auto

lemma plain_not_space:
  assumes "(of_char c :: nat) < 128" "\<not> is_space c"
  shows "\<not> is_space2 c y" "\<not> is_space2 y c" "\<not> is_space3 c y z" "\<not> is_space3 y z c"
proof -
  have "c \<noteq> CHR 0xC2" "c \<noteq> CHR 0xE1" "c \<noteq> CHR 0xE2" "c \<noteq> CHR 0xE3" "c \<noteq> CHR 0x85" "c \<noteq> CHR 0xA0"
    using assms(1) by auto
  then show "\<not> is_space2 c y" "\<not> is_space2 y c" "\<not> is_space3 c y z" "\<not> is_space3 y z c"
    using assms(1) by (auto simp: is_space2_def is_space3_def Let_def)
qed

lemma TrimSpace_plain:
  assumes "list_all (\<lambda>c. (of_char c :: nat) < 128 \<and> \<not> is_space c) s"
  shows "TrimSpace s = s"
proof -
  have l: "TrimLeft t = t" if "list_all (\<lambda>c. (of_char c :: nat) < 128 \<and> \<not> is_space c) t" for t
    using that by (cases t; cases "tl t"; cases "tl (tl t)") (auto simp: plain_not_space)
  have r: "trim_rev t = t" if "list_all (\<lambda>c. (of_char c :: nat) < 128 \<and> \<not> is_space c) t" for t
    using that by (cases t; cases "tl t"; cases "tl (tl t)") (auto simp: plain_not_space)
  show ?thesis using assms by (simp add: TrimSpace_def l r)
qed

lemma trim_rev_keep:
  "xs \<noteq> [] \<Longrightarrow> last xs = c \<Longrightarrow> \<not> is_space c \<Longrightarrow> (of_char c :: nat) < 128 \<Longrightarrow> trim_rev xs \<noteq> []"
proof (induction xs rule: trim_rev.induct)
  case (2 a s)
  have n: "c \<noteq> CHR 0xC2" "c \<noteq> CHR 0xE1" "c \<noteq> CHR 0xE2" "c \<noteq> CHR 0xE3" using 2(7) by auto
  then have "\<not> is_space2 c y" "\<not> is_space3 c y z" for y z
    by (auto simp: is_space2_def is_space3_def Let_def)
  note c = this
  show ?case
  proof (cases s)
    case Nil
    with 2 show ?thesis by simp
  next
    case (Cons b t)
    then have IH1: "is_space a \<Longrightarrow> trim_rev s \<noteq> []" using 2 by simp
    show ?thesis
    proof (cases t)
      case Nil
      with Cons 2(5) have "b = c" by simp
      with Cons Nil IH1 c show ?thesis by simp
    next
      case t: (Cons d u)
      have IH2: "\<not> is_space a \<Longrightarrow> is_space2 b a \<Longrightarrow> trim_rev t \<noteq> []" using 2 Cons t by simp
      have "is_space3 d b a \<Longrightarrow> u \<noteq> []" using 2(5) Cons t c by auto
      then have "\<not> is_space a \<Longrightarrow> \<not> is_space2 b a \<Longrightarrow> is_space3 d b a \<Longrightarrow> trim_rev u \<noteq> []"
        using 2 Cons t by simp
      with IH1 IH2 show ?thesis unfolding Cons t by (subst trim_rev.simps) (simp del: trim_rev.simps)
    qed
  qed
qed simp

lemma TrimSpace_nonempty:
  assumes "\<not> is_space c" "(of_char c :: nat) < 128"
  shows "TrimSpace (c # s) \<noteq> []"
proof -
  have n: "c \<noteq> CHR 0xC2" "c \<noteq> CHR 0xE1" "c \<noteq> CHR 0xE2" "c \<noteq> CHR 0xE3" using assms(2) by auto
  then have "\<not> is_space2 c y" "\<not> is_space3 c y z" for y z
    by (auto simp: is_space2_def is_space3_def Let_def)
  then have "TrimLeft (c # s) = c # s" using assms(1) by (cases s; cases "tl s") auto
  then show ?thesis
    using trim_rev_keep [of "rev (c # s)" c] assms by (simp add: TrimSpace_def)
qed

lemma sorted_wrt_unique:
  assumes "irreflp R" "transp R"
  shows "sorted_wrt R xs \<Longrightarrow> sorted_wrt R ys \<Longrightarrow> set xs = set ys \<Longrightarrow> xs = ys"
proof (induction xs arbitrary: ys)
  case (Cons x xs)
  then obtain y ys' where ys: "ys = y # ys'" by (cases ys) auto
  have "x = y"
  proof (rule ccontr)
    assume "x \<noteq> y"
    then have "R x y" "R y x" using Cons.prems ys by auto
    then show False using assms by (metis irreflpD transpD)
  qed
  moreover have "x \<notin> set xs" "y \<notin> set ys'" using Cons.prems ys assms(1) by (auto dest: irreflpD)
  ultimately have "set xs = set ys'" using Cons.prems(3) ys by auto
  then show ?case using Cons \<open>x = y\<close> ys by auto
qed simp

lemma sorted_wrt_filter_after:
  assumes "irreflp R" "transp R"
  shows "sorted_wrt R xs \<Longrightarrow> k < length xs \<Longrightarrow> filter (R (xs ! k)) xs = drop (Suc k) xs"
proof (induction xs arbitrary: k)
  case (Cons x xs)
  show ?case
  proof (cases k)
    case 0
    then show ?thesis using Cons.prems assms(1) by (auto simp: filter_id_conv dest: irreflpD)
  next
    case (Suc j)
    then have "R x (xs ! j)" using Cons.prems by auto
    then have "\<not> R (xs ! j) x" using assms by (metis irreflpD transpD)
    then show ?thesis using Suc Cons by auto
  qed
qed simp

lemma last_take_nth: "0 < n \<Longrightarrow> n \<le> length zs \<Longrightarrow> take n zs \<noteq> [] \<and> last (take n zs) = zs ! (n - 1)"
  by (cases "take n zs = []") (auto simp: last_conv_nth min_def)

lemma mset_concat_perm: "mset xss = mset yss \<Longrightarrow> mset (concat xss) = mset (concat yss)"
proof -
  assume "mset xss = mset yss"
  then have "sum_mset (mset (map mset xss)) = sum_mset (mset (map mset yss))" by simp
  then show "mset (concat xss) = mset (concat yss)" by (simp only: sum_mset_sum_list mset_concat)
qed

end
