(* ===== verification/App_Errors.thy ===== *)
theory App_Errors
  imports Prelude
begin

text \<open>
  Package \<^verbatim>\<open>core/errors\<close>: coded application errors, the search of an error's tree that
  \<^verbatim>\<open>errors.As\<close> and \<^verbatim>\<open>errors.Is\<close> perform, and the classifications built on the code
  (transient, permanent, HTTP status), together with their two clients: the retryability
  policy of \<^verbatim>\<open>resilience/retry/exponential\<close> and the wire mapping of \<^verbatim>\<open>transport/rpc\<close>.

  An error value is a tree.  \<open>AppError\<close> is the package's own type; \<open>ContextCanceled\<close> and
  \<open>DeadlineExceeded\<close> are the two context sentinels; \<open>Sentinel\<close> is an \<^verbatim>\<open>errors.New\<close> value;
  \<open>Joined\<close> is the result of \<^verbatim>\<open>errors.Join\<close>; \<open>Foreign\<close> is any other error (a driver's or an
  SDK's), with its text and the errors its \<^verbatim>\<open>Unwrap\<close> method exposes.  A nil error is
  \<open>None\<close> of \<open>error option\<close>.  The program counters an AppError captures for its stack trace
  are diagnostics only and are left out.
\<close>

section \<open>Data\<close>

datatype ErrorCode =
    CodeUnknown | CodeInternal | CodeNotFound | CodeUnauthorized | CodeForbidden
  | CodeInvalidInput | CodeConflict | CodeTimeout | CodeCanceled | CodeUnavailable
  | CodeIngestion | CodeQualityFailed | CodeUpstream | CodeResourceExhausted
  | CodeOther string

datatype error =
    AppError (Code_of: ErrorCode) (Message: string) (Details: "(string \<times> string) list")
      (Err: "error option")
  | ContextCanceled
  | DeadlineExceeded
  | Sentinel string
  | Joined "error list"
  | Foreign string "error list"

section \<open>Operations\<close>

fun code_text :: "ErrorCode \<Rightarrow> string" where
  "code_text CodeUnknown = ''UNKNOWN''"
| "code_text CodeInternal = ''INTERNAL''"
| "code_text CodeNotFound = ''NOT_FOUND''"
| "code_text CodeUnauthorized = ''UNAUTHORIZED''"
| "code_text CodeForbidden = ''FORBIDDEN''"
| "code_text CodeInvalidInput = ''INVALID_INPUT''"
| "code_text CodeConflict = ''CONFLICT''"
| "code_text CodeTimeout = ''TIMEOUT''"
| "code_text CodeCanceled = ''CANCELED''"
| "code_text CodeUnavailable = ''UNAVAILABLE''"
| "code_text CodeIngestion = ''INGESTION_ERROR''"
| "code_text CodeQualityFailed = ''QUALITY_FAILED''"
| "code_text CodeUpstream = ''UPSTREAM''"
| "code_text CodeResourceExhausted = ''RESOURCE_EXHAUSTED''"
| "code_text (CodeOther s) = s"

text \<open>\<^verbatim>\<open>Error()\<close> of each kind of error; a join separates its members by newlines.\<close>

fun error_text :: "error \<Rightarrow> string" where
  "error_text (AppError c m d None) = code_text c @ '': '' @ m"
| "error_text (AppError c m d (Some e)) = code_text c @ '': '' @ m @ '': '' @ error_text e"
| "error_text ContextCanceled = ''context canceled''"
| "error_text DeadlineExceeded = ''context deadline exceeded''"
| "error_text (Sentinel s) = s"
| "error_text (Joined es) = join_with [CHR 0x0A] (map error_text es)"
| "error_text (Foreign s es) = s"

text \<open>
  The errors \<^verbatim>\<open>errors.As\<close> and \<^verbatim>\<open>errors.Is\<close> visit, in their order: the error itself, then
  depth first through what \<^verbatim>\<open>Unwrap\<close> returns.
\<close>

fun error_tree :: "error \<Rightarrow> error list" where
  "error_tree (AppError c m d None) = [AppError c m d None]"
| "error_tree (AppError c m d (Some e)) = AppError c m d (Some e) # error_tree e"
| "error_tree (Joined es) = Joined es # concat (map error_tree es)"
| "error_tree (Foreign s es) = Foreign s es # concat (map error_tree es)"
| "error_tree e = [e]"

definition as_app_error :: "error option \<Rightarrow> error option" where
  "as_app_error err = (case err of None \<Rightarrow> None | Some e \<Rightarrow> find is_AppError (error_tree e))"

definition StdIs :: "error option \<Rightarrow> error \<Rightarrow> bool" where
  "StdIs err target = (case err of None \<Rightarrow> False | Some e \<Rightarrow> target \<in> set (error_tree e))"

definition New :: "ErrorCode \<Rightarrow> string \<Rightarrow> error" where
  "New code message = AppError code message [] None"

definition Wrap :: "error option \<Rightarrow> ErrorCode \<Rightarrow> string \<Rightarrow> error option" where
  "Wrap err code message =
     (case err of None \<Rightarrow> None | Some e \<Rightarrow> Some (AppError code message [] (Some e)))"

definition Is :: "error option \<Rightarrow> ErrorCode \<Rightarrow> bool" where
  "Is err code = (case as_app_error err of Some a \<Rightarrow> Code_of a = code | None \<Rightarrow> False)"

definition Code :: "error option \<Rightarrow> ErrorCode" where
  "Code err = (case as_app_error err of Some a \<Rightarrow> Code_of a | None \<Rightarrow> CodeUnknown)"

definition CodeOr :: "error option \<Rightarrow> ErrorCode \<Rightarrow> ErrorCode" where
  "CodeOr err fallback = (if Code err \<noteq> CodeUnknown then Code err else fallback)"

definition ContextCode :: "error option \<Rightarrow> ErrorCode \<Rightarrow> ErrorCode" where
  "ContextCode err fallback =
     (if Code err \<noteq> CodeUnknown then Code err
      else if StdIs err DeadlineExceeded then CodeTimeout
      else if StdIs err ContextCanceled then CodeCanceled
      else fallback)"

text \<open>\<^verbatim>\<open>WithDetails\<close> takes the \<^verbatim>\<open>*AppError\<close> apart; the other constructors do not occur there.\<close>

fun WithDetails :: "error \<Rightarrow> (string \<times> string) list \<Rightarrow> error" where
  "WithDetails (AppError c m d e) details = AppError c m details e"
| "WithDetails e details = e"

text \<open>\<^verbatim>\<open>errors.Join\<close> drops nil members and is nil when nothing is left.\<close>

definition Join :: "error option list \<Rightarrow> error option" where
  "Join errs =
     (let es = List.map_filter id errs in if es = [] then None else Some (Joined es))"

abbreviation InvalidInput :: "string \<Rightarrow> error" where
  "InvalidInput message \<equiv> New CodeInvalidInput message"

abbreviation Internal :: "string \<Rightarrow> error" where
  "Internal message \<equiv> New CodeInternal message"

abbreviation Unavailable :: "string \<Rightarrow> error" where
  "Unavailable message \<equiv> New CodeUnavailable message"

abbreviation Unauthorized :: "string \<Rightarrow> error" where
  "Unauthorized message \<equiv> New CodeUnauthorized message"

abbreviation Forbidden :: "string \<Rightarrow> error" where
  "Forbidden message \<equiv> New CodeForbidden message"

abbreviation Conflict :: "string \<Rightarrow> error" where
  "Conflict message \<equiv> New CodeConflict message"

abbreviation Timeout :: "string \<Rightarrow> error" where
  "Timeout message \<equiv> New CodeTimeout message"

abbreviation Ingestion :: "string \<Rightarrow> error" where
  "Ingestion message \<equiv> New CodeIngestion message"

abbreviation QualityFailed :: "string \<Rightarrow> error" where
  "QualityFailed message \<equiv> New CodeQualityFailed message"

abbreviation Upstream :: "string \<Rightarrow> error" where
  "Upstream message \<equiv> New CodeUpstream message"

abbreviation NotFound :: "string \<Rightarrow> error" where
  "NotFound message \<equiv> New CodeNotFound message"

subsection \<open>Classification by code (classify.go)\<close>

definition IsTransient :: "error option \<Rightarrow> bool" where
  "IsTransient err = (case Code err of CodeTimeout \<Rightarrow> True | CodeUnavailable \<Rightarrow> True | _ \<Rightarrow> False)"

definition IsPermanent :: "error option \<Rightarrow> bool" where
  "IsPermanent err =
     (case Code err of
        CodeNotFound \<Rightarrow> True | CodeInvalidInput \<Rightarrow> True | CodeUnauthorized \<Rightarrow> True
      | CodeForbidden \<Rightarrow> True | CodeConflict \<Rightarrow> True | _ \<Rightarrow> False)"

fun ToHTTPStatus :: "ErrorCode \<Rightarrow> int" where
  "ToHTTPStatus CodeNotFound = 404"
| "ToHTTPStatus CodeInvalidInput = 400"
| "ToHTTPStatus CodeUnauthorized = 401"
| "ToHTTPStatus CodeForbidden = 403"
| "ToHTTPStatus CodeConflict = 409"
| "ToHTTPStatus CodeTimeout = 504"
| "ToHTTPStatus CodeUnavailable = 503"
| "ToHTTPStatus CodeInternal = 500"
| "ToHTTPStatus CodeUpstream = 502"
| "ToHTTPStatus CodeResourceExhausted = 429"
| "ToHTTPStatus _ = 500"

subsection \<open>Retryability policy (retry/exponential)\<close>

definition IsRetryable :: "error option \<Rightarrow> bool" where
  "IsRetryable err =
     (if StdIs err ContextCanceled then False
      else (case Code err of
              CodeConflict \<Rightarrow> False | CodeInvalidInput \<Rightarrow> False | CodeNotFound \<Rightarrow> False
            | CodeForbidden \<Rightarrow> False | CodeUnauthorized \<Rightarrow> False | CodeResourceExhausted \<Rightarrow> False
            | _ \<Rightarrow> True))"

subsection \<open>Wire mapping (transport/rpc/errors.go)\<close>

text \<open>The Connect codes the mapping names; every other wire code is \<open>ConnOther\<close>.\<close>

datatype connect_code =
    ConnCanceled | ConnUnknown | ConnInvalidArgument | ConnDeadlineExceeded | ConnNotFound
  | ConnAlreadyExists | ConnPermissionDenied | ConnResourceExhausted | ConnInternal
  | ConnUnavailable | ConnUnauthenticated | ConnOther nat

definition msgInternal :: string where
  "msgInternal = ''internal server error''"

definition Sanitize :: "error option \<Rightarrow> connect_code \<times> string" where
  "Sanitize err =
     (case Code err of
        CodeNotFound \<Rightarrow> (ConnNotFound, ''resource not found'')
      | CodeInvalidInput \<Rightarrow> (ConnInvalidArgument, ''invalid input'')
      | CodeConflict \<Rightarrow> (ConnAlreadyExists, ''resource already exists'')
      | CodeUnauthorized \<Rightarrow> (ConnUnauthenticated, ''unauthenticated'')
      | CodeForbidden \<Rightarrow> (ConnPermissionDenied, ''permission denied'')
      | CodeUpstream \<Rightarrow> (ConnUnavailable, ''upstream service unavailable'')
      | CodeUnavailable \<Rightarrow> (ConnUnavailable, ''service unavailable'')
      | CodeCanceled \<Rightarrow> (ConnCanceled, ''request canceled'')
      | CodeTimeout \<Rightarrow> (ConnDeadlineExceeded, ''deadline exceeded'')
      | CodeResourceExhausted \<Rightarrow> (ConnResourceExhausted, ''resource exhausted'')
      | _ \<Rightarrow> (ConnInternal, msgInternal))"

fun fromWire :: "connect_code \<Rightarrow> ErrorCode \<times> string" where
  "fromWire ConnNotFound = (CodeNotFound, ''resource not found'')"
| "fromWire ConnInvalidArgument = (CodeInvalidInput, ''invalid input'')"
| "fromWire ConnAlreadyExists = (CodeConflict, ''resource already exists'')"
| "fromWire ConnUnauthenticated = (CodeUnauthorized, ''unauthenticated'')"
| "fromWire ConnPermissionDenied = (CodeForbidden, ''permission denied'')"
| "fromWire ConnUnavailable = (CodeUpstream, ''upstream service unavailable'')"
| "fromWire ConnDeadlineExceeded = (CodeTimeout, ''deadline exceeded'')"
| "fromWire ConnCanceled = (CodeCanceled, ''request canceled'')"
| "fromWire ConnResourceExhausted = (CodeResourceExhausted, ''resource exhausted'')"
| "fromWire ConnInternal = (CodeInternal, msgInternal)"
| "fromWire _ = (CodeUnknown, ''unknown error'')"

text \<open>
  \<open>codeOf\<close> is \<^verbatim>\<open>connect.CodeOf\<close> and \<open>grpcStatus\<close> the code of the gRPC status an error
  carries (\<^verbatim>\<open>status.FromError\<close> when it is present and not OK); both are third-party.
\<close>

definition FromRPCError ::
  "(error \<Rightarrow> connect_code) \<Rightarrow> (error \<Rightarrow> connect_code option) \<Rightarrow> error option \<Rightarrow> error option" where
  "FromRPCError codeOf grpcStatus err =
     (case err of
        None \<Rightarrow> None
      | Some e \<Rightarrow>
          if Code err \<noteq> CodeUnknown then err
          else
            let wire0 = codeOf e;
                wire = (if wire0 = ConnUnknown
                        then (case grpcStatus e of Some c \<Rightarrow> c | None \<Rightarrow> wire0) else wire0);
                (code, msg) = fromWire wire
            in Wrap err code msg)"

subsection \<open>Integer conversions at the wire (transport/rpc/safeint.go)\<close>

definition Int32OrPanic :: "int \<Rightarrow> int outcome" where
  "Int32OrPanic n =
     (if n > MaxInt32 \<or> n < MinInt32
      then Panic (''value '' @ [CHR 0x27] @ Itoa n @ [CHR 0x27] @ '' out of int32 range'')
      else Return (int32 n))"

definition CountToInt32 :: "int \<Rightarrow> int" where
  "CountToInt32 n = (if n < 0 then 0 else if n > MaxInt32 then MaxInt32 else int32 n)"

section \<open>Lemmas\<close>

lemma error_tree_self [simp]: "e \<in> set (error_tree e)"
  by (cases e rule: error_tree.cases) auto

lemma error_tree_AppError [simp]:
  "error_tree (AppError c m d e) = AppError c m d e # (case e of None \<Rightarrow> [] | Some x \<Rightarrow> error_tree x)"
  by (cases e) auto

lemma Code_nil [simp]: "Code None = CodeUnknown"
  by (simp add: Code_def as_app_error_def)

lemma Code_AppError [simp]: "Code (Some (AppError c m d e)) = c"
  by (simp add: Code_def as_app_error_def)

lemma Code_New [simp]: "Code (Some (New c m)) = c"
  by (simp add: New_def)

lemma Code_sentinels [simp]:
  "Code (Some ContextCanceled) = CodeUnknown" "Code (Some DeadlineExceeded) = CodeUnknown"
  "Code (Some (Sentinel s)) = CodeUnknown" "Code (Some (Foreign s [])) = CodeUnknown"
  by (simp_all add: Code_def as_app_error_def)

lemma Code_Wrap: "err \<noteq> None \<Longrightarrow> Code (Wrap err c m) = c"
  by (auto simp: Wrap_def)

lemma Wrap_None [simp]: "Wrap None c m = None"
  by (simp add: Wrap_def)

lemma Wrap_Some [simp]: "Wrap (Some e) c m = Some (AppError c m [] (Some e))"
  by (simp add: Wrap_def)

lemma StdIs_self [simp]: "StdIs (Some e) e"
  by (simp add: StdIs_def)

lemma StdIs_Wrap: "target \<noteq> AppError c m [] err \<Longrightarrow> StdIs (Wrap err c m) target = StdIs err target"
  by (cases err) (auto simp: StdIs_def)

lemma CodeOr_New [simp]: "c \<noteq> CodeUnknown \<Longrightarrow> CodeOr (Some (AppError c m d e)) f = c"
  by (simp add: CodeOr_def)

lemma CodeOr_cases: "CodeOr err f = Code err \<or> CodeOr err f = f"
  by (simp add: CodeOr_def)

lemma CodeOr_known: "f \<noteq> CodeUnknown \<Longrightarrow> CodeOr err f \<noteq> CodeUnknown"
  by (simp add: CodeOr_def)

lemma ContextCode_coded: "Code err \<noteq> CodeUnknown \<Longrightarrow> ContextCode err f = Code err"
  by (simp add: ContextCode_def)

lemma Join_eq_None: "(Join errs = None) = (\<forall>e \<in> set errs. e = None)"
  by (induction errs) (auto simp: Join_def Let_def map_filter_def)

text \<open>A wrapper never hides a context cancellation, so it never makes one retryable.\<close>

lemma IsRetryable_Wrap_canceled:
  "StdIs err ContextCanceled \<Longrightarrow> \<not> IsRetryable (Wrap err c m)"
  by (simp add: IsRetryable_def StdIs_Wrap)

section \<open>Properties\<close>

text \<open>
  The classes built on an error's code agree: an error is never both transient and
  permanent; a permanent error (one the caller must fix) is never retried and maps to a
  4xx status; a transient one maps to a 5xx status and is retried unless it carries a
  context cancellation, which no wrapping can hide.
\<close>

lemma error_classes_consistent:
  "\<not> (IsTransient err \<and> IsPermanent err)
   \<and> (IsPermanent err \<longrightarrow> \<not> IsRetryable err \<and> 400 \<le> ToHTTPStatus (Code err) \<and> ToHTTPStatus (Code err) < 500)
   \<and> (IsTransient err \<longrightarrow> ToHTTPStatus (Code err) \<ge> 500 \<and> IsRetryable err = (\<not> StdIs err ContextCanceled))
   \<and> (StdIs err ContextCanceled \<longrightarrow> \<not> IsRetryable (Wrap err c m))"
  using IsRetryable_Wrap_canceled [of err c m]
  by (cases "Code err") (auto simp: IsTransient_def IsPermanent_def IsRetryable_def)



end
