(* ===== verification/Encoding.thy ===== *)
theory Encoding
  imports Prelude
begin

text \<open>
  The wire encodings the list-query packages rely on: JSON text (package
  \<^verbatim>\<open>encoding/json\<close>: the syntax checker, the compact printer and the decoding of an object
  into a \<^verbatim>\<open>map[string]json.RawMessage\<close>) and base64 (package \<^verbatim>\<open>encoding/base64\<close>).  JSON text is
  a byte string that is valid UTF-8; the replacement of invalid UTF-8 and the decoder's
  nesting limit of 10000 are not modelled.  A \<^verbatim>\<open>json.RawMessage\<close> is the \<open>json\<close> tree it
  denotes, a number keeping its literal.
\<close>

section \<open>JSON trees and their text\<close>

datatype json =
    JNull
  | JBool bool
  | JNum string
  | JStr string
  | JArr "json list"
  | JObj "(string \<times> json) list"

definition json_ws :: "char \<Rightarrow> bool" where
  "json_ws c = (c \<in> {CHR 0x20, CHR 0x09, CHR 0x0A, CHR 0x0D})"

definition skip_ws :: "string \<Rightarrow> string" where
  "skip_ws s = dropWhile json_ws s"

subsection \<open>Strings\<close>

definition hex_val :: "char \<Rightarrow> nat option" where
  "hex_val c =
     (let n = of_char c :: nat in
      if 48 \<le> n \<and> n \<le> 57 then Some (n - 48)
      else if 97 \<le> n \<and> n \<le> 102 then Some (n - 87)
      else if 65 \<le> n \<and> n \<le> 70 then Some (n - 55)
      else None)"

definition hex4 :: "char \<Rightarrow> char \<Rightarrow> char \<Rightarrow> char \<Rightarrow> nat option" where
  "hex4 a b c d =
     (case (hex_val a, hex_val b, hex_val c, hex_val d) of
        (Some w, Some x, Some y, Some z) \<Rightarrow> Some (((w * 16 + x) * 16 + y) * 16 + z)
      | _ \<Rightarrow> None)"

definition utf8 :: "nat \<Rightarrow> string" where
  "utf8 r =
     (if r < 0x80 then [char_of r]
      else if r < 0x800 then [char_of (0xC0 + r div 64), char_of (0x80 + r mod 64)]
      else if r < 0x10000
        then [char_of (0xE0 + r div 4096), char_of (0x80 + r div 64 mod 64), char_of (0x80 + r mod 64)]
      else [char_of (0xF0 + r div 262144), char_of (0x80 + r div 4096 mod 64),
            char_of (0x80 + r div 64 mod 64), char_of (0x80 + r mod 64)])"

definition is_surrogate :: "nat \<Rightarrow> bool" where
  "is_surrogate r = (0xD800 \<le> r \<and> r < 0xE000)"

text \<open>The low half of a surrogate pair at the head of the input, and the input after it.\<close>

definition low_surrogate :: "string \<Rightarrow> (nat \<times> string) option" where
  "low_surrogate s =
     (if length s \<ge> 6 \<and> s ! 0 = CHR 0x5C \<and> s ! 1 = CHR ''u'' then
        (case hex4 (s ! 2) (s ! 3) (s ! 4) (s ! 5) of
           Some r \<Rightarrow> if 0xDC00 \<le> r \<and> r < 0xE000 then Some (r, drop 6 s) else None
         | None \<Rightarrow> None)
      else None)"

definition simple_escape :: "char \<Rightarrow> char option" where
  "simple_escape e =
     (if e = CHR 0x22 \<or> e = CHR 0x5C \<or> e = CHR ''/'' then Some e
      else if e = CHR ''b'' then Some (CHR 0x08)
      else if e = CHR ''f'' then Some (CHR 0x0C)
      else if e = CHR ''n'' then Some (CHR 0x0A)
      else if e = CHR ''r'' then Some (CHR 0x0D)
      else if e = CHR ''t'' then Some (CHR 0x09)
      else None)"

text \<open>The characters after an opening quote, up to and including the closing one.\<close>

function parse_str :: "string \<Rightarrow> (string \<times> string) option" where
  "parse_str s =
     (case s of
        [] \<Rightarrow> None
      | c # t \<Rightarrow>
          if c = CHR 0x22 then Some ([], t)
          else if c = CHR 0x5C then
            (case t of
               [] \<Rightarrow> None
             | e # u \<Rightarrow>
                 if e = CHR ''u'' then
                   (if length u < 4 then None
                    else (case hex4 (u ! 0) (u ! 1) (u ! 2) (u ! 3) of
                            None \<Rightarrow> None
                          | Some r \<Rightarrow>
                              if is_surrogate r then
                                (case (if r < 0xDC00 then low_surrogate (drop 4 u) else None) of
                                   Some (lo, v) \<Rightarrow>
                                     map_option (\<lambda>(x, rest).
                                         (utf8 (0x10000 + (r - 0xD800) * 1024 + (lo - 0xDC00)) @ x, rest))
                                       (parse_str (drop 10 u))
                                 | None \<Rightarrow>
                                     map_option (\<lambda>(x, rest). (utf8 0xFFFD @ x, rest))
                                       (parse_str (drop 4 u)))
                              else map_option (\<lambda>(x, rest). (utf8 r @ x, rest)) (parse_str (drop 4 u))))
                 else (case simple_escape e of
                         None \<Rightarrow> None
                       | Some d \<Rightarrow> map_option (\<lambda>(x, rest). (d # x, rest)) (parse_str u)))
          else if (of_char c :: nat) < 0x20 then None
          else map_option (\<lambda>(x, rest). (c # x, rest)) (parse_str t))"
  by pat_completeness auto
termination
  by (relation "measure length") auto

declare parse_str.simps [simp del]

subsection \<open>Numbers\<close>

text \<open>The literal at the head of the input, as the JSON grammar delimits it.\<close>

definition parse_frac :: "string \<Rightarrow> (string \<times> string) option" where
  "parse_frac s =
     (case s of
        c # t \<Rightarrow>
          if c = CHR ''.'' then
            (let ds = takeWhile is_digit t in
             if ds = [] then None else Some (c # ds, dropWhile is_digit t))
          else Some ([], s)
      | [] \<Rightarrow> Some ([], s))"

definition parse_exp :: "string \<Rightarrow> (string \<times> string) option" where
  "parse_exp s =
     (case s of
        c # t \<Rightarrow>
          if c = CHR ''e'' \<or> c = CHR ''E'' then
            (let sign = (case t of d # _ \<Rightarrow> if d = CHR ''+'' \<or> d = CHR ''-'' then [d] else [] | [] \<Rightarrow> []);
                 u = drop (length sign) t;
                 ds = takeWhile is_digit u in
             if ds = [] then None else Some (c # sign @ ds, dropWhile is_digit u))
          else Some ([], s)
      | [] \<Rightarrow> Some ([], s))"

definition parse_num :: "string \<Rightarrow> (string \<times> string) option" where
  "parse_num s =
     (let sign = (case s of c # _ \<Rightarrow> if c = CHR ''-'' then [c] else [] | [] \<Rightarrow> []);
          t = drop (length sign) s;
          ds = takeWhile is_digit t
      in if ds = [] \<or> (hd ds = CHR ''0'' \<and> length ds > 1) then None
         else (case parse_frac (dropWhile is_digit t) of
                 None \<Rightarrow> None
               | Some (fr, u) \<Rightarrow>
                   (case parse_exp u of
                      None \<Rightarrow> None
                    | Some (ex, v) \<Rightarrow> Some (sign @ ds @ fr @ ex, v))))"

subsection \<open>Values\<close>

text \<open>
  The recursive descent over a value.  The fuel bounds the number of nested calls; every
  call on a shorter input needs at most two units more, so \<open>json_fuel\<close> of the whole text is
  always enough.
\<close>

fun parse_value :: "nat \<Rightarrow> string \<Rightarrow> (json \<times> string) option"
  and parse_elems :: "nat \<Rightarrow> string \<Rightarrow> (json list \<times> string) option"
  and parse_members :: "nat \<Rightarrow> string \<Rightarrow> ((string \<times> json) list \<times> string) option" where
  "parse_value 0 s = None"
| "parse_value (Suc n) s =
     (case s of
        [] \<Rightarrow> None
      | c # t \<Rightarrow>
          if c = CHR 0x22 then map_option (\<lambda>(x, r). (JStr x, r)) (parse_str t)
          else if c = CHR ''['' then
            (let u = skip_ws t in
             if u \<noteq> [] \<and> hd u = CHR '']'' then Some (JArr [], tl u)
             else map_option (\<lambda>(xs, r). (JArr xs, r)) (parse_elems n u))
          else if c = CHR ''{'' then
            (let u = skip_ws t in
             if u \<noteq> [] \<and> hd u = CHR ''}'' then Some (JObj [], tl u)
             else map_option (\<lambda>(xs, r). (JObj xs, r)) (parse_members n u))
          else if prefix ''null'' s then Some (JNull, drop 4 s)
          else if prefix ''true'' s then Some (JBool True, drop 4 s)
          else if prefix ''false'' s then Some (JBool False, drop 5 s)
          else map_option (\<lambda>(x, r). (JNum x, r)) (parse_num s))"
| "parse_elems 0 s = None"
| "parse_elems (Suc n) s =
     (case parse_value n s of
        None \<Rightarrow> None
      | Some (v, r) \<Rightarrow>
          (case skip_ws r of
             [] \<Rightarrow> None
           | c # t \<Rightarrow>
               if c = CHR '']'' then Some ([v], t)
               else if c = CHR '','' then
                 map_option (\<lambda>(vs, r'). (v # vs, r')) (parse_elems n (skip_ws t))
               else None))"
| "parse_members 0 s = None"
| "parse_members (Suc n) s =
     (case s of
        [] \<Rightarrow> None
      | q # t \<Rightarrow>
          if q \<noteq> CHR 0x22 then None
          else (case parse_str t of
                  None \<Rightarrow> None
                | Some (k, r) \<Rightarrow>
                    (case skip_ws r of
                       [] \<Rightarrow> None
                     | c # u \<Rightarrow>
                         if c \<noteq> CHR '':'' then None
                         else (case parse_value n (skip_ws u) of
                                 None \<Rightarrow> None
                               | Some (v, r2) \<Rightarrow>
                                   (case skip_ws r2 of
                                      [] \<Rightarrow> None
                                    | d # w \<Rightarrow>
                                        if d = CHR ''}'' then Some ([(k, v)], w)
                                        else if d = CHR '','' then
                                          map_option (\<lambda>(kvs, r'). ((k, v) # kvs, r'))
                                            (parse_members n (skip_ws w))
                                        else None)))))"

definition json_fuel :: "string \<Rightarrow> nat" where
  "json_fuel s = 2 * length s + 2"

text \<open>\<^verbatim>\<open>json.Unmarshal\<close>'s reading of a text: one value, blanks around it.\<close>

definition json_parse :: "string \<Rightarrow> json option" where
  "json_parse s =
     (case parse_value (json_fuel s) (skip_ws s) of
        Some (v, r) \<Rightarrow> if skip_ws r = [] then Some v else None
      | None \<Rightarrow> None)"

subsection \<open>Printing\<close>

definition hex_digit :: "nat \<Rightarrow> char" where
  "hex_digit d = (if d < 10 then char_of (48 + d) else char_of (87 + d))"

definition unicode_escape :: "nat \<Rightarrow> string" where
  "unicode_escape r =
     [CHR 0x5C, CHR ''u'', hex_digit (r div 4096 mod 16), hex_digit (r div 256 mod 16),
      hex_digit (r div 16 mod 16), hex_digit (r mod 16)]"

definition escape_char :: "char \<Rightarrow> string" where
  "escape_char c =
     (if c = CHR 0x22 \<or> c = CHR 0x5C then [CHR 0x5C, c]
      else if c = CHR 0x08 then [CHR 0x5C, CHR ''b'']
      else if c = CHR 0x0C then [CHR 0x5C, CHR ''f'']
      else if c = CHR 0x0A then [CHR 0x5C, CHR ''n'']
      else if c = CHR 0x0D then [CHR 0x5C, CHR ''r'']
      else if c = CHR 0x09 then [CHR 0x5C, CHR ''t'']
      else if (of_char c :: nat) < 0x20 \<or> c = CHR ''<'' \<or> c = CHR ''>'' \<or> c = CHR ''&''
        then unicode_escape (of_char c)
      else [c])"

definition line_separator :: "string \<Rightarrow> bool" where
  "line_separator s =
     (length s \<ge> 3 \<and> s ! 0 = CHR 0xE2 \<and> s ! 1 = CHR 0x80 \<and> (s ! 2 = CHR 0xA8 \<or> s ! 2 = CHR 0xA9))"

text \<open>The encoder's string body: HTML characters, control characters and U+2028/U+2029 escaped.\<close>

fun escape_str :: "string \<Rightarrow> string" where
  "escape_str [] = []"
| "escape_str (c # s) =
     (if line_separator (c # s)
      then unicode_escape (if s ! 1 = CHR 0xA8 then 0x2028 else 0x2029) @ escape_str (drop 2 s)
      else escape_char c @ escape_str s)"

definition quote_str :: "string \<Rightarrow> string" where
  "quote_str s = CHR 0x22 # escape_str s @ [CHR 0x22]"

fun json_print :: "json \<Rightarrow> string" where
  "json_print JNull = ''null''"
| "json_print (JBool b) = (if b then ''true'' else ''false'')"
| "json_print (JNum l) = l"
| "json_print (JStr s) = quote_str s"
| "json_print (JArr vs) = CHR ''['' # join_with '','' (map json_print vs) @ '']''"
| "json_print (JObj kvs) =
     CHR ''{'' # join_with '','' (map (\<lambda>(k, v). quote_str k @ '':'' @ json_print v) kvs) @ ''}''"

section \<open>Decoding an object into a Go map\<close>

text \<open>
  \<^verbatim>\<open>json.Unmarshal\<close> into a \<^verbatim>\<open>map[string]json.RawMessage\<close>: an object gives its entries, a
  repeated key keeping the last value; \<^verbatim>\<open>null\<close> leaves the map nil (no entries, no error);
  anything else is an error.  The result has one entry per key.
\<close>

fun last_wins :: "(string \<times> 'a) list \<Rightarrow> (string \<times> 'a) list" where
  "last_wins [] = []"
| "last_wins ((k, v) # kvs) = (if k \<in> fst ` set kvs then last_wins kvs else (k, v) # last_wins kvs)"

fun unmarshal_map :: "json \<Rightarrow> (string \<times> json) list option" where
  "unmarshal_map JNull = Some []"
| "unmarshal_map (JObj kvs) = Some (last_wins kvs)"
| "unmarshal_map _ = None"

text \<open>\<^verbatim>\<open>json.Unmarshal\<close> into a slice: \<^verbatim>\<open>null\<close> leaves it nil.\<close>

fun unmarshal_slice :: "json \<Rightarrow> json list option" where
  "unmarshal_slice JNull = Some []"
| "unmarshal_slice (JArr vs) = Some vs"
| "unmarshal_slice _ = None"

section \<open>Base64\<close>

definition std_alphabet :: string where
  "std_alphabet = ''ABCDEFGHIJKLMNOPQRSTUVWXYZabcdefghijklmnopqrstuvwxyz0123456789+/''"

definition url_alphabet :: string where
  "url_alphabet = ''ABCDEFGHIJKLMNOPQRSTUVWXYZabcdefghijklmnopqrstuvwxyz0123456789-_''"

definition alphabet_index :: "string \<Rightarrow> char \<Rightarrow> nat option" where
  "alphabet_index al c =
     (let i = length (takeWhile (\<lambda>x. x \<noteq> c) al) in if i < length al then Some i else None)"

text \<open>The 6-bit groups of a byte string; a last partial group is filled with zero bits.\<close>

fun sextets :: "nat list \<Rightarrow> nat list" where
  "sextets [] = []"
| "sextets [a] = [a div 4, a mod 4 * 16]"
| "sextets [a, b] = [a div 4, a mod 4 * 16 + b div 16, b mod 16 * 4]"
| "sextets (a # b # c # r) =
     a div 4 # (a mod 4 * 16 + b div 16) # (b mod 16 * 4 + c div 64) # c mod 64 # sextets r"

fun unsextets :: "nat list \<Rightarrow> nat list option" where
  "unsextets [] = Some []"
| "unsextets [a] = None"
| "unsextets [a, b] = Some [a * 4 + b div 16]"
| "unsextets [a, b, c] = Some [a * 4 + b div 16, b mod 16 * 16 + c div 4]"
| "unsextets (a # b # c # d # r) =
     map_option (\<lambda>xs. (a * 4 + b div 16) # (b mod 16 * 16 + c div 4) # (c mod 4 * 64 + d) # xs)
       (unsextets r)"

definition bytes_of :: "string \<Rightarrow> nat list" where
  "bytes_of s = map of_char s"

definition of_bytes :: "nat list \<Rightarrow> string" where
  "of_bytes ns = map char_of ns"

definition raw_encode :: "string \<Rightarrow> string \<Rightarrow> string" where
  "raw_encode al s = map (\<lambda>i. al ! i) (sextets (bytes_of s))"

fun all_some :: "'a option list \<Rightarrow> 'a list option" where
  "all_some [] = Some []"
| "all_some (None # xs) = None"
| "all_some (Some x # xs) = map_option (\<lambda>ys. x # ys) (all_some xs)"

definition not_newline :: "char \<Rightarrow> bool" where
  "not_newline c = (c \<noteq> CHR 0x0A \<and> c \<noteq> CHR 0x0D)"

text \<open>Decoding skips line breaks, as the package does, and ignores trailing filler bits.\<close>

definition raw_decode :: "string \<Rightarrow> string \<Rightarrow> string option" where
  "raw_decode al s =
     (case all_some (map (alphabet_index al) (filter not_newline s)) of
        None \<Rightarrow> None
      | Some ns \<Rightarrow> map_option of_bytes (unsextets ns))"

definition RawURLEncode :: "string \<Rightarrow> string" where
  "RawURLEncode s = raw_encode url_alphabet s"

definition RawURLDecode :: "string \<Rightarrow> string option" where
  "RawURLDecode s = raw_decode url_alphabet s"

text \<open>The padded standard encoding, which \<^verbatim>\<open>encoding/json\<close> uses for a \<^verbatim>\<open>[]byte\<close>.\<close>

definition pad :: "string \<Rightarrow> string" where
  "pad s = s @ replicate ((4 - length s mod 4) mod 4) (CHR ''='')"

definition StdEncode :: "string \<Rightarrow> string" where
  "StdEncode s = pad (raw_encode std_alphabet s)"

definition StdDecode :: "string \<Rightarrow> string option" where
  "StdDecode s =
     (let t = filter not_newline s; u = takeWhile (\<lambda>c. c \<noteq> CHR ''='') t in
      if pad u = t then raw_decode std_alphabet u else None)"

section \<open>What a printed tree must satisfy to be read back\<close>

text \<open>
  A number literal is read to its end only when a delimiter follows; \<open>printable\<close> trees
  are those whose number literals the scanner accepts; \<open>json_size\<close> bounds the fuel.
\<close>

definition delimited :: "string \<Rightarrow> bool" where
  "delimited r = (r = [] \<or> hd r \<in> {CHR '','', CHR '']'', CHR ''}''})"

definition num_literal :: "string \<Rightarrow> bool" where
  "num_literal l = (l \<noteq> [] \<and> (is_digit (hd l) \<or> hd l = CHR ''-'') \<and>
     (\<forall>r. delimited r \<longrightarrow> parse_num (l @ r) = Some (l, r)))"

fun printable :: "json \<Rightarrow> bool" where
  "printable (JNum l) = num_literal l"
| "printable (JArr vs) = list_all printable vs"
| "printable (JObj kvs) = list_all (\<lambda>kv. printable (snd kv)) kvs"
| "printable _ = True"

fun json_size :: "json \<Rightarrow> nat" where
  "json_size (JArr vs) = Suc (sum_list (map (\<lambda>v. Suc (json_size v)) vs))"
| "json_size (JObj kvs) = Suc (sum_list (map (\<lambda>kv. Suc (json_size (snd kv))) kvs))"
| "json_size _ = 1"


definition parses_back :: "json \<Rightarrow> bool" where
  "parses_back v = (\<forall>fuel r. json_size v \<le> fuel \<longrightarrow> delimited r \<longrightarrow>
     parse_value fuel (json_print v @ r) = Some (v, r))"

abbreviation print_member :: "string \<times> json \<Rightarrow> string" where
  "print_member \<equiv> (\<lambda>(k, v). quote_str k @ '':'' @ json_print v)"

section \<open>Lemmas on base64\<close>

lemma alphabet_index_nth:
  "distinct al \<Longrightarrow> i < length al \<Longrightarrow> alphabet_index al (al ! i) = Some i"
proof (induction al arbitrary: i)
  case Nil
  then show ?case by simp
next
  case (Cons a al)
  show ?case
  proof (cases i)
    case 0
    then show ?thesis by (simp add: alphabet_index_def)
  next
    case (Suc j)
    with Cons.prems have "a \<noteq> al ! j" by auto
    with Suc Cons.IH [of j] Cons.prems show ?thesis
      by (auto simp: alphabet_index_def Let_def split: if_splits)
  qed
qed

lemma all_some_map_Some: "(\<And>x. x \<in> set xs \<Longrightarrow> f x = Some (g x)) \<Longrightarrow> all_some (map f xs) = Some (map g xs)"
  by (induction xs) auto

lemma sextets_bound: "list_all (\<lambda>b. b < 256) bs \<Longrightarrow> list_all (\<lambda>x. x < 64) (sextets bs)"
  by (induction bs rule: sextets.induct) auto

lemma unsextets_sextets: "list_all (\<lambda>b. b < 256) bs \<Longrightarrow> unsextets (sextets bs) = Some bs"
proof (induction bs rule: sextets.induct)
  case (4 a b c r)
  then have IH: "unsextets (sextets r) = Some r" by simp
  have "a div 4 * 4 + (a mod 4 * 16 + b div 16) div 16 = a"
    "(a mod 4 * 16 + b div 16) mod 16 * 16 + (b mod 16 * 4 + c div 64) div 4 = b"
    "(b mod 16 * 4 + c div 64) mod 4 * 64 + c mod 64 = c"
    using 4 by (auto; presburger)+
  then show ?case using IH by simp
qed (auto; presburger)+

lemma bytes_of_bound: "list_all (\<lambda>b. b < 256) (bytes_of s)"
  by (induction s) (auto simp: bytes_of_def)

lemma of_bytes_bytes_of: "of_bytes (bytes_of s) = s"
  by (induction s) (auto simp: bytes_of_def of_bytes_def)

lemma raw_roundtrip:
  assumes "distinct al" "length al = 64" "list_all not_newline al"
  shows "raw_decode al (raw_encode al s) = Some s"
proof -
  let ?xs = "sextets (bytes_of s)"
  have b: "x < 64" if "x \<in> set ?xs" for x
    using sextets_bound [OF bytes_of_bound] that by (auto simp: list_all_iff)
  have "filter not_newline (raw_encode al s) = raw_encode al s"
    using b assms by (auto simp: raw_encode_def list_all_iff filter_id_conv)
  moreover have "all_some (map (alphabet_index al) (raw_encode al s)) = Some (map id ?xs)"
    unfolding raw_encode_def map_map
    by (rule all_some_map_Some) (use b assms in \<open>auto simp: alphabet_index_nth\<close>)
  ultimately show ?thesis
    by (simp add: raw_decode_def unsextets_sextets bytes_of_bound of_bytes_bytes_of)
qed

lemma alphabets: 
  "distinct url_alphabet" "length url_alphabet = 64" "list_all not_newline url_alphabet"
  "distinct std_alphabet" "length std_alphabet = 64" "list_all not_newline std_alphabet"
  "CHR ''='' \<notin> set std_alphabet"
  by (code_simp+)

lemma RawURL_roundtrip: "RawURLDecode (RawURLEncode s) = Some s"
  by (simp add: RawURLDecode_def RawURLEncode_def raw_roundtrip alphabets)

lemma raw_encode_chars: "length al = 64 \<Longrightarrow> set (raw_encode al s) \<subseteq> set al"
  using sextets_bound [OF bytes_of_bound, of s]
  by (auto simp: raw_encode_def list_all_iff)

lemma Std_roundtrip: "StdDecode (StdEncode s) = Some s"
proof -
  let ?e = "raw_encode std_alphabet s"
  have sub: "set ?e \<subseteq> set std_alphabet" by (rule raw_encode_chars) (simp add: alphabets)
  have f: "filter not_newline (pad ?e) = pad ?e"
    using sub alphabets(6) by (auto simp: pad_def filter_id_conv list_all_iff not_newline_def)
  have "takeWhile (\<lambda>c. c \<noteq> CHR ''='') (pad ?e) = ?e"
    using sub alphabets(7) by (subst pad_def, subst takeWhile_append2) (auto simp: takeWhile_replicate)
  with f show ?thesis
    by (simp add: StdDecode_def StdEncode_def raw_roundtrip alphabets)
qed

section \<open>Lemmas on JSON text\<close>

lemma hex_val_digit: "d < 16 \<Longrightarrow> hex_val (hex_digit d) = Some d"
  by (auto simp: hex_val_def hex_digit_def Let_def)

lemma hex_val_mod: "hex_val (hex_digit (x mod 16)) = Some (x mod 16)"
  by (rule hex_val_digit) simp

lemma horner4:
  "r = 16 * a + r0 \<Longrightarrow> a = 16 * b + a0 \<Longrightarrow> b = 16 * c + b0 \<Longrightarrow>
   ((c * 16 + b0) * 16 + a0) * 16 + r0 = (r::nat)"
  by simp

lemma hex_split:
  assumes "r < 65536"
  shows "((r div 4096 mod 16 * 16 + r div 256 mod 16) * 16 + r div 16 mod 16) * 16 + r mod 16 = (r::nat)"
proof -
  have 1: "r div 256 = r div 16 div 16" "r div 4096 = r div 16 div 16 div 16"
    by (simp_all add: div_mult2_eq [symmetric])
  have 2: "r div 16 div 16 div 16 mod 16 = r div 16 div 16 div 16"
    unfolding 1 [symmetric] by (rule mod_less) (use assms in simp)
  show ?thesis
    unfolding 1 2 by (rule horner4) (rule mult_div_mod_eq [symmetric])+
qed

lemma unicode_escape_hex:
  assumes "r < 65536"
  obtains a b c d where "unicode_escape r = [CHR 0x5C, CHR ''u'', a, b, c, d]" "hex4 a b c d = Some r"
proof
  show "hex4 (hex_digit (r div 4096 mod 16)) (hex_digit (r div 256 mod 16))
     (hex_digit (r div 16 mod 16)) (hex_digit (r mod 16)) = Some r"
    unfolding hex4_def hex_val_mod prod.case option.case hex_split [OF assms] ..
qed (rule unicode_escape_def)

lemma parse_str_unicode:
  assumes "r < 65536" "\<not> is_surrogate r"
  shows "parse_str (unicode_escape r @ s) = map_option (\<lambda>(x, rest). (utf8 r @ x, rest)) (parse_str s)"
proof -
  obtain a b c d where "unicode_escape r = [CHR 0x5C, CHR ''u'', a, b, c, d]" "hex4 a b c d = Some r"
    using unicode_escape_hex [OF assms(1)] .
  with assms(2) show ?thesis by (subst parse_str.simps) simp
qed

lemma parse_str_plain:
  "c \<noteq> CHR 0x22 \<Longrightarrow> c \<noteq> CHR 0x5C \<Longrightarrow> \<not> (of_char c :: nat) < 0x20 \<Longrightarrow>
   parse_str (c # s) = map_option (\<lambda>(x, rest). (c # x, rest)) (parse_str s)"
  by (subst parse_str.simps) simp

lemma parse_str_simple:
  "e \<noteq> CHR ''u'' \<Longrightarrow> simple_escape e = Some d \<Longrightarrow>
   parse_str (CHR 0x5C # e # s) = map_option (\<lambda>(x, rest). (d # x, rest)) (parse_str s)"
  by (subst parse_str.simps) simp

lemma parse_str_quote: "parse_str (CHR 0x22 # s) = Some ([], s)"
  by (subst parse_str.simps) simp

lemma utf8_ascii: "(of_char c :: nat) < 128 \<Longrightarrow> utf8 (of_char c) = [c]"
  by (simp add: utf8_def)

lemma parse_escape_char:
  "parse_str (escape_char c @ s) = map_option (\<lambda>(x, rest). (c # x, rest)) (parse_str s)"
proof -
  note pss = parse_str_simple escape_char_def simple_escape_def
  have "?thesis" if "c = CHR 0x22" unfolding that by (simp add: pss)
  moreover have "?thesis" if "c = CHR 0x5C" unfolding that by (simp add: pss)
  moreover have "?thesis" if "c = CHR 0x08" unfolding that by (simp add: pss)
  moreover have "?thesis" if "c = CHR 0x0C" unfolding that by (simp add: pss)
  moreover have "?thesis" if "c = CHR 0x0A" unfolding that by (simp add: pss)
  moreover have "?thesis" if "c = CHR 0x0D" unfolding that by (simp add: pss)
  moreover have "?thesis" if "c = CHR 0x09" unfolding that by (simp add: pss)
  moreover have "?thesis"
    if n: "c \<noteq> CHR 0x22" "c \<noteq> CHR 0x5C" "c \<noteq> CHR 0x08" "c \<noteq> CHR 0x0C" "c \<noteq> CHR 0x0A" "c \<noteq> CHR 0x0D" "c \<noteq> CHR 0x09"
  proof (cases "(of_char c :: nat) < 0x20 \<or> c = CHR ''<'' \<or> c = CHR ''>'' \<or> c = CHR ''&''")
    case True
    then have l: "(of_char c :: nat) < 128" by (elim disjE) simp_all
    from n True have "escape_char c = unicode_escape (of_char c)"
      unfolding escape_char_def by (simp only: if_False if_True simp_thms)
    with l show ?thesis
      by (simp add: parse_str_unicode is_surrogate_def utf8_ascii)
  next
    case False
    from n False have "escape_char c = [c]"
      unfolding escape_char_def by (simp only: if_False if_True simp_thms)
    with n False show ?thesis by (simp add: parse_str_plain)
  qed
  ultimately show ?thesis by blast
qed

lemma utf8_separators: "utf8 0x2028 = [CHR 0xE2, CHR 0x80, CHR 0xA8]" "utf8 0x2029 = [CHR 0xE2, CHR 0x80, CHR 0xA9]"
  by (simp_all add: utf8_def char_of_eq_iff)

lemma parse_escape_str: "parse_str (escape_str s @ CHR 0x22 # r) = Some (s, r)"
proof (induction s rule: escape_str.induct)
  case 1
  show ?case by (simp add: parse_str_quote)
next
  case (2 c s)
  show ?case
  proof (cases "line_separator (c # s)")
    case True
    then obtain d e s' where s: "s = d # e # s'" "c = CHR 0xE2" "d = CHR 0x80" "e = CHR 0xA8 \<or> e = CHR 0xA9"
      by (cases s; cases "tl s") (auto simp: line_separator_def)
    with True 2 show ?thesis
      by (auto simp: parse_str_unicode is_surrogate_def utf8_separators)
  next
    case False
    with 2 show ?thesis by (simp add: parse_escape_char)
  qed
qed

lemma parse_quote_str: "quote_str s = CHR 0x22 # t \<Longrightarrow> parse_str (t @ r) = Some (s, r)"
  by (auto simp: quote_str_def parse_escape_str)

lemma delimited_not_digit: "delimited r \<Longrightarrow> r = [] \<or> \<not> is_digit (hd r)"
  by (auto simp: delimited_def is_digit_def)

lemma itoa_nat_span:
  assumes "delimited r"
  shows "takeWhile is_digit (itoa_nat k @ r) = itoa_nat k" "dropWhile is_digit (itoa_nat k @ r) = r"
proof -
  have "\<forall>c \<in> set (itoa_nat k). is_digit c" using itoa_nat_digits by (simp add: list_all_iff)
  then show "takeWhile is_digit (itoa_nat k @ r) = itoa_nat k" "dropWhile is_digit (itoa_nat k @ r) = r"
    using delimited_not_digit [OF assms] by (cases r; simp add: takeWhile_append2)+
qed

lemma digit_char_zero: "d < 10 \<Longrightarrow> digit_char d = CHR ''0'' \<Longrightarrow> d = 0"
  by (simp add: digit_char_def char_of_eq_iff take_bit_eq_mod)

lemma itoa_nat_hd_nonzero: "k > 0 \<Longrightarrow> hd (itoa_nat k) \<noteq> CHR ''0''"
proof (induction k rule: itoa_nat.induct)
  case (1 k)
  show ?case
  proof (cases "k < 10")
    case True
    with "1.prems" show ?thesis by (subst itoa_nat.simps) (auto dest: digit_char_zero)
  next
    case False
    then have "hd (itoa_nat (k div 10)) \<noteq> CHR ''0''" by (intro "1.IH") auto
    with False show ?thesis by (subst itoa_nat.simps) (simp add: itoa_nat_nonempty)
  qed
qed

lemma itoa_nat_no_leading_zero: "\<not> (hd (itoa_nat k) = CHR ''0'' \<and> length (itoa_nat k) > 1)"
proof (cases "k = 0")
  case True
  then show ?thesis by (simp add: itoa_nat.simps)
next
  case False
  then show ?thesis using itoa_nat_hd_nonzero by simp
qed

lemma parse_tails_delimited:
  "delimited r \<Longrightarrow> parse_frac r = Some ([], r)" "delimited r \<Longrightarrow> parse_exp r = Some ([], r)"
  by (cases r; auto simp: delimited_def parse_frac_def parse_exp_def)+

lemma parse_num_itoa_nat:
  assumes "delimited r"
  shows "parse_num (itoa_nat k @ r) = Some (itoa_nat k, r)"
    and "parse_num (CHR ''-'' # itoa_nat k @ r) = Some (CHR ''-'' # itoa_nat k, r)"
proof -
  obtain c s where k: "itoa_nat k = c # s" "is_digit c"
    using itoa_nat_hd_digit [of k] itoa_nat_nonempty [of k] by (cases "itoa_nat k") auto
  then have c: "c \<noteq> CHR ''-''" by (auto simp: is_digit_def)
  note f = itoa_nat_span [OF assms, of k] itoa_nat_no_leading_zero [of k]
    parse_tails_delimited [OF assms] itoa_nat_nonempty [of k]
  show "parse_num (itoa_nat k @ r) = Some (itoa_nat k, r)"
    using k(1) c f by (auto simp: parse_num_def Let_def)
  show "parse_num (CHR ''-'' # itoa_nat k @ r) = Some (CHR ''-'' # itoa_nat k, r)"
    using f by (auto simp: parse_num_def Let_def)
qed

lemma itoa_literal: "num_literal (Itoa n)"
  by (auto simp: num_literal_def Itoa_def parse_num_itoa_nat itoa_nat_nonempty itoa_nat_hd_digit)

lemma delimited_simps [simp]:
  "delimited []" "delimited (CHR '','' # r)" "delimited (CHR '']'' # r)" "delimited (CHR ''}'' # r)"
  by (simp_all add: delimited_def)

lemma skip_ws_delimited: "delimited r \<Longrightarrow> skip_ws r = r"
  by (cases r) (auto simp: delimited_def skip_ws_def json_ws_def)

lemma num_hd:
  assumes "is_digit c \<or> c = CHR ''-''"
  shows "c \<noteq> CHR 0x22" "c \<noteq> CHR ''[''" "c \<noteq> CHR ''{''" "c \<noteq> CHR ''n''" "c \<noteq> CHR ''t''" "c \<noteq> CHR ''f''" "\<not> json_ws c"
  "c \<noteq> CHR '']''"
  using assms by (auto simp: is_digit_def json_ws_def)

lemma json_print_nonempty: "printable v \<Longrightarrow> json_print v \<noteq> []"
  by (cases v) (auto simp: num_literal_def quote_str_def)

lemma json_print_hd: 
  assumes "printable v"
  shows "\<not> json_ws (hd (json_print v)) \<and> hd (json_print v) \<noteq> CHR '']''"
proof (cases v)
  case (JNum l)
  with assms show ?thesis using num_hd [of "hd l"] by (auto simp: num_literal_def)
qed (auto simp: json_ws_def quote_str_def)

lemma skip_ws_print: "printable v \<Longrightarrow> skip_ws (json_print v @ r) = json_print v @ r"
  using json_print_nonempty [of v] json_print_hd [of v] by (cases "json_print v") (auto simp: skip_ws_def)

lemma parse_value_num:
  assumes "num_literal l" "delimited r"
  shows "parse_value (Suc n) (l @ r) = Some (JNum l, r)"
proof -
  from assms(1) obtain c t where l: "l = c # t" "is_digit c \<or> c = CHR ''-''"
    by (cases l) (auto simp: num_literal_def)
  from assms have "parse_num (l @ r) = Some (l, r)" by (simp add: num_literal_def)
  with l num_hd [OF l(2)] show ?thesis by simp
qed

lemma parse_elems_print:
  "vs \<noteq> [] \<Longrightarrow> \<forall>v \<in> set vs. printable v \<and> parses_back v \<Longrightarrow>
   sum_list (map (\<lambda>v. Suc (json_size v)) vs) \<le> fuel \<Longrightarrow>
   parse_elems fuel (join_with '','' (map json_print vs) @ CHR '']'' # r) = Some (vs, r)"
proof (induction vs arbitrary: fuel)
  case Nil
  then show ?case by simp
next
  case (Cons v vs)
  then obtain n where fuel: "fuel = Suc n" by (cases fuel) auto
  show ?case
  proof (cases vs)
    case Nil
    with Cons fuel have "parse_value n (json_print v @ CHR '']'' # r) = Some (v, CHR '']'' # r)"
      by (simp add: parses_back_def)
    with Nil fuel show ?thesis by (simp add: skip_ws_delimited)
  next
    case (Cons w ws)
    let ?rest = "join_with '','' (map json_print vs) @ CHR '']'' # r"
    from Cons.prems fuel have "parse_value n (json_print v @ CHR '','' # ?rest) = Some (v, CHR '','' # ?rest)"
      by (simp add: parses_back_def)
    moreover have "skip_ws ?rest = ?rest"
      using Cons Cons.prems skip_ws_print [of w] by (cases ws) auto
    moreover have "parse_elems n ?rest = Some (vs, r)"
      using Cons Cons.prems fuel by (intro Cons.IH) auto
    ultimately show ?thesis using fuel Cons by (simp add: skip_ws_delimited)
  qed
qed

lemma quote_str_eq: "quote_str k @ r = CHR 0x22 # escape_str k @ CHR 0x22 # r"
  by (simp add: quote_str_def)

lemma skip_ws_quote: "skip_ws (CHR 0x22 # s) = CHR 0x22 # s" "skip_ws (CHR '':'' # s) = CHR '':'' # s"
  by (simp_all add: skip_ws_def json_ws_def)

lemma parse_members_print:
  "kvs \<noteq> [] \<Longrightarrow> \<forall>kv \<in> set kvs. printable (snd kv) \<and> parses_back (snd kv) \<Longrightarrow>
   sum_list (map (\<lambda>kv. Suc (json_size (snd kv))) kvs) \<le> fuel \<Longrightarrow>
   parse_members fuel (join_with '','' (map print_member kvs) @ CHR ''}'' # r) = Some (kvs, r)"
proof (induction kvs arbitrary: fuel)
  case Nil
  then show ?case by simp
next
  case (Cons kv kvs)
  obtain k v where kv: "kv = (k, v)" by (cases kv)
  from Cons obtain n where fuel: "fuel = Suc n" by (cases fuel) auto
  show ?case
  proof (cases kvs)
    case Nil
    with Cons fuel kv have "parse_value n (json_print v @ CHR ''}'' # r) = Some (v, CHR ''}'' # r)"
      by (simp add: parses_back_def)
    with Nil fuel kv Cons.prems show ?thesis
      by (simp add: skip_ws_delimited quote_str_eq parse_escape_str skip_ws_quote skip_ws_print)
  next
    case (Cons kw kws)
    obtain k' w where kw: "kw = (k', w)" by (cases kw)
    let ?rest = "join_with '','' (map print_member kvs) @ CHR ''}'' # r"
    from Cons.prems fuel kv have "parse_value n (json_print v @ CHR '','' # ?rest) = Some (v, CHR '','' # ?rest)"
      by (simp add: parses_back_def)
    moreover have "skip_ws ?rest = ?rest"
      using Cons kw by (cases kws) (auto simp: quote_str_eq skip_ws_quote)
    moreover have "parse_members n ?rest = Some (kvs, r)"
      using Cons Cons.prems fuel by (intro Cons.IH) auto
    ultimately show ?thesis using fuel kv Cons Cons.prems
      by (simp add: skip_ws_delimited quote_str_eq parse_escape_str skip_ws_quote skip_ws_print)
  qed
qed

lemma json_size_pos: "0 < json_size v"
  by (cases v) auto

lemma parses_backI:
  assumes "\<And>n r. json_size v \<le> Suc n \<Longrightarrow> delimited r \<Longrightarrow>
    parse_value (Suc n) (json_print v @ r) = Some (v, r)"
  shows "parses_back v"
  unfolding parses_back_def
proof (intro allI impI)
  fix fuel r assume "json_size v \<le> fuel" "delimited r"
  then show "parse_value fuel (json_print v @ r) = Some (v, r)"
    using assms json_size_pos [of v] by (cases fuel) auto
qed

lemma parses_back_arr:
  assumes "\<forall>v \<in> set vs. printable v \<and> parses_back v"
  shows "parses_back (JArr vs)"
proof (rule parses_backI)
  fix n r assume f: "json_size (JArr vs) \<le> Suc n"
  show "parse_value (Suc n) (json_print (JArr vs) @ r) = Some (JArr vs, r)"
  proof (cases vs)
    case Nil
    then show ?thesis by (simp add: skip_ws_def json_ws_def)
  next
    case (Cons w ws)
    let ?s = "join_with '','' (map json_print vs) @ CHR '']'' # r"
    have "parse_elems n ?s = Some (vs, r)"
      using f Cons assms by (intro parse_elems_print) auto
    moreover obtain c t where ct: "json_print w = c # t" "\<not> json_ws c" "c \<noteq> CHR '']''"
      using assms Cons json_print_nonempty [of w] json_print_hd [of w] by (cases "json_print w") auto
    then obtain t' where "?s = c # t'"
      using Cons by (cases ws) auto
    moreover from this ct have "skip_ws ?s = ?s" by (simp add: skip_ws_def)
    ultimately show ?thesis using ct by (simp add: Let_def)
  qed
qed

lemma parses_back_obj:
  assumes "\<forall>kv \<in> set kvs. printable (snd kv) \<and> parses_back (snd kv)"
  shows "parses_back (JObj kvs)"
proof (rule parses_backI)
  fix n r assume f: "json_size (JObj kvs) \<le> Suc n"
  show "parse_value (Suc n) (json_print (JObj kvs) @ r) = Some (JObj kvs, r)"
  proof (cases kvs)
    case Nil
    then show ?thesis by (simp add: skip_ws_def json_ws_def)
  next
    case (Cons kw kws)
    let ?s = "join_with '','' (map print_member kvs) @ CHR ''}'' # r"
    have "parse_members n ?s = Some (kvs, r)"
      using f Cons assms by (intro parse_members_print) auto
    moreover obtain t' where "?s = CHR 0x22 # t'"
      using Cons by (cases kws; cases kw) (auto simp: quote_str_eq)
    moreover from this have "skip_ws ?s = ?s" by (simp add: skip_ws_quote)
    ultimately show ?thesis by (simp add: Let_def)
  qed
qed

lemma parse_print: "printable v \<Longrightarrow> parses_back v"
proof (induction v)
  case (JArr vs)
  then show ?case by (intro parses_back_arr) (auto simp: list_all_iff)
next
  case (JObj kvs)
  then show ?case by (intro parses_back_obj) (auto simp: list_all_iff)
next
  case (JStr s)
  show ?case by (rule parses_backI) (simp add: quote_str_eq parse_escape_str)
next
  case (JNum l)
  then show ?case using parse_value_num [of l] by (intro parses_backI) simp
qed (rule parses_backI, simp)+

lemma sum_list_join:
  "xs \<noteq> [] \<Longrightarrow> (\<And>x. x \<in> set xs \<Longrightarrow> size_f x \<le> 2 * length (pr x)) \<Longrightarrow>
   sum_list (map (\<lambda>x. Suc (size_f x)) xs) \<le> 2 * length (join_with [c] (map pr xs)) + 1"
proof (induction xs)
  case Nil
  then show ?case by simp
next
  case (Cons x xs)
  then show ?case by (cases xs) fastforce+
qed

lemma json_size_length: "printable v \<Longrightarrow> json_size v \<le> 2 * length (json_print v)"
proof (induction v)
  case (JArr vs)
  then have "vs \<noteq> [] \<Longrightarrow> sum_list (map (\<lambda>v. Suc (json_size v)) vs) \<le> 2 * length (join_with '','' (map json_print vs)) + 1"
    by (intro sum_list_join) (auto simp: list_all_iff)
  then show ?case by (cases vs) auto
next
  case (JObj kvs)
  have "json_size (snd kv) \<le> 2 * length (print_member kv)" if "kv \<in> set kvs" for kv
    using JObj that by (cases kv) (fastforce simp: list_all_iff)
  then have "kvs \<noteq> [] \<Longrightarrow> sum_list (map (\<lambda>kv. Suc (json_size (snd kv))) kvs) \<le> 2 * length (join_with '','' (map print_member kvs)) + 1"
    by (intro sum_list_join) auto
  then show ?case by (cases kvs) auto
next
  case (JNum l)
  then show ?case by (cases l) (auto simp: num_literal_def)
qed (auto simp: quote_str_def)

text \<open>Printing and reading back a tree.\<close>

lemma json_parse_print:
  assumes "printable v"
  shows "json_parse (json_print v) = Some v"
proof -
  have "skip_ws (json_print v) = json_print v" using skip_ws_print [OF assms, of "[]"] by simp
  moreover have "json_size v \<le> json_fuel (json_print v)"
    using json_size_length [OF assms] unfolding json_fuel_def by linarith
  then have "parse_value (json_fuel (json_print v)) (json_print v @ []) = Some (v, [])"
    using parse_print [OF assms] unfolding parses_back_def delimited_def by blast
  moreover have "skip_ws [] = []" by (simp add: skip_ws_def)
  ultimately show ?thesis unfolding json_parse_def by (simp del: parse_value.simps)
qed

end
