(* ===== verification/Go_Values.thy ===== *)
theory Go_Values
  imports Encoding
begin

text \<open>
  Go's dynamic values as the list-query packages pass them (\<^verbatim>\<open>any\<close>), and the float64
  numbers \<^verbatim>\<open>encoding/json\<close> decodes: a float64 is its bit pattern, a decimal literal is
  rounded to the nearest one (ties to even), and the conversion \<^verbatim>\<open>int64(f)\<close> truncates.

  A time is its instant, in nanoseconds since the Unix epoch, with the zone offset it was
  read in; comparisons use the instant only.  Some functions of the standard library are
  arguments of the definitions that use them, bundled in the record \<open>golib\<close>: reading an
  RFC 3339 text, printing a float64 and a time with \<^verbatim>\<open>%v\<close> and in JSON
  (\<open>None\<close> where \<^verbatim>\<open>json.Marshal\<close> refuses: NaN, an infinity, a year past 9999), Unicode lower casing, and the
  hash of \<^verbatim>\<open>crypto/sha256\<close>.  No lemma assumes anything of them unless it says so.
\<close>

section \<open>Values\<close>

datatype goval =
    VNil
  | VStr string
  | VBool bool
  | VInt int
  | VFloat "64 word"
  | VTime int int
  | VList "goval list"
  | VMap "(string \<times> goval) list"

record golib =
  parse_time :: "string \<Rightarrow> (int \<times> int) option"
  float_text :: "64 word \<Rightarrow> string"
  time_text :: "int \<Rightarrow> int \<Rightarrow> string"
  json_float :: "64 word \<Rightarrow> string option"
  json_time :: "int \<Rightarrow> int \<Rightarrow> string option"
  to_lower :: "string \<Rightarrow> string"
  sha256 :: "string \<Rightarrow> string"

definition bool_text :: "bool \<Rightarrow> string" where
  "bool_text b = (if b then ''true'' else ''false'')"

text \<open>\<^verbatim>\<open>fmt.Sprint\<close> of one value.\<close>

fun sprint :: "golib \<Rightarrow> goval \<Rightarrow> string" where
  "sprint L VNil = ''<nil>''"
| "sprint L (VStr s) = s"
| "sprint L (VBool b) = bool_text b"
| "sprint L (VInt n) = Itoa n"
| "sprint L (VFloat w) = float_text L w"
| "sprint L (VTime t z) = time_text L t z"
| "sprint L (VList vs) = ''['' @ join_with '' '' (map (sprint L) vs) @ '']''"
| "sprint L (VMap kvs) =
     ''map['' @ join_with '' '' (map (\<lambda>(k, t). k @ '':'' @ t)
       (sort_key fst (map (\<lambda>(k, v). (k, sprint L v)) kvs))) @ '']''"

text \<open>\<^verbatim>\<open>t.UnixMicro()\<close> and \<^verbatim>\<open>time.UnixMicro(n).UTC()\<close>.\<close>

definition UnixMicro :: "int \<Rightarrow> int" where
  "UnixMicro t = t div 1000"

definition fromUnixMicro :: "int \<Rightarrow> goval" where
  "fromUnixMicro n = VTime (n * 1000) 0"

section \<open>Float64 numbers\<close>

fun bitlen :: "nat \<Rightarrow> nat" where
  "bitlen n = (if n = 0 then 0 else Suc (bitlen (n div 2)))"

declare bitlen.simps [simp del]

text \<open>
  The bits of the float64 nearest to \<open>n / d\<close>.  The exponent of the leading bit is the
  difference of the bit lengths or one less; the significand is the quotient scaled to 53
  bits (fewer below the normal range), rounded half to even.  A result past the largest
  finite number is a range error.
\<close>

definition round_bits :: "nat \<Rightarrow> nat \<Rightarrow> nat option" where
  "round_bits n d =
     (if n = 0 then Some 0
      else
        let k = int (bitlen n) - int (bitlen d);
            e0 = (if n * 2 ^ nat (- k) \<ge> d * 2 ^ nat k then k else k - 1);
            e = max (e0 - 52) (- 1074);
            n' = n * 2 ^ nat (- e);
            d' = d * 2 ^ nat e;
            q = n' div d';
            r = n' mod d';
            m = (if 2 * r > d' \<or> (2 * r = d' \<and> odd q) then q + 1 else q);
            bits = nat (e + 1074) * 2 ^ 52 + m
        in if bits \<ge> 2047 * 2 ^ 52 then None else Some bits)"

text \<open>Sign, digits and decimal exponent of a JSON number literal.\<close>

definition literal_exponent :: "string \<Rightarrow> int" where
  "literal_exponent r =
     (case r of
        [] \<Rightarrow> 0
      | c # t \<Rightarrow>
          (case t of
             [] \<Rightarrow> 0
           | s # u \<Rightarrow>
               if s = CHR ''-'' then - int (digits_val u)
               else if s = CHR ''+'' then int (digits_val u)
               else int (digits_val t)))"

definition literal_parts :: "string \<Rightarrow> bool \<times> nat \<times> int" where
  "literal_parts l =
     (let neg = (l \<noteq> [] \<and> hd l = CHR ''-'');
          s = (if neg then tl l else l);
          ip = takeWhile is_digit s;
          r = dropWhile is_digit s;
          fp = (case r of c # t \<Rightarrow> if c = CHR ''.'' then takeWhile is_digit t else [] | [] \<Rightarrow> []);
          r' = (case r of c # t \<Rightarrow> if c = CHR ''.'' then dropWhile is_digit t else r | [] \<Rightarrow> [])
      in (neg, digits_val (ip @ fp), literal_exponent r' - int (length fp)))"

text \<open>\<^verbatim>\<open>strconv.ParseFloat(l, 64)\<close> on a JSON number literal; \<open>None\<close> is the range error.\<close>

definition ParseFloat :: "string \<Rightarrow> (64 word) option" where
  "ParseFloat l =
     (let (neg, m, x) = literal_parts l in
      map_option (\<lambda>b. word_of_nat (if neg then 2 ^ 63 + b else b))
        (round_bits (m * 10 ^ nat x) (10 ^ nat (- x))))"

text \<open>
  \<^verbatim>\<open>int64(f)\<close>: the integer part when it fits; for any other value Go leaves the result to
  the machine, and amd64 gives the least int64.
\<close>

definition float_to_int64 :: "64 word \<Rightarrow> int" where
  "float_to_int64 w =
     (let neg = (unat w \<ge> 2 ^ 63);
          b = unat w mod 2 ^ 63;
          x = b div 2 ^ 52;
          m = (if x = 0 then b else b mod 2 ^ 52 + 2 ^ 52);
          e = (if x = 0 then - 1074 else int x - 1075);
          mag = int (m * 2 ^ nat e div 2 ^ nat (- e));
          n = (if neg then - mag else mag)
      in if MinInt64 \<le> n \<and> n \<le> MaxInt64 then n else MinInt64)"

section \<open>Go values in JSON\<close>

text \<open>\<^verbatim>\<open>json.Unmarshal\<close> into a variable of type \<^verbatim>\<open>any\<close>: every number is a float64.\<close>

fun unmarshal_any :: "json \<Rightarrow> goval option" where
  "unmarshal_any JNull = Some VNil"
| "unmarshal_any (JBool b) = Some (VBool b)"
| "unmarshal_any (JStr s) = Some (VStr s)"
| "unmarshal_any (JNum l) = map_option VFloat (ParseFloat l)"
| "unmarshal_any (JArr vs) = map_option VList (all_some (map unmarshal_any vs))"
| "unmarshal_any (JObj kvs) =
     map_option (\<lambda>vs. VMap (last_wins (zip (map fst kvs) vs)))
       (all_some (map (\<lambda>(k, v). unmarshal_any v) kvs))"

text \<open>\<^verbatim>\<open>json.Marshal\<close> of a value; a map is written in the order of its keys.\<close>

fun marshal_any :: "golib \<Rightarrow> goval \<Rightarrow> json option" where
  "marshal_any L VNil = Some JNull"
| "marshal_any L (VStr s) = Some (JStr s)"
| "marshal_any L (VBool b) = Some (JBool b)"
| "marshal_any L (VInt n) = Some (JNum (Itoa n))"
| "marshal_any L (VFloat w) = map_option JNum (json_float L w)"
| "marshal_any L (VTime t z) = map_option JStr (json_time L t z)"
| "marshal_any L (VList vs) = map_option JArr (all_some (map (marshal_any L) vs))"
| "marshal_any L (VMap kvs) =
     map_option (\<lambda>js. JObj (sort_key fst (zip (map fst kvs) js)))
       (all_some (map (\<lambda>(k, v). marshal_any L v) kvs))"

text \<open>A trivial instance of the parameters, for concrete runs.\<close>

definition demo_lib :: golib where
  "demo_lib = \<lparr>parse_time = (\<lambda>s. None), float_text = (\<lambda>w. []), time_text = (\<lambda>t z. []),
     json_float = (\<lambda>w. None), json_time = (\<lambda>t z. None), to_lower = (\<lambda>s. s), sha256 = (\<lambda>s. s)\<rparr>"

section \<open>Lemmas\<close>

lemma bitlen_1: "bitlen (Suc 0) = 1"
  by (simp add: bitlen.simps [of "Suc 0"] bitlen.simps [of 0])

lemma bitlen_bounds: "0 < n \<Longrightarrow> 2 ^ (bitlen n - 1) \<le> n \<and> n < 2 ^ bitlen n \<and> 0 < bitlen n"
proof (induction n rule: bitlen.induct)
  case (1 n)
  show ?case
  proof (cases "n div 2 = 0")
    case True
    with 1(2) have "n = 1" by (simp add: div_eq_0_iff)
    then show ?thesis by (simp add: bitlen_1)
  next
    case False
    with 1 have IH: "2 ^ (bitlen (n div 2) - 1) \<le> n div 2" "n div 2 < 2 ^ bitlen (n div 2)"
      "0 < bitlen (n div 2)" by auto
    have b: "bitlen n = Suc (bitlen (n div 2))" using 1(2) by (subst bitlen.simps) simp
    obtain j where j: "bitlen (n div 2) = Suc j" using IH(3) by (cases "bitlen (n div 2)") auto
    have "2 ^ j \<le> n div 2" "n div 2 < 2 * 2 ^ j" using IH j by simp_all
    then have "2 * 2 ^ j \<le> n" "n < 4 * 2 ^ j" by linarith+
    then show ?thesis unfolding b j by simp
  qed
qed

lemma round_bits_int:
  assumes "0 < n" "n < 2 ^ 53"
  obtains k where "k \<le> 52" "2 ^ 52 \<le> n * 2 ^ (52 - k)" "n * 2 ^ (52 - k) < 2 ^ 53"
    "round_bits n 1 = Some ((k + 1022) * 2 ^ 52 + n * 2 ^ (52 - k))"
proof -
  define k where "k = bitlen n - 1"
  have lo: "2 ^ k \<le> n" and hi: "n < 2 ^ Suc k" and b: "bitlen n = Suc k"
    using bitlen_bounds [OF assms(1)] by (auto simp: k_def)
  have "(2::nat) ^ k < 2 ^ 53" using lo assms(2) by linarith
  then have k: "k \<le> 52" using power_less_imp_less_exp [of "2::nat" k 53] by linarith
  have p: "(2::nat) ^ 52 = 2 ^ k * 2 ^ (52 - k)" "(2::nat) ^ 53 = 2 ^ Suc k * 2 ^ (52 - k)"
    using k by (simp_all add: power_add [symmetric] del: power_Suc)
  have m1: "2 ^ 52 \<le> n * 2 ^ (52 - k)" unfolding p(1) using lo by (intro mult_le_mono1)
  have m2: "n * 2 ^ (52 - k) < 2 ^ 53" unfolding p(2) using hi by (intro mult_less_mono1) simp_all
  have e: "nat (- (int k - 52)) = 52 - k" "nat (int k - 52) = 0" "nat (int k - 52 + 1074) = k + 1022"
    "max (int k - 52) (- 1074) = int k - 52"
    using k by simp_all
  have "\<not> 2047 * 2 ^ 52 \<le> (k + 1022) * 2 ^ 52 + n * 2 ^ (52 - k)"
  proof -
    have "(k + 1022) * 2 ^ 52 \<le> (1074 * 2 ^ 52 :: nat)" using k by (intro mult_le_mono1) simp
    then show ?thesis using m2 by simp
  qed
  then have "round_bits n 1 = Some ((k + 1022) * 2 ^ 52 + n * 2 ^ (52 - k))"
    using assms(1) lo e unfolding round_bits_def by (simp add: b bitlen_1 Let_def)
  with k m1 m2 that show ?thesis by blast
qed

lemma float_value_int:
  assumes "k \<le> 52" "2 ^ 52 \<le> n * 2 ^ (52 - k)" "n * 2 ^ (52 - k) < (2 ^ 53 :: nat)" "s \<le> 1"
  shows "float_to_int64 (word_of_nat (s * 2 ^ 63 + ((k + 1022) * 2 ^ 52 + n * 2 ^ (52 - k)))) =
    (if s = 0 then int n else - int n)"
proof -
  define m where "m = n * 2 ^ (52 - k)"
  define b where "b = (k + 1022) * 2 ^ 52 + m"
  have m: "2 ^ 52 \<le> m" "m < 2 ^ 53" using assms by (simp_all add: m_def)
  have "(k + 1022) * 2 ^ 52 \<le> (1074 * 2 ^ 52 :: nat)" using assms(1) by (intro mult_le_mono1) simp
  then have b63: "b < 2 ^ 63" using m by (simp add: b_def)
  have u: "unat (word_of_nat (s * 2 ^ 63 + b) :: 64 word) = s * 2 ^ 63 + b"
  proof -
    have "s * 2 ^ 63 + b < 2 ^ 64" using b63 assms(4) by simp
    then show ?thesis unfolding unat_of_nat by (intro mod_less) simp
  qed
  have ge: "(2 ^ 63 \<le> s * 2 ^ 63 + b) = (s \<noteq> 0)" using b63 assms(4) by (cases "s = 0") auto
  have md: "(s * 2 ^ 63 + b) mod 2 ^ 63 = b" using b63 by simp
  have b': "b = (k + 1023) * 2 ^ 52 + (m - 2 ^ 52)" using m by (simp add: b_def algebra_simps)
  have l: "m - 2 ^ 52 < 2 ^ 52" using m by simp
  have d: "b div 2 ^ 52 = k + 1023" "b mod 2 ^ 52 + 2 ^ 52 = m"
    unfolding b' div_mult_self3 mod_mult_self3 using l m by (simp_all only: div_mult_self3 mod_mult_self3 mod_less, simp_all)
  have "n \<le> n * 2 ^ (52 - k)" by simp
  then have n: "n < 2 ^ 53" using assms(3) by linarith
  have "nat (int (k + 1023) - 1075) = 0" "nat (- (int (k + 1023) - 1075)) = 52 - k"
    using assms(1) by auto
  then have mag: "m * 2 ^ nat (int (k + 1023) - 1075) div 2 ^ nat (- (int (k + 1023) - 1075)) = n"
    by (simp add: m_def)
  show ?thesis
    unfolding m_def [symmetric] b_def [symmetric] float_to_int64_def u ge md d Let_def
    using mag n by (auto simp: MinInt64_def MaxInt64_def)
qed

lemma literal_parts_Itoa: "literal_parts (Itoa n) = (n < 0, nat \<bar>n\<bar>, 0)"
proof -
  have tw: "takeWhile is_digit (itoa_nat m) = itoa_nat m" "dropWhile is_digit (itoa_nat m) = []" for m
    using itoa_nat_digits [of m] by (auto simp: list_all_iff takeWhile_eq_all_conv)
  have "hd (itoa_nat m) \<noteq> CHR ''-''" for m
    using itoa_nat_hd_digit [of m] by (auto simp: is_digit_def)
  then show ?thesis
    by (simp add: literal_parts_def Itoa_def tw digits_val_itoa literal_exponent_def Let_def)
qed

text \<open>An integer below \<open>2 ^ 53\<close> survives the trip through a JSON number decoded as float64.\<close>

lemma float_int_exact:
  assumes "\<bar>n\<bar> < 2 ^ 53"
  obtains w where "ParseFloat (Itoa n) = Some w" "float_to_int64 w = n"
proof (cases "n = 0")
  case True
  have "ParseFloat (Itoa 0) = Some 0" "float_to_int64 0 = 0"
    by (simp_all add: ParseFloat_def literal_parts_Itoa round_bits_def float_to_int64_def
      MinInt64_def MaxInt64_def Let_def)
  with True that show ?thesis by blast
next
  case False
  then have "0 < nat \<bar>n\<bar>" "nat \<bar>n\<bar> < 2 ^ 53" using assms by (simp_all add: nat_less_iff)
  then obtain k where k: "k \<le> 52" "2 ^ 52 \<le> nat \<bar>n\<bar> * 2 ^ (52 - k)" "nat \<bar>n\<bar> * 2 ^ (52 - k) < 2 ^ 53"
    "round_bits (nat \<bar>n\<bar>) 1 = Some ((k + 1022) * 2 ^ 52 + nat \<bar>n\<bar> * 2 ^ (52 - k))"
    by (rule round_bits_int)
  let ?s = "if n < 0 then 1 else 0 :: nat"
  let ?b = "(k + 1022) * 2 ^ 52 + nat \<bar>n\<bar> * 2 ^ (52 - k)"
  have "ParseFloat (Itoa n) = Some (word_of_nat (?s * 2 ^ 63 + ?b))"
    unfolding ParseFloat_def literal_parts_Itoa using k(4) by simp
  moreover have "float_to_int64 (word_of_nat (?s * 2 ^ 63 + ?b)) = n"
    by (subst float_value_int [OF k(1-3)]) auto
  ultimately show ?thesis by (rule that)
qed

end
