(* ===== verification/Query_Types.thy ===== *)
theory Query_Types
  imports Go_Values
begin

text \<open>
  Package \<^verbatim>\<open>core/types\<close>, the list-query vocabulary: filters, sort directives, the resolved
  query handed to a datastore, pages and page tokens, and the fingerprint that binds a
  keyset cursor to the sort and filter it was minted under.

  The sealed union \<^verbatim>\<open>Filter\<close> is the datatype \<open>Filter\<close>; a nil interface value is its
  constructor \<open>NilFilter\<close>.  A nil pointer is \<open>None\<close>.
\<close>

section \<open>Operators, joins and derived sorts\<close>

datatype FilterOperator =
    OpEq | OpNe | OpIn | OpNotIn | OpLike | OpGt | OpGte | OpLt | OpLte | OpOther string

fun op_text :: "FilterOperator \<Rightarrow> string" where
  "op_text OpEq = ''eq''"
| "op_text OpNe = ''ne''"
| "op_text OpIn = ''in''"
| "op_text OpNotIn = ''not_in''"
| "op_text OpLike = ''like''"
| "op_text OpGt = ''gt''"
| "op_text OpGte = ''gte''"
| "op_text OpLt = ''lt''"
| "op_text OpLte = ''lte''"
| "op_text (OpOther s) = s"

record JoinTarget =
  Table :: string
  LocalKey :: string
  TargetKey :: string
  Columns :: "string list"
  CaseInsensitive :: bool
  TargetSoftDeletes :: bool

record AggregateSpec =
  AggTable :: string
  AggLocalKey :: string
  AggTargetKey :: string
  AggFunc :: string
  AggColumn :: string
  AggSoftDeletes :: bool

record IntervalCase =
  CaseValue :: string
  Seconds :: int

record IntervalSpec =
  BaseColumn :: string
  DiscriminatorColumn :: string
  Cases :: "IntervalCase list"

record DerivedSort =
  Aggregate_of :: "AggregateSpec option"
  Interval_of :: "IntervalSpec option"

section \<open>Aggregates (vizspec.go)\<close>

datatype Aggregate =
    AggNone | AggSum | AggAvg | AggMin | AggMax | AggCount | AggCountDistinct
  | AggP50 | AggP95 | AggP99 | AggOther string

fun agg_text :: "Aggregate \<Rightarrow> string" where
  "agg_text AggNone = []"
| "agg_text AggSum = ''sum''"
| "agg_text AggAvg = ''avg''"
| "agg_text AggMin = ''min''"
| "agg_text AggMax = ''max''"
| "agg_text AggCount = ''count''"
| "agg_text AggCountDistinct = ''count_distinct''"
| "agg_text AggP50 = ''p50''"
| "agg_text AggP95 = ''p95''"
| "agg_text AggP99 = ''p99''"
| "agg_text (AggOther s) = s"

section \<open>Filters, sorts, queries and pages\<close>

datatype Filter =
    NilFilter
  | FilterClause (FieldOf: string) (OperatorOf: FilterOperator) (ValueOf: goval)
      (JoinOf: "JoinTarget option")
  | CompositeFilter (AndOf: "Filter list") (OrOf: "Filter list")

text \<open>The test \<^verbatim>\<open>f == nil || f.IsEmpty()\<close> every consumer makes.\<close>

fun IsEmpty :: "Filter \<Rightarrow> bool" where
  "IsEmpty NilFilter = True"
| "IsEmpty (FilterClause field op v j) = (field = [])"
| "IsEmpty (CompositeFilter as os) = (as = [] \<and> os = [])"

record OrderField =
  SortField :: string
  SortJoin :: "JoinTarget option"
  SortDerived :: "DerivedSort option"
  SortOrdinal :: "string list"
  SortDesc :: bool

record ListSpec =
  Filters :: "Filter list"
  Order :: "OrderField list"
  Limit :: int
  Offset :: int

record KeysetCursor =
  SortValues :: "goval list"
  CursorID :: string
  CursorFingerprint :: string

record PageToken =
  TokKeyset :: "KeysetCursor option"
  TokOffsetPage :: int

record 'd Page =
  NextCursor :: string
  Items :: "'d list"
  Total :: int
  PageSize :: int
  PageNumber :: int
  TotalIsEstimate :: bool

record PageRequest =
  Cursor :: string
  ReqPageSize :: int
  ReqPageNumber :: int

definition HasMore :: "'d Page \<Rightarrow> bool" where
  "HasMore p = (NextCursor p \<noteq> [] \<or> int64 (PageNumber p * PageSize p) < Total p)"

section \<open>Fingerprint\<close>

text \<open>
  The parser's integers are \<^verbatim>\<open>int64\<close>, its other scalars \<^verbatim>\<open>float64\<close> and \<^verbatim>\<open>time.Time\<close>; these
  are the type names \<^verbatim>\<open>%T\<close> prints.
\<close>

fun encodeValueFingerprint :: "golib \<Rightarrow> goval \<Rightarrow> string" where
  "encodeValueFingerprint L VNil = ''nil:''"
| "encodeValueFingerprint L (VStr s) = ''str:'' @ s"
| "encodeValueFingerprint L (VBool b) = ''bool:'' @ bool_text b"
| "encodeValueFingerprint L (VList vs) =
     ''list:['' @ concat (map (\<lambda>e. encodeValueFingerprint L e @ '','') vs) @ '']''"
| "encodeValueFingerprint L (VInt n) = ''int64:'' @ Itoa n"
| "encodeValueFingerprint L (VFloat w) = ''float64:'' @ float_text L w"
| "encodeValueFingerprint L (VMap kvs) = ''map[string]interface {}:'' @ sprint L (VMap kvs)"
| "encodeValueFingerprint L (VTime t z) = ''time.Time:'' @ time_text L t z"

fun encodeFilterFingerprint :: "golib \<Rightarrow> Filter \<Rightarrow> string" where
  "encodeFilterFingerprint L NilFilter = ''()''"
| "encodeFilterFingerprint L (FilterClause field op v j) =
     (if field = [] then ''()''
      else ''clause('' @ field @ ''|'' @ op_text op @ ''|'' @ encodeValueFingerprint L v @ '')'')"
| "encodeFilterFingerprint L (CompositeFilter as os) =
     (if as = [] \<and> os = [] then ''()''
      else if as \<noteq> []
        then ''and('' @ concat (map (\<lambda>f. encodeFilterFingerprint L f @ '','') as) @ '')''
      else ''or('' @ concat (map (\<lambda>f. encodeFilterFingerprint L f @ '','') os) @ '')'')"

definition encodeSortFingerprint :: "OrderField list \<Rightarrow> string" where
  "encodeSortFingerprint sorts =
     concat (map (\<lambda>ofd. SortField ofd @ (if SortDesc ofd then ''|desc;'' else ''|asc;'')) sorts)"

definition fingerprint_text :: "golib \<Rightarrow> OrderField list \<Rightarrow> Filter \<Rightarrow> string" where
  "fingerprint_text L sorts f =
     ''sort:'' @ encodeSortFingerprint sorts @ ''|filter:'' @ encodeFilterFingerprint L f"

definition Fingerprint :: "golib \<Rightarrow> OrderField list \<Rightarrow> Filter \<Rightarrow> string" where
  "Fingerprint L sorts f = sha256 L (fingerprint_text L sorts f)"

end
