(* ===== verification/Listquery_Filter.thy ===== *)
theory Listquery_Filter
  imports Query_Types App_Errors
begin

text \<open>
  Package \<^verbatim>\<open>foundation/listquery\<close>, the client-facing half: the per-resource schema
  (\<^verbatim>\<open>schema.go\<close>), the filter allow-list (\<^verbatim>\<open>filter.go\<close>), the sort allow-list (\<^verbatim>\<open>order.go\<close>)
  and the parser of the JSON filter grammar (\<^verbatim>\<open>parse.go\<close>).

  A \<^verbatim>\<open>*Map\<close> is the partial function from DTO names to fields, a \<^verbatim>\<open>*Set\<close> the set of its
  sortable names.  An error that \<^verbatim>\<open>encoding/json\<close> or \<^verbatim>\<open>time\<close> returns is an opaque value
  (\<open>json_error\<close>, \<open>time_error\<close>): the code only wraps it.
\<close>

section \<open>Fields and allow-lists\<close>

datatype FieldType =
    FieldString | FieldInt | FieldFloat | FieldBool | FieldTime | FieldID | FieldOther int

fun fieldtype_text :: "FieldType \<Rightarrow> string" where
  "fieldtype_text FieldString = ''string''"
| "fieldtype_text FieldInt = ''int''"
| "fieldtype_text FieldFloat = ''float''"
| "fieldtype_text FieldBool = ''bool''"
| "fieldtype_text FieldTime = ''time''"
| "fieldtype_text FieldID = ''id''"
| "fieldtype_text (FieldOther n) = []"

datatype FieldRole = RoleDimension | RoleMeasure | RoleTime

record Field =
  Name :: string
  Column :: string
  FieldJoin :: "JoinTarget option"
  FieldOrdinal :: "string list"
  Aggregates :: "Aggregate list"
  Type :: FieldType
  Role :: FieldRole

definition mk_field :: "FieldType \<Rightarrow> string \<Rightarrow> Field" where
  "mk_field t name =
     \<lparr>Name = name, Column = name, FieldJoin = None, FieldOrdinal = [], Aggregates = [],
      Type = t, Role = RoleDimension\<rparr>"

definition String_field :: "string \<Rightarrow> Field" where "String_field = mk_field FieldString"
definition Int_field :: "string \<Rightarrow> Field" where "Int_field = mk_field FieldInt"
definition Float_field :: "string \<Rightarrow> Field" where "Float_field = mk_field FieldFloat"
definition Bool_field :: "string \<Rightarrow> Field" where "Bool_field = mk_field FieldBool"
definition Time_field :: "string \<Rightarrow> Field" where "Time_field = mk_field FieldTime"
definition ID_field :: "string \<Rightarrow> Field" where "ID_field = mk_field FieldID"

definition AsMeasure :: "Field \<Rightarrow> Aggregate list \<Rightarrow> Field" where
  "AsMeasure f aggs = f\<lparr>Role := RoleMeasure, Aggregates := aggs\<rparr>"

definition AsTime :: "Field \<Rightarrow> Field" where
  "AsTime f = f\<lparr>Role := RoleTime\<rparr>"

definition Allows :: "Field \<Rightarrow> Aggregate \<Rightarrow> bool" where
  "Allows f agg = (agg \<in> set (Aggregates f))"

definition WithColumn :: "Field \<Rightarrow> string \<Rightarrow> Field" where
  "WithColumn f column = f\<lparr>Column := column\<rparr>"

definition WithJoin :: "Field \<Rightarrow> JoinTarget \<Rightarrow> Field" where
  "WithJoin f join = f\<lparr>FieldJoin := Some join\<rparr>"

definition WithOrdinal :: "Field \<Rightarrow> string list \<Rightarrow> Field" where
  "WithOrdinal f values = f\<lparr>FieldOrdinal := values\<rparr>"

type_synonym field_map = "string \<rightharpoonup> Field"

definition NewMap :: field_map where
  "NewMap = Map.empty"

definition Add :: "field_map \<Rightarrow> Field list \<Rightarrow> field_map" where
  "Add m fs = foldl (\<lambda>m f. m(Name f \<mapsto> f)) m fs"

definition Lookup :: "field_map \<Rightarrow> string \<Rightarrow> Field option" where
  "Lookup m name = m name"

definition map_Column :: "field_map \<Rightarrow> string \<Rightarrow> string" where
  "map_Column m field = (case m field of Some f \<Rightarrow> Column f | None \<Rightarrow> field)"

definition map_Join :: "field_map \<Rightarrow> string \<Rightarrow> JoinTarget option" where
  "map_Join m field = (case m field of Some f \<Rightarrow> FieldJoin f | None \<Rightarrow> None)"

definition map_Ordinal :: "field_map \<Rightarrow> string \<Rightarrow> string list" where
  "map_Ordinal m field = (case m field of Some f \<Rightarrow> FieldOrdinal f | None \<Rightarrow> [])"

section \<open>Resource schema\<close>

definition tiebreakerCreatedAt :: string where "tiebreakerCreatedAt = ''created_at''"
definition tiebreakerID :: string where "tiebreakerID = ''id''"
definition KeysetIDColumn :: string where "KeysetIDColumn = tiebreakerID"

record ValueSource =
  Kind :: string
  EnumType :: string
  EntityRef :: string

record FieldSchema =
  SchemaValueSource :: ValueSource
  SchemaJoin :: "JoinTarget option"
  SchemaName :: string
  AccessSensitivity :: string
  SchemaColumn :: string
  IndexKind :: string
  Operators :: "string list"
  SchemaType :: FieldType
  SchemaCaseInsensitive :: bool
  Sortable :: bool
  Keysettable :: bool

record ResourceSchema =
  Resource :: string
  Fields :: "FieldSchema list"

definition schema_KeysetColumn :: "ResourceSchema \<Rightarrow> string" where
  "schema_KeysetColumn s =
     (case find Keysettable (Fields s) of Some f \<Rightarrow> SchemaColumn f | None \<Rightarrow> tiebreakerCreatedAt)"

definition TimeColumns :: "ResourceSchema \<Rightarrow> string set" where
  "TimeColumns s = set (map SchemaColumn (filter (\<lambda>f. SchemaType f = FieldTime) (Fields s)))"

definition schema_Field :: "ResourceSchema \<Rightarrow> string \<Rightarrow> FieldSchema option" where
  "schema_Field s name = find (\<lambda>f. SchemaName f = name) (Fields s)"

section \<open>Sort allow-list\<close>

definition NewSet :: "string list \<Rightarrow> string set" where
  "NewSet names = set names"

definition mk_order :: "string \<Rightarrow> bool \<Rightarrow> OrderField" where
  "mk_order field desc =
     \<lparr>SortField = field, SortJoin = None, SortDerived = None, SortOrdinal = [], SortDesc = desc\<rparr>"

text \<open>One comma-separated token; \<open>None\<close> is a dropped one.\<close>

definition parse_sort_token :: "string set \<Rightarrow> string \<Rightarrow> OrderField option" where
  "parse_sort_token s tok =
     (let (field0, dir) = cut_on CHR '':'' (TrimSpace tok);
          field = TrimSpace field0
      in if field = [] then None
         else if field \<notin> s then None
         else Some (mk_order field (EqualFold (TrimSpace dir) ''desc'')))"

definition ParseList :: "string set \<Rightarrow> string \<Rightarrow> OrderField list" where
  "ParseList s spec = List.map_filter (parse_sort_token s) (split_on CHR '','' spec)"

section \<open>Filter parser\<close>

definition maxFilterDepth :: nat where "maxFilterDepth = 32"

definition json_error :: error where "json_error = Foreign ''encoding/json'' []"
definition time_error :: error where "time_error = Foreign ''time.ParseError'' []"

definition wrap_invalid :: "error \<Rightarrow> string \<Rightarrow> error" where
  "wrap_invalid e message = AppError CodeInvalidInput message [] (Some e)"

definition opToken :: "string \<Rightarrow> FilterOperator option" where
  "opToken token =
     (if token = ''$eq'' then Some OpEq
      else if token = ''$ne'' then Some OpNe
      else if token = ''$in'' then Some OpIn
      else if token = ''$not_in'' then Some OpNotIn
      else if token = ''$like'' then Some OpLike
      else if token = ''$gt'' then Some OpGt
      else if token = ''$gte'' then Some OpGte
      else if token = ''$lt'' then Some OpLt
      else if token = ''$lte'' then Some OpLte
      else None)"

definition value_mismatch :: error where
  "value_mismatch = InvalidInput ''filter: value type does not match field type''"

text \<open>
  \<^verbatim>\<open>json.Unmarshal\<close> into a string, an int64, a float64 or a bool: the JSON kind must match,
  an integer must be an integer literal in range.
\<close>

fun decodeScalar :: "golib \<Rightarrow> json \<Rightarrow> FieldType \<Rightarrow> error + goval" where
  "decodeScalar L raw ft =
     (if raw = JNull then Inl value_mismatch
      else (case ft of
        FieldString \<Rightarrow> (case raw of JStr s \<Rightarrow> Inr (VStr s) | _ \<Rightarrow> Inl value_mismatch)
      | FieldID \<Rightarrow> (case raw of JStr s \<Rightarrow> Inr (VStr s) | _ \<Rightarrow> Inl value_mismatch)
      | FieldInt \<Rightarrow>
          (case raw of
             JNum l \<Rightarrow> (case Atoi l of Some n \<Rightarrow> Inr (VInt n) | None \<Rightarrow> Inl value_mismatch)
           | _ \<Rightarrow> Inl value_mismatch)
      | FieldFloat \<Rightarrow>
          (case raw of
             JNum l \<Rightarrow> (case ParseFloat l of Some w \<Rightarrow> Inr (VFloat w) | None \<Rightarrow> Inl value_mismatch)
           | _ \<Rightarrow> Inl value_mismatch)
      | FieldBool \<Rightarrow> (case raw of JBool b \<Rightarrow> Inr (VBool b) | _ \<Rightarrow> Inl value_mismatch)
      | FieldTime \<Rightarrow>
          (case raw of
             JStr s \<Rightarrow>
               (case parse_time L s of
                  Some (t, z) \<Rightarrow> Inr (VTime t z)
                | None \<Rightarrow> Inl (wrap_invalid time_error ''filter: time value must be RFC3339''))
           | _ \<Rightarrow> Inl value_mismatch)
      | FieldOther n \<Rightarrow> Inl value_mismatch))"

declare decodeScalar.simps [simp del]

definition decodeValue :: "golib \<Rightarrow> FilterOperator \<Rightarrow> json \<Rightarrow> FieldType \<Rightarrow> error + goval" where
  "decodeValue L op raw ft =
     (if op = OpIn \<or> op = OpNotIn
      then (case unmarshal_slice raw of
              None \<Rightarrow> Inl (wrap_invalid json_error ''filter: in/not_in requires an array'')
            | Some arr \<Rightarrow>
                bind_result (map_result (\<lambda>el. decodeScalar L el ft) arr) (\<lambda>vs. Inr (VList vs)))
      else decodeScalar L raw ft)"

definition parseClause :: "golib \<Rightarrow> field_map \<Rightarrow> FilterOperator \<Rightarrow> json \<Rightarrow> error + Filter" where
  "parseClause L m op raw =
     (case unmarshal_map raw of
        None \<Rightarrow> Inl (wrap_invalid json_error ''filter: operator body must be {field: value}'')
      | Some fieldVal \<Rightarrow>
          (case fieldVal of
             [(name, rawV)] \<Rightarrow>
               (case Lookup m name of
                  None \<Rightarrow> Inl (InvalidInput (''filter: field not allow-listed: '' @ name))
                | Some field \<Rightarrow>
                    bind_result (decodeValue L op rawV (Type field))
                      (\<lambda>value. Inr (FilterClause (Name field) op value None)))
           | _ \<Rightarrow> Inl (InvalidInput ''filter: operator body must carry exactly one field'')))"

text \<open>\<^verbatim>\<open>json.Unmarshal\<close> into a \<^verbatim>\<open>[]map[string]json.RawMessage\<close>.\<close>

definition unmarshal_maps :: "json \<Rightarrow> (string \<times> json) list list option" where
  "unmarshal_maps raw =
     (case unmarshal_slice raw of None \<Rightarrow> None | Some vs \<Rightarrow> all_some (map unmarshal_map vs))"

function parseNode ::
    "golib \<Rightarrow> field_map \<Rightarrow> (string \<times> json) list \<Rightarrow> nat \<Rightarrow> error + Filter"
  and parseComposite ::
    "golib \<Rightarrow> field_map \<Rightarrow> string \<Rightarrow> json \<Rightarrow> nat \<Rightarrow> error + Filter" where
  "parseNode L m node depth =
     (if depth > maxFilterDepth then Inl (InvalidInput ''filter: nesting exceeds max depth'')
      else (case node of
        [(key, raw)] \<Rightarrow>
          if key = ''$and'' \<or> key = ''$or'' then parseComposite L m key raw depth
          else (case opToken key of
                  None \<Rightarrow> Inl (InvalidInput (''filter: unknown operator '' @ key))
                | Some op \<Rightarrow> parseClause L m op raw)
      | _ \<Rightarrow> Inl (InvalidInput ''filter: each object must carry exactly one operator'')))"
| "parseComposite L m key raw depth =
     (case unmarshal_maps raw of
        None \<Rightarrow> Inl (wrap_invalid json_error (''filter: '' @ key @ '' must be an array of filters''))
      | Some arr \<Rightarrow>
          if arr = [] then Inl (InvalidInput (''filter: '' @ key @ '' must not be empty''))
          else bind_result (map_result (\<lambda>sub. parseNode L m sub (depth + 1)) arr)
                 (\<lambda>subs. Inr (if key = ''$and'' then CompositeFilter subs []
                              else CompositeFilter [] subs)))"
  by pat_completeness auto

termination
  by (relation "measure (\<lambda>x. case x of
        Inl (L, m, node, depth) \<Rightarrow> 2 * (maxFilterDepth + 2 - depth)
      | Inr (L, m, key, raw, depth) \<Rightarrow> 2 * (maxFilterDepth + 1 - depth) + 1)") auto

declare parseNode.simps [simp del] parseComposite.simps [simp del]

definition Parse :: "golib \<Rightarrow> field_map \<Rightarrow> string \<Rightarrow> error + Filter" where
  "Parse L m jsonStr =
     (if TrimSpace jsonStr = [] then Inr (CompositeFilter [] [])
      else (case Option.bind (json_parse jsonStr) unmarshal_map of
              None \<Rightarrow> Inl (wrap_invalid json_error ''filter: invalid JSON'')
            | Some node \<Rightarrow>
                if node = [] then Inr (CompositeFilter [] []) else parseNode L m node 0))"

section \<open>Well-formed results\<close>

definition map_wf :: "field_map \<Rightarrow> bool" where
  "map_wf m = (\<forall>name f. m name = Some f \<longrightarrow> Name f = name)"

definition value_typed :: "FieldType \<Rightarrow> goval \<Rightarrow> bool" where
  "value_typed ft v =
     (case v of
        VStr s \<Rightarrow> ft = FieldString \<or> ft = FieldID
      | VInt n \<Rightarrow> ft = FieldInt \<and> MinInt64 \<le> n \<and> n \<le> MaxInt64
      | VFloat w \<Rightarrow> ft = FieldFloat
      | VBool b \<Rightarrow> ft = FieldBool
      | VTime t z \<Rightarrow> ft = FieldTime
      | _ \<Rightarrow> False)"

definition operand_typed :: "FilterOperator \<Rightarrow> FieldType \<Rightarrow> goval \<Rightarrow> bool" where
  "operand_typed op ft v =
     (case op of
        OpOther s \<Rightarrow> False
      | _ \<Rightarrow>
          if op = OpIn \<or> op = OpNotIn
          then (case v of VList vs \<Rightarrow> list_all (value_typed ft) vs | _ \<Rightarrow> False)
          else value_typed ft v)"

text \<open>
  What the parser promises of its result: every clause names an allow-listed field with an
  operand of its type and carries no join target yet; every composite has exactly one arm
  with members; nesting is bounded.
\<close>

fun parsed_ok :: "field_map \<Rightarrow> Filter \<Rightarrow> bool" where
  "parsed_ok m NilFilter = False"
| "parsed_ok m (FilterClause field op v j) =
     (j = None \<and> (case m field of None \<Rightarrow> False | Some f \<Rightarrow> operand_typed op (Type f) v))"
| "parsed_ok m (CompositeFilter as os) =
     ((as = []) \<noteq> (os = []) \<and> list_all (parsed_ok m) as \<and> list_all (parsed_ok m) os)"

fun filter_depth :: "Filter \<Rightarrow> nat" where
  "filter_depth (CompositeFilter as os) = Suc (Max (set (0 # map filter_depth as @ map filter_depth os)))"
| "filter_depth _ = 0"

text \<open>The wire text of a filter; \<open>pf\<close> and \<open>pt\<close> print a float64 literal and an RFC 3339 time.\<close>

definition op_key :: "FilterOperator \<Rightarrow> string" where
  "op_key op = CHR ''$'' # op_text op"

fun value_json :: "(64 word \<Rightarrow> string) \<Rightarrow> (int \<Rightarrow> int \<Rightarrow> string) \<Rightarrow> goval \<Rightarrow> json" where
  "value_json pf pt VNil = JNull"
| "value_json pf pt (VStr s) = JStr s"
| "value_json pf pt (VBool b) = JBool b"
| "value_json pf pt (VInt n) = JNum (Itoa n)"
| "value_json pf pt (VFloat w) = JNum (pf w)"
| "value_json pf pt (VTime t z) = JStr (pt t z)"
| "value_json pf pt (VMap kvs) = JObj (map (\<lambda>(k, v). (k, value_json pf pt v)) kvs)"
| "value_json pf pt (VList vs) = JArr (map (value_json pf pt) vs)"

fun filter_json :: "(64 word \<Rightarrow> string) \<Rightarrow> (int \<Rightarrow> int \<Rightarrow> string) \<Rightarrow> Filter \<Rightarrow> json" where
  "filter_json pf pt NilFilter = JObj []"
| "filter_json pf pt (FilterClause field op v j) =
     JObj [(op_key op, JObj [(field, value_json pf pt v)])]"
| "filter_json pf pt (CompositeFilter as os) =
     (if as \<noteq> [] then JObj [(''$and'', JArr (map (filter_json pf pt) as))]
      else JObj [(''$or'', JArr (map (filter_json pf pt) os))])"

text \<open>The operands whose text reads back as themselves.\<close>

fun expressible ::
  "golib \<Rightarrow> (64 word \<Rightarrow> string) \<Rightarrow> (int \<Rightarrow> int \<Rightarrow> string) \<Rightarrow> goval \<Rightarrow> bool" where
  "expressible L pf pt (VFloat w) = (num_literal (pf w) \<and> ParseFloat (pf w) = Some w)"
| "expressible L pf pt (VTime t z) = (parse_time L (pt t z) = Some (t, z))"
| "expressible L pf pt (VList vs) = list_all (expressible L pf pt) vs"
| "expressible L pf pt (VMap kvs) = list_all (\<lambda>(k, v). expressible L pf pt v) kvs"
| "expressible L pf pt _ = True"

fun filter_expressible ::
  "golib \<Rightarrow> (64 word \<Rightarrow> string) \<Rightarrow> (int \<Rightarrow> int \<Rightarrow> string) \<Rightarrow> Filter \<Rightarrow> bool" where
  "filter_expressible L pf pt NilFilter = True"
| "filter_expressible L pf pt (FilterClause field op v j) = expressible L pf pt v"
| "filter_expressible L pf pt (CompositeFilter as os) =
     (list_all (filter_expressible L pf pt) as \<and> list_all (filter_expressible L pf pt) os)"

text \<open>A field name a sort specification can spell: letters, digits, underscore, hyphen, dot.\<close>

definition name_char :: "char \<Rightarrow> bool" where
  "name_char c =
     (let n = of_char c :: nat in
      (48 \<le> n \<and> n \<le> 57) \<or> (65 \<le> n \<and> n \<le> 90) \<or> (97 \<le> n \<and> n \<le> 122) \<or> n = 95 \<or> n = 45 \<or> n = 46)"

definition spellable :: "string \<Rightarrow> bool" where
  "spellable s = (s \<noteq> [] \<and> list_all name_char s)"

definition sort_token :: "OrderField \<Rightarrow> string" where
  "sort_token ofd = SortField ofd @ (if SortDesc ofd then '':desc'' else '':asc'')"

section \<open>Lemmas\<close>

lemma map_wf_NewMap: "map_wf NewMap"
  by (simp add: map_wf_def NewMap_def)

lemma map_wf_Add: "map_wf m \<Longrightarrow> map_wf (Add m fs)"
proof (induction fs arbitrary: m)
  case (Cons f fs)
  have "map_wf (m(Name f \<mapsto> f))" using Cons.prems by (simp add: map_wf_def)
  then show ?case using Cons.IH by (simp add: Add_def)
qed (simp add: Add_def)

lemma Atoi_range: "Atoi s = Some n \<Longrightarrow> MinInt64 \<le> n \<and> n \<le> MaxInt64"
  by (auto simp: Atoi_def Let_def split: if_splits)

lemma decodeScalar_typed: "decodeScalar L raw ft = Inr v \<Longrightarrow> value_typed ft v"
  by (cases ft; cases raw) (auto simp: decodeScalar.simps value_typed_def dest: Atoi_range split: option.splits)

lemma decodeScalar_code: "decodeScalar L raw ft = Inl e \<Longrightarrow> Code (Some e) = CodeInvalidInput"
  by (cases ft; cases raw)
     (auto simp: decodeScalar.simps value_mismatch_def wrap_invalid_def split: option.splits if_splits)

lemma opToken_not_other: "opToken key = Some op \<Longrightarrow> op \<noteq> OpOther s"
  by (auto simp: opToken_def split: if_splits)

lemma decodeValue_typed:
  assumes "decodeValue L op raw ft = Inr v" "\<And>s. op \<noteq> OpOther s"
  shows "operand_typed op ft v"
proof (cases "op = OpIn \<or> op = OpNotIn")
  case True
  then obtain arr vs where "map_result (\<lambda>el. decodeScalar L el ft) arr = Inr vs" "v = VList vs"
    using assms(1) by (auto simp: decodeValue_def split: option.splits)
  then have "list_all (value_typed ft) vs" "v = VList vs"
    by (auto simp: list_all_iff dest!: map_result_set decodeScalar_typed)
  with True show ?thesis by (auto simp: operand_typed_def)
next
  case False
  with assms(1) have "value_typed ft v" by (auto simp: decodeValue_def dest: decodeScalar_typed)
  with False assms(2) show ?thesis by (cases op) (auto simp: operand_typed_def)
qed

lemma decodeValue_code: "decodeValue L op raw ft = Inl e \<Longrightarrow> Code (Some e) = CodeInvalidInput"
  by (auto simp: decodeValue_def wrap_invalid_def bind_result_eq_Inl split: if_splits option.splits
      dest!: map_result_Inl dest: decodeScalar_code)

lemma parseClause_ok:
  assumes "map_wf m" "parseClause L m op raw = Inr f" "\<And>s. op \<noteq> OpOther s"
  shows "parsed_ok m f \<and> filter_depth f = 0"
proof -
  from assms(2) obtain name rawV field v where
    "Lookup m name = Some field" "decodeValue L op rawV (Type field) = Inr v"
    "f = FilterClause (Name field) op v None"
    by (auto simp: parseClause_def split: option.splits list.splits)
  moreover from this have "operand_typed op (Type field) v" using assms(3) by (blast intro: decodeValue_typed)
  ultimately show ?thesis using assms(1) by (simp add: Lookup_def map_wf_def)
qed

lemma parseClause_code: "parseClause L m op raw = Inl e \<Longrightarrow> Code (Some e) = CodeInvalidInput"
  by (auto simp: parseClause_def wrap_invalid_def bind_result_eq_Inl dest: decodeValue_code
      split: option.splits list.splits)

lemma parseNode_Inr:
  assumes "parseNode L m node depth = Inr f"
  obtains key raw where "node = [(key, raw)]" "depth \<le> maxFilterDepth" "key = ''$and'' \<or> key = ''$or''"
      "parseComposite L m key raw depth = Inr f"
    | key raw op where "node = [(key, raw)]" "depth \<le> maxFilterDepth" "opToken key = Some op"
      "parseClause L m op raw = Inr f"
  using assms
  by (subst (asm) parseNode.simps) (force split: if_splits list.splits option.splits prod.splits)

lemma parseNode_Inl:
  assumes "parseNode L m node depth = Inl e"
  obtains "Code (Some e) = CodeInvalidInput"
    | key raw where "node = [(key, raw)]" "depth \<le> maxFilterDepth" "key = ''$and'' \<or> key = ''$or''"
      "parseComposite L m key raw depth = Inl e"
    | op raw where "parseClause L m op raw = Inl e"
  using assms
  by (subst (asm) parseNode.simps) (force split: if_splits list.splits option.splits prod.splits)

lemma composite_depth:
  "(filter_depth (CompositeFilter as os) \<le> n) =
   (0 < n \<and> (\<forall>g \<in> set as \<union> set os. Suc (filter_depth g) \<le> n))"
  by (cases n) auto

lemma parse_node_ok:
  assumes "map_wf m"
  shows "parseNode L m node depth = Inr f \<Longrightarrow> parsed_ok m f \<and> filter_depth f + depth \<le> maxFilterDepth"
    and "parseComposite L m key raw depth = Inr f \<Longrightarrow> depth \<le> maxFilterDepth \<Longrightarrow>
      parsed_ok m f \<and> filter_depth f + depth \<le> maxFilterDepth"
  using assms
proof (induction L m node depth and L m key raw depth arbitrary: f and f rule: parseNode_parseComposite.induct)
  case (1 L m node depth)
  from 1(2) show ?case
  proof (cases rule: parseNode_Inr)
    case (1 key raw)
    then show ?thesis using "1.IH" [of "(key, raw)" "[]" key raw] \<open>map_wf m\<close> by auto
  next
    case (2 key raw op)
    then show ?thesis using parseClause_ok [OF \<open>map_wf m\<close>] opToken_not_other by fastforce
  qed
next
  case (2 L m key raw depth)
  from 2(2) obtain arr subs where arr: "unmarshal_maps raw = Some arr" "arr \<noteq> []"
    and subs: "map_result (\<lambda>sub. parseNode L m sub (depth + 1)) arr = Inr subs"
    and f: "f = (if key = ''$and'' then CompositeFilter subs [] else CompositeFilter [] subs)"
    by (subst (asm) parseComposite.simps) (auto split: option.splits if_splits)
  have "parsed_ok m g \<and> Suc (filter_depth g) \<le> maxFilterDepth - depth" if g: "g \<in> set subs" for g
  proof -
    obtain sub where "sub \<in> set arr" "parseNode L m sub (depth + 1) = Inr g"
      using map_result_set [OF subs g] by blast
    then show ?thesis using 2(1) [OF arr(1,2)] 2(4) by fastforce
  qed
  moreover have "subs \<noteq> []" using map_result_length [OF subs] arr by auto
  moreover from this calculation have "0 < maxFilterDepth - depth" by (cases subs) fastforce+
  ultimately have "parsed_ok m f \<and> filter_depth f \<le> maxFilterDepth - depth"
    using f by (auto simp: list_all_iff composite_depth simp del: filter_depth.simps)
  then show ?case using 2(3) by linarith
qed

lemma parse_node_code:
  "parseNode L m node depth = Inl e \<Longrightarrow> Code (Some e) = CodeInvalidInput"
  "parseComposite L m key raw depth = Inl e \<Longrightarrow> Code (Some e) = CodeInvalidInput"
proof (induction L m node depth and L m key raw depth arbitrary: e and e rule: parseNode_parseComposite.induct)
  case (1 L m node depth)
  from 1(2) show ?case
  proof (cases rule: parseNode_Inl)
    case (2 key raw)
    then show ?thesis using "1.IH" [of "(key, raw)" "[]" key raw] by auto
  qed (auto dest: parseClause_code)
next
  case (2 L m key raw depth)
  from 2(2) show ?case
    using 2(1) by (subst (asm) parseComposite.simps)
      (auto simp: wrap_invalid_def bind_result_eq_Inl split: option.splits if_splits dest!: map_result_Inl)
qed

lemma opToken_op_key: "(\<And>s. op \<noteq> OpOther s) \<Longrightarrow> opToken (op_key op) = Some op"
  by (cases op) (auto simp: opToken_def op_key_def)

lemma op_key_not_arm: "(\<And>s. op \<noteq> OpOther s) \<Longrightarrow> op_key op \<noteq> ''$and'' \<and> op_key op \<noteq> ''$or''"
  by (cases op) (auto simp: op_key_def)

lemma decodeScalar_json:
  "value_typed ft v \<Longrightarrow> expressible L pf pt v \<Longrightarrow> decodeScalar L (value_json pf pt v) ft = Inr v"
  by (cases v) (auto simp: value_typed_def decodeScalar.simps Atoi_Itoa)

lemma decodeValue_json:
  assumes "operand_typed op ft v" "expressible L pf pt v"
  shows "decodeValue L op (value_json pf pt v) ft = Inr v"
proof (cases "op = OpIn \<or> op = OpNotIn")
  case True
  with assms(1) obtain vs where v: "v = VList vs" "list_all (value_typed ft) vs"
    by (auto simp: operand_typed_def split: goval.splits)
  have "map_result (\<lambda>el. decodeScalar L el ft) (map (value_json pf pt) vs) = Inr vs"
    by (rule map_result_inverse) (use v assms(2) in \<open>auto simp: list_all_iff decodeScalar_json\<close>)
  then show ?thesis using True v(1) by (simp add: decodeValue_def)
next
  case False
  with assms show ?thesis
    by (auto simp: operand_typed_def decodeValue_def decodeScalar_json split: FilterOperator.splits)
qed

lemma printable_value:
  "expressible L pf pt v \<Longrightarrow> printable (value_json pf pt v)"
  by (induction v) (fastforce simp: list_all_iff itoa_literal split: prod.splits)+

lemma printable_filter: "filter_expressible L pf pt f \<Longrightarrow> printable (filter_json pf pt f)"
  by (induction f) (auto simp: list_all_iff dest: printable_value)

lemma operand_typed_not_other: "operand_typed op ft v \<Longrightarrow> op \<noteq> OpOther s"
  by (auto simp: operand_typed_def)

lemma filter_json_obj:
  assumes "parsed_ok m f"
  obtains key raw where "filter_json pf pt f = JObj [(key, raw)]"
  using assms by (cases f) auto

lemma parseNode_json:
  assumes "map_wf m"
  shows "parsed_ok m f \<Longrightarrow> filter_depth f + depth \<le> maxFilterDepth \<Longrightarrow> filter_expressible L pf pt f \<Longrightarrow>
    \<exists>key raw. filter_json pf pt f = JObj [(key, raw)] \<and> parseNode L m [(key, raw)] depth = Inr f"
proof (induction f arbitrary: depth)
  case (FilterClause field op v j)
  then obtain fld where fld: "m field = Some fld" "operand_typed op (Type fld) v" "j = None"
    by (auto split: option.splits)
  have "Name fld = field" using assms fld(1) by (simp add: map_wf_def)
  moreover have "decodeValue L op (value_json pf pt v) (Type fld) = Inr v"
    using decodeValue_json fld FilterClause.prems by simp
  moreover have "opToken (op_key op) = Some op" "op_key op \<noteq> ''$and''" "op_key op \<noteq> ''$or''"
    using opToken_op_key op_key_not_arm operand_typed_not_other [OF fld(2)] by blast+
  ultimately show ?case
    using fld FilterClause.prems by (simp add: parseNode.simps parseClause_def Lookup_def)
next
  case (CompositeFilter as os)
  define subs where "subs = as @ os"
  define key where "key = (if as \<noteq> [] then ''$and'' else ''$or'')"
  have subs: "subs \<noteq> []" "\<And>g. g \<in> set subs \<Longrightarrow> parsed_ok m g \<and> filter_expressible L pf pt g"
    using CompositeFilter.prems by (auto simp: subs_def list_all_iff)
  have "filter_depth (CompositeFilter as os) \<le> maxFilterDepth - depth"
    using CompositeFilter.prems(2) by linarith
  then have c: "\<forall>g \<in> set subs. Suc (filter_depth g) \<le> maxFilterDepth - depth" "0 < maxFilterDepth - depth"
    unfolding composite_depth subs_def by auto
  then have d: "filter_depth g + (depth + 1) \<le> maxFilterDepth" if "g \<in> set subs" for g
    using that by fastforce
  have dd: "depth \<le> maxFilterDepth" using c(2) by linarith
  have IH: "\<exists>k r. filter_json pf pt g = JObj [(k, r)] \<and> parseNode L m [(k, r)] (depth + 1) = Inr g"
    if "g \<in> set subs" for g
    using that CompositeFilter.IH subs(2) d unfolding subs_def by auto
  have arr: "unmarshal_maps (JArr (map (filter_json pf pt) subs)) =
      Some (map (\<lambda>g. the (unmarshal_map (filter_json pf pt g))) subs)"
  proof -
    have "all_some (map (\<lambda>g. unmarshal_map (filter_json pf pt g)) subs) =
        Some (map (\<lambda>g. the (unmarshal_map (filter_json pf pt g))) subs)"
      by (rule all_some_map_Some) (use IH in fastforce)
    then show ?thesis by (simp add: unmarshal_maps_def comp_def)
  qed
  have "map_result (\<lambda>sub. parseNode L m sub (depth + 1)) (map (\<lambda>g. the (unmarshal_map (filter_json pf pt g))) subs)
      = Inr subs"
    by (rule map_result_inverse) (use IH in fastforce)
  then have "parseComposite L m key (JArr (map (filter_json pf pt) subs)) depth =
      Inr (CompositeFilter as os)"
    using subs(1) arr CompositeFilter.prems(1)
    by (subst parseComposite.simps) (auto simp: subs_def key_def)
  then have "parseNode L m [(key, JArr (map (filter_json pf pt) subs))] depth = Inr (CompositeFilter as os)"
    using dd by (subst parseNode.simps) (auto simp: key_def)
  moreover have "filter_json pf pt (CompositeFilter as os) = JObj [(key, JArr (map (filter_json pf pt) subs))]"
    using CompositeFilter.prems(1) by (auto simp: key_def subs_def)
  ultimately show ?case by blast
qed simp

lemma Parse_filter_json:
  assumes "map_wf m" "parsed_ok m f" "filter_depth f \<le> maxFilterDepth" "filter_expressible L pf pt f"
  shows "Parse L m (json_print (filter_json pf pt f)) = Inr f"
proof -
  obtain key raw where kr: "filter_json pf pt f = JObj [(key, raw)]" "parseNode L m [(key, raw)] 0 = Inr f"
    using parseNode_json [OF assms(1,2) _ assms(4), of 0] assms(3) by auto
  have "json_parse (json_print (filter_json pf pt f)) = Some (filter_json pf pt f)"
    using json_parse_print printable_filter assms(4) by blast
  moreover have "TrimSpace (json_print (JObj [(key, raw)])) \<noteq> []"
    by (simp add: TrimSpace_nonempty is_space_def)
  ultimately show ?thesis using kr by (simp add: Parse_def del: json_print.simps)
qed

lemma name_char_plain:
  "name_char c \<Longrightarrow> (of_char c :: nat) < 128 \<and> \<not> is_space c \<and> c \<noteq> CHR '','' \<and> c \<noteq> CHR '':''"
  by (auto simp: name_char_def is_space_def Let_def)

lemma parse_sort_token_roundtrip:
  assumes "spellable f" "f \<in> s"
  shows "parse_sort_token s (sort_token (mk_order f d)) = Some (mk_order f d)"
proof -
  have f: "list_all (\<lambda>c. (of_char c :: nat) < 128 \<and> \<not> is_space c) f" "CHR '':'' \<notin> set f" "f \<noteq> []"
    using assms(1) by (auto simp: spellable_def list_all_iff dest: name_char_plain)
  let ?d = "if d then ''desc'' else ''asc''"
  have t: "sort_token (mk_order f d) = f @ CHR '':'' # ?d"
    by (simp add: sort_token_def mk_order_def)
  have "TrimSpace (f @ CHR '':'' # ?d) = f @ CHR '':'' # ?d"
    by (rule TrimSpace_plain) (use f in \<open>auto simp: is_space_def\<close>)
  moreover have "TrimSpace f = f" "TrimSpace ?d = ?d"
    by (rule TrimSpace_plain, use f in \<open>auto simp: is_space_def\<close>)+
  moreover have "EqualFold ?d ''desc'' = d"
    by (simp add: EqualFold_def lower_char_def)
  ultimately show ?thesis
    using assms(2) f by (simp add: parse_sort_token_def t cut_on_app del: if_split split del: if_split)
qed

lemma parse_sort_token_Some:
  "parse_sort_token s tok = Some ofd \<Longrightarrow>
   SortField ofd \<in> s \<and> SortField ofd \<noteq> [] \<and> ofd = mk_order (SortField ofd) (SortDesc ofd)"
  by (cases "cut_on CHR '':'' (TrimSpace tok)")
     (auto simp: parse_sort_token_def mk_order_def Let_def split: if_splits)

lemma ParseList_allowed:
  "ofd \<in> set (ParseList s spec) \<Longrightarrow>
   SortField ofd \<in> s \<and> SortField ofd \<noteq> [] \<and> ofd = mk_order (SortField ofd) (SortDesc ofd)"
  unfolding ParseList_def set_map_filter using parse_sort_token_Some by blast

lemma sort_token_no_comma: "spellable f \<Longrightarrow> CHR '','' \<notin> set (sort_token (mk_order f d))"
  by (auto simp: sort_token_def mk_order_def spellable_def list_all_iff dest: name_char_plain)

lemma ParseList_tokens:
  assumes "ofs \<noteq> []" "\<And>ofd. ofd \<in> set ofs \<Longrightarrow> \<exists>f d. ofd = mk_order f d \<and> spellable f \<and> f \<in> s"
  shows "ParseList s (join_with '','' (map sort_token ofs)) = ofs"
proof -
  have "split_on CHR '','' (join_with '','' (map sort_token ofs)) = map sort_token ofs"
    using assms by (intro split_join_on) (auto dest!: sort_token_no_comma)
  moreover have "List.map_filter (parse_sort_token s) (map sort_token ofs) = ofs"
    using assms(2) by (intro map_filter_inverse) (auto dest!: parse_sort_token_roundtrip)
  ultimately show ?thesis by (simp add: ParseList_def)
qed

section \<open>Properties\<close>

definition demo_map :: field_map where
  "demo_map = Add NewMap [String_field ''name'', Int_field ''size'', ID_field ''owner_id'']"

definition demo_filter :: Filter where
  "demo_filter = CompositeFilter [FilterClause ''name'' OpLike (VStr ''a'') None,
     CompositeFilter [] [FilterClause ''size'' OpIn (VList [VInt 3, VInt (- 4)]) None,
       FilterClause ''size'' OpGt (VInt 7) None]] []"

lemma demo_map_wf: "map_wf demo_map"
  unfolding demo_map_def by (intro map_wf_Add map_wf_NewMap)

lemma demo_filter_ok:
  "parsed_ok demo_map demo_filter" "filter_depth demo_filter \<le> maxFilterDepth"
  "filter_expressible demo_lib pf pt demo_filter"
  by (simp_all add: demo_filter_def demo_map_def Add_def NewMap_def String_field_def Int_field_def
      ID_field_def mk_field_def operand_typed_def value_typed_def maxFilterDepth_def MinInt64_def MaxInt64_def)

lemma Parse_ok:
  assumes "map_wf m" "Parse L m s = Inr f"
  shows "IsEmpty f \<or> (parsed_ok m f \<and> filter_depth f \<le> maxFilterDepth)"
  using assms parse_node_ok(1) [OF assms(1), of L _ 0 f]
  by (fastforce simp: Parse_def split: if_splits option.splits)

lemma Parse_code: "Parse L m s = Inl e \<Longrightarrow> Code (Some e) = CodeInvalidInput"
  using parse_node_code(1)
  by (auto simp: Parse_def wrap_invalid_def split: if_splits option.splits)

text \<open>
  C3. Whatever text a client sends, a filter the parser accepts names only allow-listed
  fields, each compared with an operand of the field's type, has exactly one populated arm
  in every composite, and nests at most \<open>maxFilterDepth\<close> deep.
\<close>

theorem Parse_sound:
  assumes "map_wf m" "Parse L m s = Inr f"
  shows "IsEmpty f \<or> (parsed_ok m f \<and> filter_depth f \<le> maxFilterDepth)"
  using assms by (rule Parse_ok)

text \<open>
  C4. Every filter over the allow-list within the depth limit can be sent: its wire text
  parses back to exactly that filter.  \<open>pf\<close> and \<open>pt\<close> print float64 literals and times.
\<close>

theorem Parse_complete:
  assumes "map_wf m" "parsed_ok m f" "filter_depth f \<le> maxFilterDepth" "filter_expressible L pf pt f"
  shows "Parse L m (json_print (filter_json pf pt f)) = Inr f"
  using assms by (rule Parse_filter_json)

theorem Parse_complete_witness:
  "Parse demo_lib demo_map (json_print (filter_json (\<lambda>w. []) (\<lambda>t z. []) demo_filter)) = Inr demo_filter"
  by (rule Parse_complete) (rule demo_map_wf demo_filter_ok)+

theorem Parse_sound_witness:
  "parsed_ok demo_map demo_filter \<and> filter_depth demo_filter \<le> maxFilterDepth"
  using Parse_sound [OF demo_map_wf Parse_filter_json [OF demo_map_wf demo_filter_ok, of "\<lambda>w. []" "\<lambda>t z. []"]]
  by (simp add: demo_filter_def)

text \<open>
  A text the parser refuses is refused with \<^verbatim>\<open>CodeInvalidInput\<close>, whatever is wrong with it:
  never another code, so a client error is never reported as a server error.
\<close>

lemma Parse_error_code:
  assumes "Parse L m s = Inl e"
  shows "Code (Some e) = CodeInvalidInput \<and> ToHTTPStatus (Code (Some e)) = 400"
  using Parse_code [OF assms] by simp

text \<open>
  The sort parser returns allow-listed fields only, each with a direction and nothing
  else, for any specification text; and it reads back every list of allow-listed,
  spellable directives from its comma-separated text, in order.
\<close>

lemma ParseList_correct:
  "(\<forall>ofd. ofd \<in> set (ParseList s spec) \<longrightarrow>
      SortField ofd \<in> s \<and> ofd = mk_order (SortField ofd) (SortDesc ofd)) \<and>
   (ofs \<noteq> [] \<and> (\<forall>ofd. ofd \<in> set ofs \<longrightarrow> (\<exists>f d. ofd = mk_order f d \<and> spellable f \<and> f \<in> s)) \<longrightarrow>
      ParseList s (join_with '','' (map sort_token ofs)) = ofs)"
  using ParseList_allowed [of _ s spec] ParseList_tokens [of ofs s] by blast


end
