(* ===== verification/Listquery_Compile.thy ===== *)
theory Listquery_Compile
  imports Listquery_Filter
begin

text \<open>
  Package \<^verbatim>\<open>foundation/listquery\<close>, the compiling half (\<^verbatim>\<open>compile.go\<close>, \<^verbatim>\<open>seek.go\<close>): the
  resolution of field names to storage columns, the fold of a filter through the backend
  algebra \<^verbatim>\<open>interfaces.QueryBackend\<close>, the deterministic keyset column order and the keyset
  seek filter.

  A \<^verbatim>\<open>QueryBackend[Q, S]\<close> value is the record of its methods.  The optional resolvers
  (\<^verbatim>\<open>JoinFn\<close>, \<^verbatim>\<open>OrdinalFn\<close>, \<^verbatim>\<open>DerivedFn\<close>) may be nil, hence \<open>None\<close>.  The locale
  \<open>query_backend\<close> states the contract of the algebra's filter half: each node means what
  its comment says, for a meaning \<open>sem\<close> of predicate nodes over rows.
\<close>

section \<open>The backend algebra\<close>

record ('q, 's) QueryBackend =
  Clause :: "string \<Rightarrow> FilterOperator \<Rightarrow> goval \<Rightarrow> 'q"
  ExistsClause :: "JoinTarget \<Rightarrow> FilterOperator \<Rightarrow> goval \<Rightarrow> 'q"
  AndNode :: "'q list \<Rightarrow> 'q"
  OrNode :: "'q list \<Rightarrow> 'q"
  EmptyNode :: "'q"
  OrderNode :: "string \<Rightarrow> bool \<Rightarrow> 's"
  OrderJoin :: "JoinTarget \<Rightarrow> bool \<Rightarrow> 's"
  OrderOrdinal :: "string \<Rightarrow> string list \<Rightarrow> bool \<Rightarrow> 's"
  OrderDerived :: "DerivedSort \<Rightarrow> bool \<Rightarrow> 's"

type_synonym ColumnFn = "string \<Rightarrow> string"
type_synonym JoinFn = "string \<Rightarrow> JoinTarget option"
type_synonym OrdinalFn = "string \<Rightarrow> string list"
type_synonym DerivedFn = "string \<Rightarrow> DerivedSort option"

definition IdentityColumn :: ColumnFn where
  "IdentityColumn field = field"

section \<open>Resolving and compiling a filter\<close>

fun ResolveFilter :: "ColumnFn \<Rightarrow> JoinFn option \<Rightarrow> Filter \<Rightarrow> Filter" where
  "ResolveFilter resolve joinOf NilFilter = NilFilter"
| "ResolveFilter resolve joinOf (FilterClause field op v j) =
     (if field = [] then FilterClause field op v j
      else FilterClause (resolve field) op v
             (case joinOf of None \<Rightarrow> None | Some g \<Rightarrow> g field))"
| "ResolveFilter resolve joinOf (CompositeFilter as os) =
     (if as = [] \<and> os = [] then CompositeFilter as os
      else if as \<noteq> [] then CompositeFilter (map (ResolveFilter resolve joinOf) as) []
      else CompositeFilter [] (map (ResolveFilter resolve joinOf) os))"

fun Compile :: "('q, 's) QueryBackend \<Rightarrow> ColumnFn \<Rightarrow> Filter \<Rightarrow> 'q" where
  "Compile b resolve NilFilter = EmptyNode b"
| "Compile b resolve (FilterClause field op v j) =
     (if field = [] then EmptyNode b
      else (case j of Some join \<Rightarrow> ExistsClause b join op v | None \<Rightarrow> Clause b (resolve field) op v))"
| "Compile b resolve (CompositeFilter as os) =
     (if as = [] \<and> os = [] then EmptyNode b
      else if as \<noteq> [] then AndNode b (map (Compile b resolve) as)
      else OrNode b (map (Compile b resolve) os))"

definition CompileSeek :: "('q, 's) QueryBackend \<Rightarrow> Filter \<Rightarrow> 'q" where
  "CompileSeek b seek = Compile b IdentityColumn seek"

section \<open>The keyset column order\<close>

record KeysetColumn =
  KColumn :: string
  KJoin :: "JoinTarget option"
  KDerived :: "DerivedSort option"
  KOrdinal :: "string list"
  KDesc :: bool

definition plain_column :: "string \<Rightarrow> bool \<Rightarrow> KeysetColumn" where
  "plain_column col desc =
     \<lparr>KColumn = col, KJoin = None, KDerived = None, KOrdinal = [], KDesc = desc\<rparr>"

text \<open>\<open>st\<close> is the pair of the columns appended so far and the keys seen so far.\<close>

definition append_keyed ::
  "string \<Rightarrow> KeysetColumn \<Rightarrow> KeysetColumn list \<times> string set \<Rightarrow> KeysetColumn list \<times> string set" where
  "append_keyed key kc st =
     (case st of (out, seen) \<Rightarrow> if key \<in> seen then (out, seen) else (out @ [kc], insert key seen))"

definition appendCol ::
  "string \<Rightarrow> bool \<Rightarrow> KeysetColumn list \<times> string set \<Rightarrow> KeysetColumn list \<times> string set" where
  "appendCol col desc st = append_keyed col (plain_column col desc) st"

definition join_key :: "JoinTarget \<Rightarrow> string" where
  "join_key j =
     CHR 0x00 # ''join'' @ [CHR 0x00] @ Table j @ [CHR 0x00] @ join_with '','' (Columns j)"

definition derived_key :: "string \<Rightarrow> string" where
  "derived_key field = CHR 0x00 # ''derived'' @ [CHR 0x00] @ field"

definition append_sort ::
  "ColumnFn \<Rightarrow> JoinFn option \<Rightarrow> OrdinalFn option \<Rightarrow> DerivedFn option \<Rightarrow> OrderField \<Rightarrow>
   KeysetColumn list \<times> string set \<Rightarrow> KeysetColumn list \<times> string set" where
  "append_sort resolve joinOf ordinalOf derivedOf ofd st =
     (let field = SortField ofd; desc = SortDesc ofd in
      case (case joinOf of None \<Rightarrow> None | Some g \<Rightarrow> g field) of
        Some j \<Rightarrow> append_keyed (join_key j) ((plain_column [] desc)\<lparr>KJoin := Some j\<rparr>) st
      | None \<Rightarrow>
         (case (case derivedOf of None \<Rightarrow> None | Some g \<Rightarrow> g field) of
            Some d \<Rightarrow> append_keyed (derived_key field) ((plain_column [] desc)\<lparr>KDerived := Some d\<rparr>) st
          | None \<Rightarrow>
             (let col = resolve field;
                  ord = (case ordinalOf of None \<Rightarrow> [] | Some g \<Rightarrow> g field)
              in if ord \<noteq> [] then append_keyed col ((plain_column col desc)\<lparr>KOrdinal := ord\<rparr>) st
                 else appendCol col desc st)))"

definition KeysetColumns ::
  "ColumnFn \<Rightarrow> JoinFn option \<Rightarrow> OrdinalFn option \<Rightarrow> DerivedFn option \<Rightarrow> OrderField list \<Rightarrow> string \<Rightarrow>
   KeysetColumn list" where
  "KeysetColumns resolve joinOf ordinalOf derivedOf ofs tiebreaker0 =
     (let tiebreaker = (if tiebreaker0 = [] then tiebreakerCreatedAt else tiebreaker0);
          st = foldl (\<lambda>st ofd. append_sort resolve joinOf ordinalOf derivedOf ofd st) ([], {}) ofs
      in fst (appendCol tiebreakerID True (appendCol tiebreaker True st)))"

definition order_node :: "('q, 's) QueryBackend \<Rightarrow> KeysetColumn \<Rightarrow> 's" where
  "order_node b kc =
     (case KJoin kc of
        Some j \<Rightarrow> OrderJoin b j (KDesc kc)
      | None \<Rightarrow>
         (case KDerived kc of
            Some d \<Rightarrow> OrderDerived b d (KDesc kc)
          | None \<Rightarrow>
              if KOrdinal kc \<noteq> [] then OrderOrdinal b (KColumn kc) (KOrdinal kc) (KDesc kc)
              else OrderNode b (KColumn kc) (KDesc kc)))"

definition CompileOrder ::
  "('q, 's) QueryBackend \<Rightarrow> ColumnFn \<Rightarrow> JoinFn option \<Rightarrow> OrdinalFn option \<Rightarrow> DerivedFn option \<Rightarrow>
   OrderField list \<Rightarrow> string \<Rightarrow> 's list" where
  "CompileOrder b resolve joinOf ordinalOf derivedOf ofs tiebreaker =
     map (order_node b) (KeysetColumns resolve joinOf ordinalOf derivedOf ofs tiebreaker)"

section \<open>The keyset seek\<close>

definition strictClause :: "KeysetColumn \<Rightarrow> goval \<Rightarrow> Filter" where
  "strictClause c v = FilterClause (KColumn c) (if KDesc c then OpLt else OpGt) v None"

text \<open>
  \<open>seekFrom\<close> receives the columns and values from its index on; a value missing for a
  column is an index out of range.
\<close>

fun seekFrom :: "KeysetColumn list \<Rightarrow> goval list \<Rightarrow> Filter outcome" where
  "seekFrom [] vs = Panic ''index out of range''"
| "seekFrom (c # cs) [] = Panic ''index out of range''"
| "seekFrom [c] (v # vs) = Return (strictClause c v)"
| "seekFrom (c # c' # cs) (v # vs) =
     (case seekFrom (c' # cs) vs of
        Panic e \<Rightarrow> Panic e
      | Return rest \<Rightarrow>
          Return (CompositeFilter []
            [strictClause c v,
             CompositeFilter [FilterClause (KColumn c) OpEq v None, rest] []]))"

definition SeekFilter :: "KeysetColumn list \<Rightarrow> goval list \<Rightarrow> Filter outcome" where
  "SeekFilter cols values =
     (if cols = [] then Return (CompositeFilter [] []) else seekFrom cols values)"

section \<open>Reference meaning\<close>

text \<open>
  What a filter says of a row, given what a comparison on a column and on a joined table
  say: an empty filter constrains nothing, a composite means its populated arm.
\<close>

fun filter_holds ::
  "(string \<Rightarrow> FilterOperator \<Rightarrow> goval \<Rightarrow> 'r \<Rightarrow> bool) \<Rightarrow>
   (JoinTarget \<Rightarrow> FilterOperator \<Rightarrow> goval \<Rightarrow> 'r \<Rightarrow> bool) \<Rightarrow> Filter \<Rightarrow> 'r \<Rightarrow> bool" where
  "filter_holds col join NilFilter r = True"
| "filter_holds col join (FilterClause field op v j) r =
     (field = [] \<or> (case j of Some t \<Rightarrow> join t op v r | None \<Rightarrow> col field op v r))"
| "filter_holds col join (CompositeFilter as os) r =
     (if as \<noteq> [] then list_all (\<lambda>f. filter_holds col join f r) as
      else if os \<noteq> [] then list_ex (\<lambda>f. filter_holds col join f r) os
      else True)"

text \<open>
  The rows strictly after a cursor in the lexicographic order of the keyset columns:
  \<open>key r c\<close> is the row's value of column \<open>c\<close> and \<open>lt\<close> the order of values.
\<close>

fun lex_after ::
  "(goval \<Rightarrow> goval \<Rightarrow> bool) \<Rightarrow> ('r \<Rightarrow> string \<Rightarrow> goval) \<Rightarrow> KeysetColumn list \<Rightarrow> goval list \<Rightarrow> 'r \<Rightarrow> bool" where
  "lex_after lt key (c # cs) (v # vs) r =
     ((if KDesc c then lt (key r (KColumn c)) v else lt v (key r (KColumn c)))
      \<or> (key r (KColumn c) = v \<and> lex_after lt key cs vs r))"
| "lex_after lt key _ _ r = False"

text \<open>A column of the queried table itself, as opposed to a joined or derived sort.\<close>

definition base_column :: "KeysetColumn \<Rightarrow> bool" where
  "base_column kc = (KJoin kc = None \<and> KDerived kc = None)"

definition base_columns :: "KeysetColumn list \<Rightarrow> string list" where
  "base_columns cols = map KColumn (filter base_column cols)"

text \<open>A filter without joins, as the parser returns it.\<close>

fun join_free :: "Filter \<Rightarrow> bool" where
  "join_free NilFilter = True"
| "join_free (FilterClause field op v j) = (j = None)"
| "join_free (CompositeFilter as os) = (list_all join_free as \<and> list_all join_free os)"

text \<open>
  The loop's invariant: base columns are pairwise distinct and recorded as seen, and a key
  seen is a base column's or carries the NUL prefix of the other two kinds.
\<close>

definition keyset_inv :: "KeysetColumn list \<times> string set \<Rightarrow> bool" where
  "keyset_inv st =
     (case st of (out, seen) \<Rightarrow>
        distinct (base_columns out) \<and> set (base_columns out) \<subseteq> seen
        \<and> (\<forall>k \<in> seen. k \<in> set (base_columns out) \<or> (\<exists>t. k = CHR 0x00 # t)))"

locale query_backend =
  fixes B :: "('q, 's) QueryBackend"
    and sem :: "'q \<Rightarrow> 'r \<Rightarrow> bool"
    and col :: "string \<Rightarrow> FilterOperator \<Rightarrow> goval \<Rightarrow> 'r \<Rightarrow> bool"
    and join :: "JoinTarget \<Rightarrow> FilterOperator \<Rightarrow> goval \<Rightarrow> 'r \<Rightarrow> bool"
  assumes sem_Clause: "sem (Clause B c op v) r = col c op v r"
    and sem_Exists: "sem (ExistsClause B t op v) r = join t op v r"
    and sem_And: "sem (AndNode B qs) r = list_all (\<lambda>q. sem q r) qs"
    and sem_Or: "sem (OrNode B qs) r = list_ex (\<lambda>q. sem q r) qs"
    and sem_Empty: "sem (EmptyNode B) r"
begin

text \<open>The fold means what the filter says.\<close>

lemma Compile_sem:
  "sem (Compile B resolve f) r = filter_holds (\<lambda>c. col (resolve c)) join f r"
proof (induction f)
  case (CompositeFilter as os)
  then show ?case
    by (simp add: sem_Empty sem_And sem_Or list_all_iff list_ex_iff)
qed (auto simp: sem_Clause sem_Exists sem_Empty split: option.splits)

lemma CompileSeek_sem: "sem (CompileSeek B f) r = filter_holds col join f r"
  using Compile_sem [of IdentityColumn f r] by (simp add: CompileSeek_def IdentityColumn_def)

end

section \<open>Lemmas\<close>

text \<open>
  Resolving first and compiling with the identity resolver is compiling with the
  allow-list's resolver, provided no field resolves to the empty column.
\<close>

lemma Compile_ResolveFilter_None:
  assumes "\<And>field. field \<noteq> [] \<Longrightarrow> resolve field \<noteq> []"
  shows "join_free f \<Longrightarrow> CompileSeek B (ResolveFilter resolve None f) = Compile B resolve f"
proof (induction f)
  case (FilterClause field op v j)
  then show ?case using assms by (simp add: CompileSeek_def IdentityColumn_def)
next
  case (CompositeFilter as os)
  then show ?case by (auto simp: CompileSeek_def list_all_iff comp_def cong: map_cong)
qed (simp add: CompileSeek_def)

lemma filter_holds_Resolve:
  assumes "\<And>field. field \<noteq> [] \<Longrightarrow> resolve field \<noteq> []"
  shows "join_free f \<Longrightarrow>
    filter_holds col join (ResolveFilter resolve (Some joinOf) f) r =
    filter_holds (\<lambda>field op v r. case joinOf field of Some t \<Rightarrow> join t op v r | None \<Rightarrow> col (resolve field) op v r)
      join f r"
proof (induction f)
  case (CompositeFilter as os)
  then show ?case by (auto simp: list_all_iff list_ex_iff)
qed (auto simp: assms)

text \<open>The seek filter selects exactly the rows after the cursor.\<close>

lemma seekFrom_total: "cs \<noteq> [] \<Longrightarrow> length vs = length cs \<Longrightarrow> \<exists>f. seekFrom cs vs = Return f"
  by (induction cs vs rule: seekFrom.induct) (auto split: outcome.splits)

lemma seekFrom_holds:
  assumes "\<And>c v r. col c OpGt v r = lt v (key r c)" "\<And>c v r. col c OpLt v r = lt (key r c) v"
    "\<And>c v r. col c OpEq v r = (key r c = v)"
  shows "seekFrom cs vs = Return f \<Longrightarrow> length vs = length cs \<Longrightarrow> \<forall>c \<in> set cs. KColumn c \<noteq> [] \<Longrightarrow>
    filter_holds col join f r = lex_after lt key cs vs r"
proof (induction cs vs arbitrary: f rule: seekFrom.induct)
  case (3 c v vs)
  then show ?case using assms by (auto simp: strictClause_def)
next
  case (4 c c' cs v vs)
  then obtain rest where "seekFrom (c' # cs) vs = Return rest"
    and "f = CompositeFilter [] [strictClause c v, CompositeFilter [FilterClause (KColumn c) OpEq v None, rest] []]"
    by (auto split: outcome.splits)
  with 4 assms show ?case by (auto simp: strictClause_def)
qed auto

subsection \<open>The column order\<close>

lemma keyset_inv_init: "keyset_inv ([], {})"
  by (simp add: keyset_inv_def base_columns_def)

lemma keyset_inv_base:
  "keyset_inv st \<Longrightarrow> base_column kc \<Longrightarrow> keyset_inv (append_keyed (KColumn kc) kc st)"
  by (cases st) (auto simp: keyset_inv_def append_keyed_def base_columns_def)

lemma keyset_inv_other:
  "keyset_inv st \<Longrightarrow> \<not> base_column kc \<Longrightarrow> keyset_inv (append_keyed (CHR 0x00 # t) kc st)"
  by (cases st) (auto simp: keyset_inv_def append_keyed_def base_columns_def)

lemma keyset_inv_appendCol: "keyset_inv st \<Longrightarrow> keyset_inv (appendCol c d st)"
  using keyset_inv_base [of st "plain_column c d"]
  by (simp add: appendCol_def plain_column_def base_column_def)

lemma keyset_inv_append_sort: "keyset_inv st \<Longrightarrow> keyset_inv (append_sort rs jo od dv ofd st)"
  using keyset_inv_base [of st "(plain_column (rs (SortField ofd)) (SortDesc ofd))\<lparr>KOrdinal := x\<rparr>" for x]
  by (auto simp: append_sort_def Let_def join_key_def derived_key_def plain_column_def base_column_def
      intro!: keyset_inv_other keyset_inv_appendCol split: option.splits)

lemma keyset_inv_foldl:
  "keyset_inv st \<Longrightarrow> keyset_inv (foldl (\<lambda>st ofd. append_sort rs jo od dv ofd st) st ofs)"
proof (induction ofs arbitrary: st)
  case (Cons ofd ofs)
  then show ?case using keyset_inv_append_sort by simp
qed simp

lemma appendCol_mem:
  "keyset_inv st \<Longrightarrow> c \<in> set (base_columns (fst (appendCol c d st))) \<or> (\<exists>t. c = CHR 0x00 # t)"
proof (cases st)
  case (Pair out seen)
  assume "keyset_inv st"
  then have "c \<in> seen \<Longrightarrow> c \<in> set (base_columns out) \<or> (\<exists>t. c = CHR 0x00 # t)"
    using Pair by (auto simp: keyset_inv_def)
  moreover have "c \<notin> seen \<Longrightarrow> c \<in> set (base_columns (fst (appendCol c d st)))"
    using Pair by (simp add: appendCol_def append_keyed_def base_columns_def plain_column_def base_column_def)
  moreover have "c \<in> seen \<Longrightarrow> fst (appendCol c d st) = out"
    using Pair by (simp add: appendCol_def append_keyed_def)
  ultimately show ?thesis by auto
qed

lemma appendCol_mono: "set (base_columns (fst st)) \<subseteq> set (base_columns (fst (appendCol c d st)))"
  by (cases st) (auto simp: appendCol_def append_keyed_def base_columns_def)

lemma KeysetColumns_base:
  defines "tb t \<equiv> (if t = [] then tiebreakerCreatedAt else t)"
  shows "distinct (base_columns (KeysetColumns rs jo od dv ofs t))"
    and "KeysetIDColumn \<in> set (base_columns (KeysetColumns rs jo od dv ofs t))"
    and "(\<And>u. t \<noteq> CHR 0x00 # u) \<Longrightarrow> tb t \<in> set (base_columns (KeysetColumns rs jo od dv ofs t))"
proof -
  define st where "st = foldl (\<lambda>st ofd. append_sort rs jo od dv ofd st) ([], {}) ofs"
  have i: "keyset_inv st" unfolding st_def by (intro keyset_inv_foldl keyset_inv_init)
  have eq: "KeysetColumns rs jo od dv ofs t =
      fst (appendCol tiebreakerID True (appendCol (tb t) True st))"
    by (simp add: KeysetColumns_def tb_def st_def Let_def)
  have i1: "keyset_inv (appendCol (tb t) True st)" using i by (rule keyset_inv_appendCol)
  have "keyset_inv (appendCol tiebreakerID True (appendCol (tb t) True st))"
    using i1 by (rule keyset_inv_appendCol)
  then show "distinct (base_columns (KeysetColumns rs jo od dv ofs t))"
    unfolding eq by (auto simp: keyset_inv_def split: prod.splits)
  show "KeysetIDColumn \<in> set (base_columns (KeysetColumns rs jo od dv ofs t))"
    using appendCol_mem [OF i1, of tiebreakerID True] unfolding eq
    by (simp add: KeysetIDColumn_def tiebreakerID_def)
  assume "\<And>u. t \<noteq> CHR 0x00 # u"
  then have "\<not> (\<exists>u. tb t = CHR 0x00 # u)" by (simp add: tb_def tiebreakerCreatedAt_def)
  then have "tb t \<in> set (base_columns (fst (appendCol (tb t) True st)))"
    using appendCol_mem [OF i] by blast
  then show "tb t \<in> set (base_columns (KeysetColumns rs jo od dv ofs t))"
    unfolding eq using appendCol_mono by blast
qed

text \<open>The default order: the tiebreaker and the id, descending, once.\<close>

lemma KeysetColumns_default:
  "KeysetColumns rs jo od dv [] t =
     (let tb = (if t = [] then tiebreakerCreatedAt else t) in
      if tb = KeysetIDColumn then [plain_column KeysetIDColumn True]
      else [plain_column tb True, plain_column KeysetIDColumn True])"
  by (simp add: KeysetColumns_def appendCol_def append_keyed_def KeysetIDColumn_def Let_def)

section \<open>Properties\<close>

text \<open>
  The column order of a list query is a total order on rows: whatever the caller sorts
  by, no base column occurs twice, the unique id column is always there, and so is the
  resource's tiebreaker.
\<close>

lemma KeysetColumns_total_order:
  assumes "\<And>u. t \<noteq> CHR 0x00 # u"
  shows "distinct (base_columns (KeysetColumns rs jo od dv ofs t))
    \<and> KeysetIDColumn \<in> set (base_columns (KeysetColumns rs jo od dv ofs t))
    \<and> (if t = [] then tiebreakerCreatedAt else t) \<in> set (base_columns (KeysetColumns rs jo od dv ofs t))"
  using KeysetColumns_base assms by simp


text \<open>
  C5. The seek filter selects exactly the rows strictly after the cursor in the
  lexicographic order of the keyset columns, each in its own direction: it is always built
  for as many values as columns, and holds of a row exactly when the row comes after.
\<close>

theorem SeekFilter_correct:
  assumes "cols \<noteq> []" "length vs = length cols" "\<forall>c \<in> set cols. KColumn c \<noteq> []"
    "\<And>c v r. col c OpGt v r = lt v (key r c)" "\<And>c v r. col c OpLt v r = lt (key r c) v"
    "\<And>c v r. col c OpEq v r = (key r c = v)"
  shows "\<exists>f. SeekFilter cols vs = Return f \<and> (\<forall>r. filter_holds col join f r = lex_after lt key cols vs r)"
proof -
  obtain f where f: "seekFrom cols vs = Return f" using seekFrom_total assms by blast
  then have "\<forall>r. filter_holds col join f r = lex_after lt key cols vs r"
    using seekFrom_holds [of col lt key, OF assms(4-6) f assms(2,3)] by blast
  with f assms(1) show ?thesis by (simp add: SeekFilter_def)
qed

theorem SeekFilter_correct_witness:
  "\<exists>f. SeekFilter [plain_column ''a'' True, plain_column ''id'' False] [VInt 3, VStr ''x''] = Return f
     \<and> (\<forall>r. filter_holds (\<lambda>c op v r. case op of OpGt \<Rightarrow> False | OpLt \<Rightarrow> False | _ \<Rightarrow> r c = v)
             (\<lambda>t op v r. False) f r =
           lex_after (\<lambda>x y. False) (\<lambda>r c. r c)
             [plain_column ''a'' True, plain_column ''id'' False] [VInt 3, VStr ''x''] r)"
  by (rule SeekFilter_correct) (simp_all add: plain_column_def)

end
