(* ===== verification/Query_Residual.thy ===== *)
theory Query_Residual
  imports Listquery_Compile
begin

text \<open>
  The in-process query backend of the Cassandra analytics store
  (\<^verbatim>\<open>clients/analytics/cassandra/residual.go\<close>): it compiles a whole filter into a predicate
  over stored rows, and narrows the time range of the CQL read by the top-level clauses on
  the time field.  It is the repository's own instance of the backend algebra, so the
  contract \<open>query_backend\<close> is interpreted on it.
\<close>

definition TimeField :: string where "TimeField = ''ts''"

record stored =
  ts :: int
  dims :: "string \<rightharpoonup> string"

text \<open>Operands are compared as text.\<close>

definition compareString :: "golib \<Rightarrow> string \<Rightarrow> FilterOperator \<Rightarrow> goval \<Rightarrow> bool" where
  "compareString L got op v =
     (case op of
        OpEq \<Rightarrow> got = sprint L v
      | OpNe \<Rightarrow> got \<noteq> sprint L v
      | OpIn \<Rightarrow> (case v of VList items \<Rightarrow> list_ex (\<lambda>i. got = sprint L i) items | _ \<Rightarrow> False)
      | OpNotIn \<Rightarrow> \<not> (case v of VList items \<Rightarrow> list_ex (\<lambda>i. got = sprint L i) items | _ \<Rightarrow> False)
      | OpLike \<Rightarrow> Contains (to_lower L got) (to_lower L (sprint L v))
      | OpGt \<Rightarrow> got > sprint L v
      | OpGte \<Rightarrow> got \<ge> sprint L v
      | OpLt \<Rightarrow> got < sprint L v
      | OpLte \<Rightarrow> got \<le> sprint L v
      | OpOther s \<Rightarrow> False)"

definition compareTime :: "int \<Rightarrow> FilterOperator \<Rightarrow> goval \<Rightarrow> bool" where
  "compareTime got op v =
     (case v of
        VTime want z \<Rightarrow>
          (case op of
             OpEq \<Rightarrow> got = want
           | OpNe \<Rightarrow> got \<noteq> want
           | OpGt \<Rightarrow> got > want
           | OpGte \<Rightarrow> \<not> got < want
           | OpLt \<Rightarrow> got < want
           | OpLte \<Rightarrow> \<not> got > want
           | _ \<Rightarrow> False)
      | _ \<Rightarrow> False)"

definition residual_Clause :: "golib \<Rightarrow> string \<Rightarrow> FilterOperator \<Rightarrow> goval \<Rightarrow> stored \<Rightarrow> bool" where
  "residual_Clause L col op v =
     (if col = TimeField then (\<lambda>r. compareTime (ts r) op v)
      else (\<lambda>r. case dims r col of Some got \<Rightarrow> compareString L got op v | None \<Rightarrow> False))"

definition residual_ExistsClause :: "JoinTarget \<Rightarrow> FilterOperator \<Rightarrow> goval \<Rightarrow> stored \<Rightarrow> bool" where
  "residual_ExistsClause join op v = (\<lambda>r. False)"

text \<open>The loops of \<^verbatim>\<open>And\<close> and \<^verbatim>\<open>Or\<close> return at the first member that decides.\<close>

fun residual_And :: "(stored \<Rightarrow> bool) list \<Rightarrow> stored \<Rightarrow> bool" where
  "residual_And [] r = True"
| "residual_And (p # ps) r = (if \<not> p r then False else residual_And ps r)"

fun residual_Or :: "(stored \<Rightarrow> bool) list \<Rightarrow> stored \<Rightarrow> bool" where
  "residual_Or [] r = False"
| "residual_Or (p # ps) r = (if p r then True else residual_Or ps r)"

definition residual :: "golib \<Rightarrow> (stored \<Rightarrow> bool, unit) QueryBackend" where
  "residual L =
     \<lparr>Clause = residual_Clause L, ExistsClause = residual_ExistsClause,
      AndNode = residual_And, OrNode = residual_Or, EmptyNode = (\<lambda>r. True),
      OrderNode = (\<lambda>col desc. ()), OrderJoin = (\<lambda>join desc. ()),
      OrderOrdinal = (\<lambda>col values desc. ()), OrderDerived = (\<lambda>d desc. ())\<rparr>"

definition compileResidual :: "golib \<Rightarrow> Filter \<Rightarrow> stored \<Rightarrow> bool" where
  "compileResidual L f = Compile (residual L) (\<lambda>field. field) f"

section \<open>Pushdown of the time range\<close>

definition truncate_ms :: "int \<Rightarrow> int" where
  "truncate_ms t = t - t mod 1000000"

definition maxTime :: "int \<Rightarrow> int \<Rightarrow> int" where
  "maxTime a b = (if b > a then b else a)"

definition minTime :: "int \<Rightarrow> int \<Rightarrow> int" where
  "minTime a b = (if b < a then b else a)"

definition pushdown_clauses :: "Filter \<Rightarrow> Filter list" where
  "pushdown_clauses f =
     (case f of
        FilterClause field op v j \<Rightarrow> [f]
      | CompositeFilter as os \<Rightarrow> as
      | NilFilter \<Rightarrow> [])"

fun narrow :: "Filter \<Rightarrow> int \<times> int \<Rightarrow> int \<times> int" where
  "narrow (FilterClause field op (VTime at z) j) (lo, hi) =
     (if field \<noteq> TimeField then (lo, hi)
      else (case op of
          OpGt \<Rightarrow> (if truncate_ms at > lo then truncate_ms at else lo, hi)
        | OpGte \<Rightarrow> (if truncate_ms at > lo then truncate_ms at else lo, hi)
        | OpLt \<Rightarrow> (lo, if truncate_ms at + 1000000 < hi then truncate_ms at + 1000000 else hi)
        | OpLte \<Rightarrow> (lo, if truncate_ms at + 1000000 < hi then truncate_ms at + 1000000 else hi)
        | OpEq \<Rightarrow> (maxTime lo (truncate_ms at), minTime hi (truncate_ms at + 1000000))
        | _ \<Rightarrow> (lo, hi)))"
| "narrow _ rg = rg"

definition pushdown :: "Filter \<Rightarrow> int \<Rightarrow> int \<Rightarrow> int \<times> int" where
  "pushdown f lo hi = foldl (\<lambda>rg c. narrow c rg) (lo, hi) (pushdown_clauses f)"

section \<open>The contract\<close>

lemma residual_And_list_all: "residual_And ps r = list_all (\<lambda>p. p r) ps"
  by (induction ps) auto

lemma residual_Or_list_ex: "residual_Or ps r = list_ex (\<lambda>p. p r) ps"
  by (induction ps) auto

interpretation rs: query_backend "residual L" "\<lambda>p r. p r" "residual_Clause L" residual_ExistsClause
  for L
  by unfold_locales
     (simp_all add: residual_def residual_And_list_all residual_Or_list_ex)

section \<open>Lemmas\<close>

lemma truncate_ms_bounds: "truncate_ms t \<le> t" "t < truncate_ms t + 1000000"
  using pos_mod_bound [of 1000000 t] by (simp_all add: truncate_ms_def)

text \<open>One clause: a row it accepts inside the range stays inside the narrowed range.\<close>

lemma narrow_keeps:
  assumes "compileResidual L c r" "lo \<le> ts r" "ts r < hi" "narrow c (lo, hi) = (lo', hi')"
  shows "lo' \<le> ts r \<and> ts r < hi'"
proof (cases "\<exists>op at z j. c = FilterClause TimeField op (VTime at z) j")
  case True
  then obtain op at z j where c: "c = FilterClause TimeField op (VTime at z) j" by blast
  have "j = None \<Longrightarrow> compareTime (ts r) op (VTime at z)"
    using assms(1) c by (simp add: compileResidual_def residual_def residual_Clause_def TimeField_def)
  moreover have "j = None"
    using assms(1) c by (cases j) (simp_all add: compileResidual_def residual_def residual_ExistsClause_def TimeField_def)
  ultimately show ?thesis
    using assms(2-4) c truncate_ms_bounds [of at]
    by (cases op) (auto simp: compareTime_def maxTime_def minTime_def split: if_splits)
next
  case False
  then have "narrow c (lo, hi) = (lo, hi)" by (cases "(c, (lo, hi))" rule: narrow.cases) auto
  with assms show ?thesis by simp
qed

lemma narrow_shrinks: "narrow c (lo, hi) = (lo', hi') \<Longrightarrow> lo \<le> lo' \<and> hi' \<le> hi"
  by (cases "(c, (lo, hi))" rule: narrow.cases)
     (auto simp: maxTime_def minTime_def split: if_splits FilterOperator.splits)

lemma pushdown_clauses_hold:
  "compileResidual L f r \<Longrightarrow> c \<in> set (pushdown_clauses f) \<Longrightarrow> compileResidual L c r"
  by (cases f) (auto simp: pushdown_clauses_def compileResidual_def residual_def
      residual_And_list_all list_all_iff split: if_splits)

lemma foldl_narrow:
  "(\<And>c. c \<in> set cs \<Longrightarrow> compileResidual L c r) \<Longrightarrow> lo \<le> ts r \<Longrightarrow> ts r < hi \<Longrightarrow>
   foldl (\<lambda>rg c. narrow c rg) (lo, hi) cs = (lo', hi') \<Longrightarrow> lo' \<le> ts r \<and> ts r < hi'"
proof (induction cs arbitrary: lo hi)
  case (Cons c cs)
  obtain l h where n: "narrow c (lo, hi) = (l, h)" by (cases "narrow c (lo, hi)")
  have "compileResidual L c r" using Cons.prems(1) by simp
  then have "l \<le> ts r \<and> ts r < h" using narrow_keeps Cons.prems(2,3) n by blast
  with Cons n show ?case by auto
qed auto

lemma foldl_narrow_shrinks:
  "foldl (\<lambda>rg c. narrow c rg) (lo, hi) cs = (lo', hi') \<Longrightarrow> lo \<le> lo' \<and> hi' \<le> hi"
proof (induction cs arbitrary: lo hi)
  case (Cons c cs)
  obtain l h where n: "narrow c (lo, hi) = (l, h)" by (cases "narrow c (lo, hi)")
  with Cons narrow_shrinks [OF n] show ?case by fastforce
qed auto

section \<open>Properties\<close>


text \<open>
  C7. Pushing the time clauses down into the CQL range never changes an answer: the rows of
  the narrowed range that satisfy the filter are the rows of the original range that do,
  and the narrowed range lies inside the original one.
\<close>

theorem pushdown_exact:
  assumes "pushdown f lo hi = (lo', hi')"
  shows "lo \<le> lo' \<and> hi' \<le> hi \<and>
    filter (\<lambda>r. lo' \<le> ts r \<and> ts r < hi' \<and> compileResidual L f r) rows =
    filter (\<lambda>r. lo \<le> ts r \<and> ts r < hi \<and> compileResidual L f r) rows"
proof -
  have s: "lo \<le> lo' \<and> hi' \<le> hi"
    using assms unfolding pushdown_def by (rule foldl_narrow_shrinks)
  have "(lo' \<le> ts r \<and> ts r < hi' \<and> compileResidual L f r) =
        (lo \<le> ts r \<and> ts r < hi \<and> compileResidual L f r)" for r
    using s foldl_narrow [OF pushdown_clauses_hold [of L f r] _ _ assms [unfolded pushdown_def]] by auto
  with s show ?thesis by simp
qed

theorem pushdown_exact_witness:
  "pushdown (FilterClause ''ts'' OpLte (VTime 1500000 0) None) 0 9000000 = (0, 2000000) \<and>
   filter (\<lambda>r. 0 \<le> ts r \<and> ts r < 2000000 \<and>
       compileResidual demo_lib (FilterClause ''ts'' OpLte (VTime 1500000 0) None) r)
     [\<lparr>ts = 1500000, dims = Map.empty\<rparr>] =
   filter (\<lambda>r. 0 \<le> ts r \<and> ts r < 9000000 \<and>
       compileResidual demo_lib (FilterClause ''ts'' OpLte (VTime 1500000 0) None) r)
     [\<lparr>ts = 1500000, dims = Map.empty\<rparr>]"
proof -
  have "pushdown (FilterClause ''ts'' OpLte (VTime 1500000 0) None) 0 9000000 = (0, 2000000)"
    by (simp add: pushdown_def pushdown_clauses_def TimeField_def truncate_ms_def)
  with pushdown_exact [OF this, of demo_lib "[\<lparr>ts = 1500000, dims = Map.empty\<rparr>]"] show ?thesis by simp
qed

end
