(* ===== verification/Listquery_Token.thy ===== *)
theory Listquery_Token
  imports Listquery_Compile
begin

text \<open>
  The opaque page token (\<^verbatim>\<open>foundation/listquery/token.go\<close>): URL-safe base64 of a compact
  JSON object holding an offset page or a keyset cursor.

  Decoding into a Go struct is modelled as \<^verbatim>\<open>encoding/json\<close> does it: an object's members
  are applied in order to the struct, a member's name is matched up to case folding, an
  unknown name is skipped, \<^verbatim>\<open>null\<close> leaves a field as it is (or makes a pointer or slice
  nil), and a member of the wrong kind makes the whole decoding fail.
\<close>

section \<open>Wire records\<close>

record keysetWire =
  KwS :: "goval list"
  KwI :: string
  KwF :: string

record tokenWire =
  TwK :: "keysetWire option"
  TwO :: int

definition empty_keysetWire :: keysetWire where
  "empty_keysetWire = \<lparr>KwS = [], KwI = [], KwF = []\<rparr>"

definition empty_tokenWire :: tokenWire where
  "empty_tokenWire = \<lparr>TwK = None, TwO = 0\<rparr>"

section \<open>Encoding\<close>

definition marshal_keysetWire :: "golib \<Rightarrow> keysetWire \<Rightarrow> json option" where
  "marshal_keysetWire L k =
     map_option (\<lambda>vs. JObj [(''s'', JArr vs), (''i'', JStr (KwI k)), (''f'', JStr (StdEncode (KwF k)))])
       (all_some (map (marshal_any L) (KwS k)))"

text \<open>Both members carry \<^verbatim>\<open>omitempty\<close>.\<close>

definition marshal_tokenWire :: "golib \<Rightarrow> tokenWire \<Rightarrow> json option" where
  "marshal_tokenWire L w =
     (let o_part = (if TwO w = 0 then [] else [(''o'', JNum (Itoa (TwO w)))]) in
      case TwK w of
        None \<Rightarrow> Some (JObj o_part)
      | Some k \<Rightarrow> map_option (\<lambda>v. JObj ((''k'', v) # o_part)) (marshal_keysetWire L k))"

definition EncodeToken :: "golib \<Rightarrow> PageToken \<Rightarrow> error + string" where
  "EncodeToken L tok =
     (let w = (case TokKeyset tok of
                 Some c \<Rightarrow> empty_tokenWire\<lparr>TwK :=
                   Some \<lparr>KwS = SortValues c, KwI = CursorID c, KwF = CursorFingerprint c\<rparr>\<rparr>
               | None \<Rightarrow> empty_tokenWire\<lparr>TwO := TokOffsetPage tok\<rparr>)
      in case marshal_tokenWire L w of
           None \<Rightarrow> Inl (AppError CodeInternal ''marshal page token'' [] (Some json_error))
         | Some raw \<Rightarrow> Inr (RawURLEncode (json_print raw)))"

section \<open>Decoding\<close>

text \<open>A \<^verbatim>\<open>[]byte\<close>: null, a base64 string, or an array of numbers up to 255.\<close>

definition unmarshal_byte :: "json \<Rightarrow> nat option" where
  "unmarshal_byte v =
     (case v of
        JNull \<Rightarrow> Some 0
      | JNum l \<Rightarrow> if l \<noteq> [] \<and> list_all is_digit l \<and> digits_val l < 256 then Some (digits_val l) else None
      | _ \<Rightarrow> None)"

definition unmarshal_bytes :: "json \<Rightarrow> string option" where
  "unmarshal_bytes v =
     (case v of
        JNull \<Rightarrow> Some []
      | JStr s \<Rightarrow> StdDecode s
      | JArr vs \<Rightarrow> map_option of_bytes (all_some (map unmarshal_byte vs))
      | _ \<Rightarrow> None)"

definition unmarshal_int32 :: "json \<Rightarrow> int \<Rightarrow> int option" where
  "unmarshal_int32 v old =
     (case v of
        JNull \<Rightarrow> Some old
      | JNum l \<Rightarrow>
          (case Atoi l of
             Some n \<Rightarrow> if MinInt32 \<le> n \<and> n \<le> MaxInt32 then Some n else None
           | None \<Rightarrow> None)
      | _ \<Rightarrow> None)"

definition keysetWire_member :: "string \<times> json \<Rightarrow> keysetWire \<Rightarrow> keysetWire option" where
  "keysetWire_member kv k =
     (case kv of (name, v) \<Rightarrow>
        if EqualFold name ''s''
        then (case v of
                JNull \<Rightarrow> Some (k\<lparr>KwS := []\<rparr>)
              | JArr vs \<Rightarrow> map_option (\<lambda>xs. k\<lparr>KwS := xs\<rparr>) (all_some (map unmarshal_any vs))
              | _ \<Rightarrow> None)
        else if EqualFold name ''i''
        then (case v of JNull \<Rightarrow> Some k | JStr s \<Rightarrow> Some (k\<lparr>KwI := s\<rparr>) | _ \<Rightarrow> None)
        else if EqualFold name ''f''
        then map_option (\<lambda>b. k\<lparr>KwF := b\<rparr>) (unmarshal_bytes v)
        else Some k)"

fun members :: "('m \<Rightarrow> 'w \<Rightarrow> 'w option) \<Rightarrow> 'm list \<Rightarrow> 'w \<Rightarrow> 'w option" where
  "members step [] w = Some w"
| "members step (kv # kvs) w =
     (case step kv w of None \<Rightarrow> None | Some w' \<Rightarrow> members step kvs w')"

definition tokenWire_member :: "string \<times> json \<Rightarrow> tokenWire \<Rightarrow> tokenWire option" where
  "tokenWire_member kv w =
     (case kv of (name, v) \<Rightarrow>
        if EqualFold name ''k''
        then (case v of
                JNull \<Rightarrow> Some (w\<lparr>TwK := None\<rparr>)
              | JObj kvs \<Rightarrow>
                  map_option (\<lambda>k. w\<lparr>TwK := Some k\<rparr>)
                    (members keysetWire_member kvs
                      (case TwK w of Some k \<Rightarrow> k | None \<Rightarrow> empty_keysetWire))
              | _ \<Rightarrow> None)
        else if EqualFold name ''o''
        then map_option (\<lambda>n. w\<lparr>TwO := n\<rparr>) (unmarshal_int32 v (TwO w))
        else Some w)"

definition unmarshal_tokenWire :: "json \<Rightarrow> tokenWire option" where
  "unmarshal_tokenWire v =
     (case v of
        JNull \<Rightarrow> Some empty_tokenWire
      | JObj kvs \<Rightarrow> members tokenWire_member kvs empty_tokenWire
      | _ \<Rightarrow> None)"

definition DecodeToken :: "string \<Rightarrow> error + PageToken" where
  "DecodeToken token =
     (if token = [] then Inr \<lparr>TokKeyset = None, TokOffsetPage = 1\<rparr>
      else (case RawURLDecode token of
        None \<Rightarrow> Inl (InvalidInput ''malformed page token'')
      | Some raw \<Rightarrow>
         (case Option.bind (json_parse raw) unmarshal_tokenWire of
            None \<Rightarrow> Inl (InvalidInput ''malformed page token'')
          | Some w \<Rightarrow>
              (case TwK w of
                 Some k \<Rightarrow> Inr \<lparr>TokKeyset = Some \<lparr>SortValues = KwS k, CursorID = KwI k,
                                 CursorFingerprint = KwF k\<rparr>, TokOffsetPage = 0\<rparr>
               | None \<Rightarrow> Inr \<lparr>TokKeyset = None, TokOffsetPage = TwO w\<rparr>))))"

section \<open>Lemmas\<close>

lemma fold_keys [simp]:
  "EqualFold ''s'' ''s''" "EqualFold ''i'' ''i''" "EqualFold ''f'' ''f''" "EqualFold ''k'' ''k''"
  "EqualFold ''o'' ''o''" "\<not> EqualFold ''i'' ''s''" "\<not> EqualFold ''f'' ''s''" "\<not> EqualFold ''f'' ''i''"
  "\<not> EqualFold ''o'' ''k''"
  by (simp_all add: EqualFold_def lower_char_def)

text \<open>A token that decodes at all decodes without a panic; a failure is an invalid input.\<close>

lemma DecodeToken_code: "DecodeToken token = Inl e \<Longrightarrow> Code (Some e) = CodeInvalidInput"
  by (auto simp: DecodeToken_def split: if_splits option.splits)

text \<open>Encoding and decoding: an offset page comes back as itself.\<close>

lemma raw_encode_nonempty: "s \<noteq> [] \<Longrightarrow> raw_encode al s \<noteq> []"
  by (cases "bytes_of s" rule: sextets.cases) (auto simp: raw_encode_def bytes_of_def)

lemma json_print_obj_nonempty: "json_print (JObj kvs) \<noteq> []"
  by simp

lemma DecodeToken_RawURL:
  assumes "printable (JObj kvs)"
  shows "DecodeToken (RawURLEncode (json_print (JObj kvs))) =
    (case members tokenWire_member kvs empty_tokenWire of
       None \<Rightarrow> Inl (InvalidInput ''malformed page token'')
     | Some w \<Rightarrow>
         (case TwK w of
            Some k \<Rightarrow> Inr \<lparr>TokKeyset = Some \<lparr>SortValues = KwS k, CursorID = KwI k,
                            CursorFingerprint = KwF k\<rparr>, TokOffsetPage = 0\<rparr>
          | None \<Rightarrow> Inr \<lparr>TokKeyset = None, TokOffsetPage = TwO w\<rparr>))"
proof -
  have "RawURLEncode (json_print (JObj kvs)) \<noteq> []"
    unfolding RawURLEncode_def by (intro raw_encode_nonempty json_print_obj_nonempty)
  then show ?thesis
    using json_parse_print [OF assms]
    by (simp add: DecodeToken_def RawURL_roundtrip unmarshal_tokenWire_def del: json_print.simps)
qed

lemma EncodeToken_offset:
  assumes "MinInt32 \<le> p" "p \<le> MaxInt32"
  obtains s where "EncodeToken L \<lparr>TokKeyset = None, TokOffsetPage = p\<rparr> = Inr s"
    "DecodeToken s = Inr \<lparr>TokKeyset = None, TokOffsetPage = p\<rparr>"
proof -
  let ?kvs = "if p = 0 then [] else [(''o'', JNum (Itoa p))]"
  have e: "EncodeToken L \<lparr>TokKeyset = None, TokOffsetPage = p\<rparr> = Inr (RawURLEncode (json_print (JObj ?kvs)))"
    by (simp add: EncodeToken_def marshal_tokenWire_def empty_tokenWire_def)
  have "Atoi (Itoa p) = Some p"
    by (rule Atoi_Itoa) (use assms in \<open>simp_all add: MinInt32_def MaxInt32_def MinInt64_def MaxInt64_def\<close>)
  then have "members tokenWire_member ?kvs empty_tokenWire = Some (empty_tokenWire\<lparr>TwO := p\<rparr>)"
    using assms by (simp add: tokenWire_member_def unmarshal_int32_def empty_tokenWire_def)
  then have "DecodeToken (RawURLEncode (json_print (JObj ?kvs))) = Inr \<lparr>TokKeyset = None, TokOffsetPage = p\<rparr>"
    by (subst DecodeToken_RawURL) (simp_all add: itoa_literal empty_tokenWire_def)
  with e show ?thesis by (rule that)
qed

text \<open>A keyset cursor comes back with its sort values as JSON decodes them.\<close>

lemma EncodeToken_keyset:
  assumes "all_some (map (marshal_any L) (SortValues c)) = Some js" "list_all printable js"
    "all_some (map unmarshal_any js) = Some vs"
  obtains s where "EncodeToken L \<lparr>TokKeyset = Some c, TokOffsetPage = p\<rparr> = Inr s"
    "DecodeToken s = Inr \<lparr>TokKeyset = Some \<lparr>SortValues = vs, CursorID = CursorID c,
       CursorFingerprint = CursorFingerprint c\<rparr>, TokOffsetPage = 0\<rparr>"
proof -
  let ?k = "JObj [(''s'', JArr js), (''i'', JStr (CursorID c)), (''f'', JStr (StdEncode (CursorFingerprint c)))]"
  have e: "EncodeToken L \<lparr>TokKeyset = Some c, TokOffsetPage = p\<rparr> = Inr (RawURLEncode (json_print (JObj [(''k'', ?k)])))"
    using assms(1) by (simp add: EncodeToken_def marshal_tokenWire_def marshal_keysetWire_def empty_tokenWire_def)
  have "members tokenWire_member [(''k'', ?k)] empty_tokenWire =
      Some (empty_tokenWire\<lparr>TwK := Some \<lparr>KwS = vs, KwI = CursorID c, KwF = CursorFingerprint c\<rparr>\<rparr>)"
    using assms(3)
    by (simp add: tokenWire_member_def keysetWire_member_def empty_tokenWire_def empty_keysetWire_def
        unmarshal_bytes_def Std_roundtrip)
  then have "DecodeToken (RawURLEncode (json_print (JObj [(''k'', ?k)]))) =
      Inr \<lparr>TokKeyset = Some \<lparr>SortValues = vs, CursorID = CursorID c,
       CursorFingerprint = CursorFingerprint c\<rparr>, TokOffsetPage = 0\<rparr>"
    using assms(2) by (subst DecodeToken_RawURL) (simp_all add: empty_tokenWire_def)
  with e show ?thesis by (rule that)
qed

section \<open>Properties\<close>

text \<open>
  Page tokens round-trip.  An offset page decodes to itself; a keyset cursor decodes to
  its id, its fingerprint and its sort values, a value \<open>v\<close> coming back as what JSON makes of
  it, \<open>unmarshal_any\<close> of \<open>marshal_any v\<close>.
\<close>

lemma token_roundtrip:
  "(MinInt32 \<le> p \<and> p \<le> MaxInt32 \<longrightarrow>
      (\<exists>s. EncodeToken L \<lparr>TokKeyset = None, TokOffsetPage = p\<rparr> = Inr s
         \<and> DecodeToken s = Inr \<lparr>TokKeyset = None, TokOffsetPage = p\<rparr>)) \<and>
   (all_some (map (marshal_any L) (SortValues c)) = Some js \<and> list_all printable js
      \<and> all_some (map unmarshal_any js) = Some vs \<longrightarrow>
      (\<exists>s. EncodeToken L \<lparr>TokKeyset = Some c, TokOffsetPage = 0\<rparr> = Inr s
         \<and> DecodeToken s = Inr \<lparr>TokKeyset = Some \<lparr>SortValues = vs, CursorID = CursorID c,
             CursorFingerprint = CursorFingerprint c\<rparr>, TokOffsetPage = 0\<rparr>))"
  using EncodeToken_offset [of p L] EncodeToken_keyset [of L c js vs 0] by metis


end
