(* ===== verification/Listquery_Page.thy ===== *)
theory Listquery_Page
  imports Listquery_Token
begin

text \<open>
  The pagination template (\<^verbatim>\<open>foundation/listquery/run.go\<close>, \<^verbatim>\<open>skipcount.go\<close>, \<^verbatim>\<open>suggest.go\<close>):
  \<open>Run\<close> decodes the page token and serves an offset page or a keyset page through a
  datastore \<^verbatim>\<open>ListRunner\<close>.

  The runner is third-party (the datastore and its ORM adapter): it is the record of its
  two methods, an argument of the definitions.  \<open>runner_contract\<close> states what its interface
  documents.  A context is its skip-count flag.  \<^verbatim>\<open>Reader.MapErr\<close> may be a nil function; calling
  it then panics, so \<open>Run\<close> has an outcome.  Go's \<^verbatim>\<open>int\<close> is 64 bits wide; the additions and
  multiplications on a page size wrap.
\<close>

section \<open>Contexts, runners and readers\<close>

record Context =
  skip_count_value :: "bool option"

definition WithSkipCount :: "Context \<Rightarrow> Context" where
  "WithSkipCount ctx = ctx\<lparr>skip_count_value := Some True\<rparr>"

definition CountSkipped :: "Context \<Rightarrow> bool" where
  "CountSkipped ctx = (case skip_count_value ctx of Some b \<Rightarrow> b | None \<Rightarrow> False)"

record 't ListRunner =
  ListRows :: "Context \<Rightarrow> ListSpec \<Rightarrow> error + 't list"
  CountRows :: "Context \<Rightarrow> Filter list \<Rightarrow> int \<Rightarrow> error + int"

definition DefaultCountCap :: int where "DefaultCountCap = 10000"

record Bounds =
  DefaultSize :: int
  MaxSize :: int
  CountCap :: int

definition countCap :: "Bounds \<Rightarrow> int" where
  "countCap b = (if CountCap b > 0 then CountCap b else DefaultCountCap)"

record 't Keyset =
  RowValue :: "'t \<Rightarrow> string \<Rightarrow> goval option"
  ParseID :: "(string \<Rightarrow> error + goval) option"
  TimestampCols :: "string set"

record ('t, 'd) Reader =
  Runner :: "'t ListRunner"
  UserFilter :: Filter
  ToDomain :: "'t \<Rightarrow> error + 'd"
  Resolve :: ColumnFn
  ResolveJoin :: "JoinFn option"
  ResolveOrdinal :: "OrdinalFn option"
  ResolveDerived :: "DerivedFn option"
  MapErr :: "(error \<Rightarrow> error) option"
  ReaderKeyset :: "'t Keyset option"
  Tiebreaker :: string
  ReaderSort :: "OrderField list"
  ReaderBounds :: Bounds
  ReaderCount :: bool

section \<open>Helpers\<close>

definition defaultOrdering :: "('t, 'd) Reader \<Rightarrow> bool" where
  "defaultOrdering r = (ReaderKeyset r \<noteq> None \<and> ReaderSort r = [])"

definition pageLimit :: "PageRequest \<Rightarrow> Bounds \<Rightarrow> int" where
  "pageLimit page b =
     (let l0 = ReqPageSize page;
          l1 = (if l0 \<le> 0 then (if DefaultSize b \<le> 0 then 10 else DefaultSize b) else l0)
      in if MaxSize b > 0 \<and> l1 > MaxSize b then MaxSize b else l1)"

definition orderFields :: "KeysetColumn list \<Rightarrow> OrderField list" where
  "orderFields cols =
     map (\<lambda>c. \<lparr>SortField = KColumn c, SortJoin = KJoin c, SortDerived = KDerived c,
               SortOrdinal = KOrdinal c, SortDesc = KDesc c\<rparr>) cols"

definition nonEmpty :: "Filter \<Rightarrow> Filter list" where
  "nonEmpty f = (if IsEmpty f then [] else [f])"

definition unixMicroToTime :: "goval \<Rightarrow> error + goval" where
  "unixMicroToTime v =
     (case v of
        VFloat n \<Rightarrow> Inr (fromUnixMicro (float_to_int64 n))
      | VInt n \<Rightarrow> Inr (fromUnixMicro n)
      | _ \<Rightarrow> Inl (InvalidInput ''keyset timestamp cursor value is not numeric''))"

definition mapAll :: "'t list \<Rightarrow> ('t \<Rightarrow> error + 'd) \<Rightarrow> error + 'd list" where
  "mapAll rows toDomain = map_result toDomain rows"

definition parseID :: "'t Keyset \<Rightarrow> string \<Rightarrow> error + goval" where
  "parseID ks ident =
     (case ParseID ks of
        None \<Rightarrow> Inr (VStr ident)
      | Some p \<Rightarrow>
          (case p ident of
             Inl e \<Rightarrow> Inl (InvalidInput ''keyset cursor id is malformed'')
           | Inr v \<Rightarrow> Inr v))"

text \<open>\<open>svs\<close> are the sort values not consumed yet.\<close>

fun cursor_loop ::
  "'t Keyset \<Rightarrow> string \<Rightarrow> KeysetColumn list \<Rightarrow> goval list \<Rightarrow> error + goval list" where
  "cursor_loop ks ident [] svs =
     (if svs \<noteq> [] then Inl (InvalidInput ''keyset cursor has too many sort values for the sort'')
      else Inr [])"
| "cursor_loop ks ident (c # cs) svs =
     (if KColumn c = KeysetIDColumn
      then bind_result (parseID ks ident) (\<lambda>v.
             bind_result (cursor_loop ks ident cs svs) (\<lambda>vs. Inr (v # vs)))
      else (case svs of
        [] \<Rightarrow> Inl (InvalidInput ''keyset cursor has too few sort values for the sort'')
      | v # svs' \<Rightarrow>
          bind_result (if KColumn c \<in> TimestampCols ks then unixMicroToTime v else Inr v) (\<lambda>v'.
            bind_result (cursor_loop ks ident cs svs') (\<lambda>vs. Inr (v' # vs)))))"

definition cursorValues :: "'t Keyset \<Rightarrow> KeysetColumn list \<Rightarrow> KeysetCursor \<Rightarrow> error + goval list" where
  "cursorValues ks cols cur = cursor_loop ks (CursorID cur) cols (SortValues cur)"

text \<open>The loop of \<^verbatim>\<open>mintKeysetCursor\<close>: the sort values so far and the id.\<close>

fun mint_loop ::
  "'t Keyset \<Rightarrow> 't \<Rightarrow> KeysetColumn list \<Rightarrow> goval list \<times> string \<Rightarrow> error + goval list \<times> string" where
  "mint_loop ks row [] acc = Inr acc"
| "mint_loop ks row (c # cs) acc =
     (case RowValue ks row (KColumn c) of
        None \<Rightarrow> Inl (Internal (''keyset cursor cannot extract column '' @ KColumn c))
      | Some v \<Rightarrow>
          if KColumn c = KeysetIDColumn
          then (case v of
                  VStr s \<Rightarrow> mint_loop ks row cs (fst acc, s)
                | _ \<Rightarrow> Inl (Internal ''keyset id column value is not a string''))
          else if KColumn c \<in> TimestampCols ks
          then (case v of
                  VTime t z \<Rightarrow> mint_loop ks row cs (fst acc @ [VInt (UnixMicro t)], snd acc)
                | _ \<Rightarrow> Inl (Internal ''keyset timestamp column value is not a time.Time''))
          else mint_loop ks row cs (fst acc @ [v], snd acc))"

definition mintKeysetCursor ::
  "golib \<Rightarrow> 't Keyset \<Rightarrow> KeysetColumn list \<Rightarrow> 't \<Rightarrow> OrderField list \<Rightarrow> Filter \<Rightarrow> error + string" where
  "mintKeysetCursor L ks cols lastRow sorts f =
     bind_result (mint_loop ks lastRow cols ([], [])) (\<lambda>(sortValues, ident).
       EncodeToken L \<lparr>TokKeyset = Some \<lparr>SortValues = sortValues, CursorID = ident,
         CursorFingerprint = Fingerprint L sorts f\<rparr>, TokOffsetPage = 0\<rparr>)"

definition offsetNextCursor ::
  "golib \<Rightarrow> bool \<Rightarrow> int \<Rightarrow> KeysetColumn list \<Rightarrow> 't list \<Rightarrow> ('t, 'd) Reader \<Rightarrow> error + string" where
  "offsetNextCursor L hasMore pageNum cols rows r =
     (if \<not> hasMore then Inr []
      else (case ReaderKeyset r of
              Some ks \<Rightarrow>
                if defaultOrdering r \<and> rows \<noteq> []
                then mintKeysetCursor L ks cols (last rows) (ReaderSort r) (UserFilter r)
                else EncodeToken L \<lparr>TokKeyset = None, TokOffsetPage = int32 (pageNum + 1)\<rparr>
            | None \<Rightarrow> EncodeToken L \<lparr>TokKeyset = None, TokOffsetPage = int32 (pageNum + 1)\<rparr>))"

section \<open>The two arms\<close>

text \<open>\<^verbatim>\<open>r.MapErr(err)\<close>: a nil function panics.\<close>

definition map_err :: "('t, 'd) Reader \<Rightarrow> error \<Rightarrow> (error + 'x) outcome" where
  "map_err r e =
     (case MapErr r of
        None \<Rightarrow> Panic ''invalid memory address or nil pointer dereference''
      | Some g \<Rightarrow> Return (Inl (g e)))"

definition boundedTotal ::
  "Context \<Rightarrow> Filter list \<Rightarrow> ('t, 'd) Reader \<Rightarrow> (error + int \<times> bool) outcome" where
  "boundedTotal ctx filters r =
     (let capN = countCap (ReaderBounds r) in
      case CountRows (Runner r) ctx filters (int64 (capN + 1)) of
        Inl e \<Rightarrow> map_err r e
      | Inr n \<Rightarrow> Return (Inr (if n > capN then (capN, True) else (n, False))))"

text \<open>Everything of \<^verbatim>\<open>offsetPage\<close> after the rows and the total are known.\<close>

definition offset_result ::
  "golib \<Rightarrow> int \<Rightarrow> KeysetColumn list \<Rightarrow> int \<Rightarrow> ('t, 'd) Reader \<Rightarrow> 't list \<Rightarrow> int \<times> bool \<Rightarrow>
   error + 'd Page" where
  "offset_result L pageNum cols limit r rows0 tot =
     (let hasMore = int (length rows0) > limit;
          rows = (if hasMore then take (nat limit) rows0 else rows0)
      in bind_result (offsetNextCursor L hasMore pageNum cols rows r) (\<lambda>nxt.
         bind_result (mapAll rows (ToDomain r)) (\<lambda>items.
         Inr \<lparr>NextCursor = nxt, Items = items, Total = fst tot, PageSize = limit,
              PageNumber = pageNum, TotalIsEstimate = snd tot\<rparr>)))"

definition offsetPage ::
  "golib \<Rightarrow> Context \<Rightarrow> int \<Rightarrow> KeysetColumn list \<Rightarrow> OrderField list \<Rightarrow> Filter \<Rightarrow> int \<Rightarrow> ('t, 'd) Reader \<Rightarrow>
   (error + 'd Page) outcome" where
  "offsetPage L ctx pageNum0 cols order userF limit r =
     (let pageNum = (if pageNum0 < 1 then 1 else pageNum0);
          filters = nonEmpty userF
      in case ListRows (Runner r) ctx
                \<lparr>Filters = filters, Order = order, Limit = int64 (limit + 1),
                 Offset = int64 ((pageNum - 1) * limit)\<rparr> of
           Inl e \<Rightarrow> map_err r e
         | Inr rows0 \<Rightarrow>
             if ReaderCount r \<and> \<not> CountSkipped ctx
             then (case boundedTotal ctx filters r of
                     Panic p \<Rightarrow> Panic p
                   | Return (Inl e) \<Rightarrow> Return (Inl e)
                   | Return (Inr tot) \<Rightarrow> Return (offset_result L pageNum cols limit r rows0 tot))
             else Return (offset_result L pageNum cols limit r rows0 (0, False)))"

text \<open>Everything of \<^verbatim>\<open>keysetPage\<close> after the rows are known.\<close>

definition keyset_result ::
  "golib \<Rightarrow> 't Keyset \<Rightarrow> KeysetColumn list \<Rightarrow> int \<Rightarrow> ('t, 'd) Reader \<Rightarrow> 't list \<Rightarrow> error + 'd Page" where
  "keyset_result L ks cols limit r rows0 =
     (let hasMore = int (length rows0) > limit;
          rows = (if hasMore then take (nat limit) rows0 else rows0)
      in bind_result
           (if hasMore \<and> rows \<noteq> []
            then mintKeysetCursor L ks cols (last rows) (ReaderSort r) (UserFilter r) else Inr [])
           (\<lambda>nxt. bind_result (mapAll rows (ToDomain r)) (\<lambda>items.
              Inr \<lparr>NextCursor = nxt, Items = items, Total = 0, PageSize = limit,
                   PageNumber = 0, TotalIsEstimate = False\<rparr>)))"

definition keysetPage ::
  "golib \<Rightarrow> Context \<Rightarrow> KeysetCursor \<Rightarrow> 't Keyset \<Rightarrow> KeysetColumn list \<Rightarrow> OrderField list \<Rightarrow> Filter \<Rightarrow> int \<Rightarrow>
   ('t, 'd) Reader \<Rightarrow> (error + 'd Page) outcome" where
  "keysetPage L ctx cur ks cols order userF limit r =
     (if CursorFingerprint cur \<noteq> Fingerprint L (ReaderSort r) (UserFilter r)
      then Return (Inl (InvalidInput
             ''page token does not match the current query (sort or filter changed)''))
      else (case cursorValues ks cols cur of
        Inl e \<Rightarrow> Return (Inl e)
      | Inr values \<Rightarrow>
         (case SeekFilter cols values of
            Panic p \<Rightarrow> Panic p
          | Return seek \<Rightarrow>
             (case ListRows (Runner r) ctx
                     \<lparr>Filters = nonEmpty userF @ [seek], Order = order, Limit = int64 (limit + 1),
                      Offset = 0\<rparr> of
                Inl e \<Rightarrow> map_err r e
              | Inr rows0 \<Rightarrow> Return (keyset_result L ks cols limit r rows0)))))"

definition Run ::
  "golib \<Rightarrow> Context \<Rightarrow> PageRequest \<Rightarrow> ('t, 'd) Reader \<Rightarrow> (error + 'd Page) outcome" where
  "Run L ctx page r =
     (case DecodeToken (Cursor page) of
        Inl e \<Rightarrow> Return (Inl e)
      | Inr tok \<Rightarrow>
          let cols = KeysetColumns (Resolve r) (ResolveJoin r) (ResolveOrdinal r) (ResolveDerived r)
                       (ReaderSort r) (Tiebreaker r);
              order = orderFields cols;
              userF = ResolveFilter (Resolve r) (ResolveJoin r) (UserFilter r);
              limit = pageLimit page (ReaderBounds r)
          in case TokKeyset tok of
               Some cur \<Rightarrow>
                 (case ReaderKeyset r of
                    None \<Rightarrow> Return (Inl (InvalidInput
                              ''keyset pagination is not supported for this resource''))
                  | Some ks \<Rightarrow>
                      if \<not> defaultOrdering r
                      then Return (Inl (InvalidInput
                             (''keyset (infinite-scroll) pagination is only available for the default ordering; '' @
                              ''a custom sort uses page navigation'')))
                      else keysetPage L ctx cur ks cols order userF limit r)
             | None \<Rightarrow> offsetPage L ctx (TokOffsetPage tok) cols order userF limit r)"

section \<open>Suggestion pages\<close>

definition SuggestFallbackLimit :: int where "SuggestFallbackLimit = 10"

definition SuggestPageNumber :: "string \<Rightarrow> int" where
  "SuggestPageNumber token =
     (if token = [] then 1
      else (case Atoi token of Some n \<Rightarrow> if n > 1 then n else 1 | None \<Rightarrow> 1))"

definition suggest_limit :: "int \<Rightarrow> int" where
  "suggest_limit limit = (if limit \<le> 0 then SuggestFallbackLimit else limit)"

definition SuggestPage :: "string list \<Rightarrow> int \<Rightarrow> int \<Rightarrow> string Page" where
  "SuggestPage values limit0 pageNum =
     (let limit = suggest_limit limit0;
          more = int (length values) > limit
      in \<lparr>NextCursor = (if more then Itoa (int64 (pageNum + 1)) else []),
          Items = (if more then take (nat limit) values else values),
          Total = 0, PageSize = limit, PageNumber = pageNum, TotalIsEstimate = False\<rparr>)"

text \<open>The deduplicating merge loop.\<close>

fun merge_seen :: "string list \<Rightarrow> string set \<Rightarrow> string list" where
  "merge_seen [] seen = []"
| "merge_seen (v # vs) seen =
     (if v \<in> seen then merge_seen vs seen else v # merge_seen vs (insert v seen))"

definition MergeDistinct :: "string list list \<Rightarrow> int \<Rightarrow> int \<Rightarrow> string Page outcome" where
  "MergeDistinct columns limit0 pageNum =
     (let limit = suggest_limit limit0;
          merged = sort (merge_seen (concat columns) {});
          off = int64 ((pageNum - 1) * limit);
          end0 = int64 (off + limit + 1);
          end1 = (if end0 > int (length merged) then int (length merged) else end0)
      in if off \<ge> int (length merged) then Return (SuggestPage [] limit pageNum)
         else if off < 0 \<or> end1 < off then Panic ''slice bounds out of range''
         else Return (SuggestPage (take (nat (end1 - off)) (drop (nat off) merged)) limit pageNum))"

text \<open>
  The order an ORDER BY over plain columns gives: \<open>a\<close> comes strictly before \<open>b\<close>.
\<close>

fun order_before ::
  "(goval \<Rightarrow> goval \<Rightarrow> bool) \<Rightarrow> ('t \<Rightarrow> string \<Rightarrow> goval) \<Rightarrow> OrderField list \<Rightarrow> 't \<Rightarrow> 't \<Rightarrow> bool" where
  "order_before lt key [] a b = False"
| "order_before lt key (ofd # ofs) a b =
     ((if SortDesc ofd then lt (key b (SortField ofd)) (key a (SortField ofd))
       else lt (key a (SortField ofd)) (key b (SortField ofd)))
      \<or> (key a (SortField ofd) = key b (SortField ofd) \<and> order_before lt key ofs a b))"

definition matching ::
  "(string \<Rightarrow> FilterOperator \<Rightarrow> goval \<Rightarrow> 't \<Rightarrow> bool) \<Rightarrow>
   (JoinTarget \<Rightarrow> FilterOperator \<Rightarrow> goval \<Rightarrow> 't \<Rightarrow> bool) \<Rightarrow> Filter list \<Rightarrow> 't list \<Rightarrow> 't list" where
  "matching col join fs rows = filter (\<lambda>r. list_all (\<lambda>f. filter_holds col join f r) fs) rows"

text \<open>
  What \<^verbatim>\<open>ListRunner\<close> documents, over a fixed table \<open>rows\<close>: \<^verbatim>\<open>List\<close> returns the window of
  the matching rows in the order asked for, \<^verbatim>\<open>Count\<close> the number of matching rows, bounded.
\<close>

definition runner_contract ::
  "(string \<Rightarrow> FilterOperator \<Rightarrow> goval \<Rightarrow> 't \<Rightarrow> bool) \<Rightarrow>
   (JoinTarget \<Rightarrow> FilterOperator \<Rightarrow> goval \<Rightarrow> 't \<Rightarrow> bool) \<Rightarrow>
   (goval \<Rightarrow> goval \<Rightarrow> bool) \<Rightarrow> ('t \<Rightarrow> string \<Rightarrow> goval) \<Rightarrow> 't list \<Rightarrow> 't ListRunner \<Rightarrow> bool" where
  "runner_contract col join lt key rows R =
     ((\<forall>ctx spec. 0 \<le> Limit spec \<longrightarrow> 0 \<le> Offset spec \<longrightarrow>
        (\<exists>ys. distinct ys \<and> set ys = set (matching col join (Filters spec) rows)
          \<and> sorted_wrt (\<lambda>a b. \<not> order_before lt key (Order spec) b a) ys
          \<and> ListRows R ctx spec = Inr (take (nat (Limit spec)) (drop (nat (Offset spec)) ys))))
      \<and> (\<forall>ctx fs bound. 1 \<le> bound \<longrightarrow>
           CountRows R ctx fs bound = Inr (min bound (int (length (matching col join fs rows))))))"

text \<open>The effective tiebreaker, and the keyset columns of the default order.\<close>

definition tie_column :: "('t, 'd) Reader \<Rightarrow> string" where
  "tie_column r = (if Tiebreaker r = [] then tiebreakerCreatedAt else Tiebreaker r)"

definition default_columns :: "('t, 'd) Reader \<Rightarrow> KeysetColumn list" where
  "default_columns r =
     (if tie_column r = KeysetIDColumn then [plain_column KeysetIDColumn True]
      else [plain_column (tie_column r) True, plain_column KeysetIDColumn True])"

text \<open>
  A row whose cursor survives the token: its id is a text that \<^verbatim>\<open>ParseID\<close> maps to the
  stored id, and its tiebreaker is a timestamp of whole microseconds, small enough to be
  exact as a float64.
\<close>

definition cursor_ok ::
  "('t \<Rightarrow> string \<Rightarrow> goval) \<Rightarrow> 't Keyset \<Rightarrow> string \<Rightarrow> 't \<Rightarrow> bool" where
  "cursor_ok key ks tie row =
     ((case RowValue ks row KeysetIDColumn of
         Some (VStr s) \<Rightarrow> parseID ks s = Inr (key row KeysetIDColumn)
       | _ \<Rightarrow> False)
      \<and> (tie \<noteq> KeysetIDColumn \<longrightarrow>
          tie \<in> TimestampCols ks
          \<and> (case RowValue ks row tie of
               Some (VTime t z) \<Rightarrow>
                 key row tie = VTime t 0 \<and> t mod 1000 = 0 \<and> \<bar>t div 1000\<bar> < 2 ^ 53
             | _ \<Rightarrow> False)))"

text \<open>A client that follows the next cursor until there is none, up to \<open>n\<close> pages.\<close>

fun scroll :: "nat \<Rightarrow> golib \<Rightarrow> Context \<Rightarrow> PageRequest \<Rightarrow> ('t, 'd) Reader \<Rightarrow> 'd list option" where
  "scroll 0 L ctx page r = None"
| "scroll (Suc n) L ctx page r =
     (case Run L ctx page r of
        Return (Inr p) \<Rightarrow>
          if NextCursor p = [] then Some (Items p)
          else map_option (\<lambda>rest. Items p @ rest) (scroll n L ctx (page\<lparr>Cursor := NextCursor p\<rparr>) r)
      | _ \<Rightarrow> None)"

text \<open>
  The setting of an infinite scroll: a keyset-wired reader on its default order over a
  fixed table, whose datastore honours its contract.
\<close>

definition scroll_setting ::
  "(string \<Rightarrow> FilterOperator \<Rightarrow> goval \<Rightarrow> 't \<Rightarrow> bool) \<Rightarrow>
   (JoinTarget \<Rightarrow> FilterOperator \<Rightarrow> goval \<Rightarrow> 't \<Rightarrow> bool) \<Rightarrow>
   (goval \<Rightarrow> goval \<Rightarrow> bool) \<Rightarrow> ('t \<Rightarrow> string \<Rightarrow> goval) \<Rightarrow> 't list \<Rightarrow> 't Keyset \<Rightarrow> ('t, 'd) Reader \<Rightarrow> bool" where
  "scroll_setting col join lt key rows ks r =
     (ReaderKeyset r = Some ks \<and> ReaderSort r = [] \<and> \<not> ReaderCount r
      \<and> runner_contract col join lt key rows (Runner r)
      \<and> (\<forall>c v row. col c OpGt v row = lt v (key row c) \<and> col c OpLt v row = lt (key row c) v
          \<and> col c OpEq v row = (key row c = v))
      \<and> irreflp lt \<and> transp lt
      \<and> (\<forall>c \<in> {tie_column r, KeysetIDColumn}. \<forall>a \<in> set rows. \<forall>b \<in> set rows.
            key a c = key b c \<or> lt (key a c) (key b c) \<or> lt (key b c) (key a c))
      \<and> (\<forall>a \<in> set rows. \<forall>b \<in> set rows. key a KeysetIDColumn = key b KeysetIDColumn \<longrightarrow> a = b)
      \<and> (\<forall>row \<in> set rows. cursor_ok key ks (tie_column r) row))"

text \<open>One page of an infinite scroll, given the rows that remain.\<close>

definition rest_page :: "('t \<Rightarrow> 'd) \<Rightarrow> int \<Rightarrow> int \<Rightarrow> string \<Rightarrow> 't list \<Rightarrow> 'd Page" where
  "rest_page dm limit num nxt zs =
     \<lparr>NextCursor = nxt, Items = map dm (take (nat limit) zs), Total = 0, PageSize = limit,
      PageNumber = num, TotalIsEstimate = False\<rparr>"

text \<open>The rows of an infinite scroll, in order.\<close>

definition scroll_rows ::
  "(string \<Rightarrow> FilterOperator \<Rightarrow> goval \<Rightarrow> 't \<Rightarrow> bool) \<Rightarrow>
   (JoinTarget \<Rightarrow> FilterOperator \<Rightarrow> goval \<Rightarrow> 't \<Rightarrow> bool) \<Rightarrow>
   (goval \<Rightarrow> goval \<Rightarrow> bool) \<Rightarrow> ('t \<Rightarrow> string \<Rightarrow> goval) \<Rightarrow> 't list \<Rightarrow> ('t, 'd) Reader \<Rightarrow> 't list \<Rightarrow> bool" where
  "scroll_rows col join lt key rows r ys =
     (distinct ys
      \<and> set ys = {row \<in> set rows.
           filter_holds col join (ResolveFilter (Resolve r) (ResolveJoin r) (UserFilter r)) row}
      \<and> sorted_wrt (order_before lt key (orderFields (default_columns r))) ys)"

section \<open>Lemmas\<close>

lemma order_before_irrefl: "irreflp lt \<Longrightarrow> irreflp (order_before lt key ofs)"
proof (rule irreflpI)
  fix a
  assume "irreflp lt"
  then show "\<not> order_before lt key ofs a a" by (induction ofs) (auto dest: irreflpD)
qed

lemma order_before_trans: "transp lt \<Longrightarrow> transp (order_before lt key ofs)"
proof (rule transpI)
  fix a b c
  assume "transp lt"
  then show "order_before lt key ofs a b \<Longrightarrow> order_before lt key ofs b c \<Longrightarrow> order_before lt key ofs a c"
    by (induction ofs) (auto split: if_splits dest: transpD)
qed

lemma order_before_total:
  assumes "\<And>ofd. ofd \<in> set ofs \<Longrightarrow>
      key a (SortField ofd) \<noteq> key b (SortField ofd) \<Longrightarrow>
      lt (key a (SortField ofd)) (key b (SortField ofd)) \<or> lt (key b (SortField ofd)) (key a (SortField ofd))"
    and "ofd \<in> set ofs" "key a (SortField ofd) \<noteq> key b (SortField ofd)"
  shows "order_before lt key ofs a b \<or> order_before lt key ofs b a"
  using assms
proof (induction ofs)
  case (Cons o1 ofs)
  show ?case
  proof (cases "key a (SortField o1) = key b (SortField o1)")
    case True
    with Cons show ?thesis by auto
  next
    case False
    with Cons.prems(1) [of o1] show ?thesis by auto
  qed
qed simp

lemma lex_after_order:
  "lex_after lt key cols (map (\<lambda>c. key a (KColumn c)) cols) b = order_before lt key (orderFields cols) a b"
  by (induction cols) (auto simp: orderFields_def)

lemma KeysetColumns_default_order:
  "ReaderSort r = [] \<Longrightarrow>
   KeysetColumns rs jo od dv (ReaderSort r) (Tiebreaker r) = default_columns r"
  by (simp add: KeysetColumns_default default_columns_def tie_column_def Let_def)

lemma default_columns_fields:
  "\<exists>ofd \<in> set (orderFields (default_columns r)). SortField ofd = KeysetIDColumn"
  "ofd \<in> set (orderFields (default_columns r)) \<Longrightarrow> SortField ofd \<in> {tie_column r, KeysetIDColumn}"
  "\<forall>c \<in> set (default_columns r). KColumn c \<noteq> []" "default_columns r \<noteq> []"
proof -
  have "tie_column r \<noteq> []" "KeysetIDColumn \<noteq> []"
    by (simp_all add: tie_column_def tiebreakerCreatedAt_def KeysetIDColumn_def tiebreakerID_def)
  then show "\<exists>ofd \<in> set (orderFields (default_columns r)). SortField ofd = KeysetIDColumn"
    "ofd \<in> set (orderFields (default_columns r)) \<Longrightarrow> SortField ofd \<in> {tie_column r, KeysetIDColumn}"
    "\<forall>c \<in> set (default_columns r). KColumn c \<noteq> []" "default_columns r \<noteq> []"
    by (auto simp: default_columns_def orderFields_def plain_column_def split: if_splits)
qed

text \<open>A minted cursor decodes to the row's own keyset values.\<close>

lemma mint_default:
  assumes "cursor_ok key ks (tie_column r) row"
  obtains s cur where "mintKeysetCursor L ks (default_columns r) row sorts f = Inr s" "s \<noteq> []"
    "DecodeToken s = Inr \<lparr>TokKeyset = Some cur, TokOffsetPage = 0\<rparr>"
    "CursorFingerprint cur = Fingerprint L sorts f"
    "cursorValues ks (default_columns r) cur = Inr (map (\<lambda>c. key row (KColumn c)) (default_columns r))"
proof -
  obtain i where i: "RowValue ks row KeysetIDColumn = Some (VStr i)" "parseID ks i = Inr (key row KeysetIDColumn)"
    using assms by (auto simp: cursor_ok_def split: option.splits goval.splits)
  define fp where "fp = Fingerprint L sorts f"
  show ?thesis
  proof (cases "tie_column r = KeysetIDColumn")
    case True
    let ?c = "\<lparr>SortValues = [], CursorID = i, CursorFingerprint = fp\<rparr>"
    obtain s where s: "EncodeToken L \<lparr>TokKeyset = Some ?c, TokOffsetPage = 0\<rparr> = Inr s"
      "DecodeToken s = Inr \<lparr>TokKeyset = Some ?c, TokOffsetPage = 0\<rparr>"
      using EncodeToken_keyset [of L ?c "[]" "[]" 0] by auto
    have "s \<noteq> []" using s(2) by (auto simp: DecodeToken_def)
    show ?thesis
      by (rule that [of s ?c]) (use True i s \<open>s \<noteq> []\<close> in \<open>simp_all add: mintKeysetCursor_def fp_def
        default_columns_def plain_column_def cursorValues_def\<close>)
  next
    case False
    then obtain t z where t: "tie_column r \<in> TimestampCols ks" "RowValue ks row (tie_column r) = Some (VTime t z)"
      "key row (tie_column r) = VTime t 0" "t mod 1000 = 0" "\<bar>t div 1000\<bar> < 2 ^ 53"
      using assms by (auto simp: cursor_ok_def split: option.splits goval.splits)
    obtain w where w: "ParseFloat (Itoa (UnixMicro t)) = Some w" "float_to_int64 w = UnixMicro t"
      using float_int_exact [of "UnixMicro t"] t(5) by (auto simp: UnixMicro_def)
    let ?c = "\<lparr>SortValues = [VInt (UnixMicro t)], CursorID = i, CursorFingerprint = fp\<rparr>"
    let ?d = "\<lparr>SortValues = [VFloat w], CursorID = i, CursorFingerprint = fp\<rparr>"
    obtain s where s: "EncodeToken L \<lparr>TokKeyset = Some ?c, TokOffsetPage = 0\<rparr> = Inr s"
      "DecodeToken s = Inr \<lparr>TokKeyset = Some ?d, TokOffsetPage = 0\<rparr>"
      using EncodeToken_keyset [of L ?c "[JNum (Itoa (UnixMicro t))]" "[VFloat w]" 0] w(1) itoa_literal by auto
    have "s \<noteq> []" using s(2) by (auto simp: DecodeToken_def)
    have inv: "UnixMicro t * 1000 = t" using t(4) div_mult_mod_eq [of t 1000] by (simp add: UnixMicro_def)
    show ?thesis
      by (rule that [of s ?d]) (use False i t w s inv \<open>s \<noteq> []\<close> in \<open>simp_all add: mintKeysetCursor_def fp_def
        default_columns_def plain_column_def cursorValues_def unixMicroToTime_def fromUnixMicro_def\<close>)
  qed
qed

lemma pageLimit_pos: "0 < pageLimit page b"
  by (auto simp: pageLimit_def Let_def)

lemma matching_nonEmpty: "set (matching col join (nonEmpty f @ fs) rows) =
    {row \<in> set rows. filter_holds col join f row \<and> list_all (\<lambda>f. filter_holds col join f row) fs}"
  by (cases f) (auto simp: matching_def nonEmpty_def)

lemma runner_listE:
  assumes "runner_contract col join lt key rows R" "0 \<le> Limit spec" "0 \<le> Offset spec"
  obtains ys where "distinct ys" "set ys = set (matching col join (Filters spec) rows)"
    "sorted_wrt (\<lambda>a b. \<not> order_before lt key (Order spec) b a) ys"
    "ListRows R ctx spec = Inr (take (nat (Limit spec)) (drop (nat (Offset spec)) ys))"
  using assms unfolding runner_contract_def by blast

lemma scroll_settingD:
  assumes "scroll_setting col join lt key rows ks r"
  shows "ReaderKeyset r = Some ks" "ReaderSort r = []" "\<not> ReaderCount r"
    "runner_contract col join lt key rows (Runner r)"
    "\<And>c v row. col c OpGt v row = lt v (key row c)" "\<And>c v row. col c OpLt v row = lt (key row c) v"
    "\<And>c v row. col c OpEq v row = (key row c = v)"
    "irreflp lt" "transp lt"
    "\<And>c a b. c \<in> {tie_column r, KeysetIDColumn} \<Longrightarrow> a \<in> set rows \<Longrightarrow> b \<in> set rows \<Longrightarrow>
      key a c \<noteq> key b c \<Longrightarrow> lt (key a c) (key b c) \<or> lt (key b c) (key a c)"
    "\<And>a b. a \<in> set rows \<Longrightarrow> b \<in> set rows \<Longrightarrow> key a KeysetIDColumn = key b KeysetIDColumn \<Longrightarrow> a = b"
    "\<And>row. row \<in> set rows \<Longrightarrow> cursor_ok key ks (tie_column r) row"
  using assms unfolding scroll_setting_def by - (elim conjE; blast)+

lemma mapAll_total: "(\<And>x. x \<in> set xs \<Longrightarrow> f x = Inr (dm x)) \<Longrightarrow> mapAll xs f = Inr (map dm xs)"
  by (simp add: mapAll_def map_result_total)

lemma page_rows:
  assumes "0 < limit" "rows0 = take (nat (limit + 1)) zs"
  shows "(int (length rows0) > limit) = (int (length zs) > limit)"
    "(if int (length rows0) > limit then take (nat limit) rows0 else rows0) = take (nat limit) zs"
proof -
  have n: "nat (limit + 1) = Suc (nat limit)" using assms(1) by simp
  show "(int (length rows0) > limit) = (int (length zs) > limit)"
    unfolding assms(2) n using assms(1) by auto
  show "(if int (length rows0) > limit then take (nat limit) rows0 else rows0) = take (nat limit) zs"
    unfolding assms(2) n using assms(1) by (auto simp: min_def)
qed

lemma keyset_result_rest:
  assumes "0 < limit" "\<And>x. x \<in> set zs \<Longrightarrow> ToDomain r x = Inr (dm x)"
    "int (length zs) > limit \<Longrightarrow>
      mintKeysetCursor L ks cols (zs ! (nat limit - 1)) (ReaderSort r) (UserFilter r) = Inr nxt"
    "\<not> int (length zs) > limit \<Longrightarrow> nxt = []"
  shows "keyset_result L ks cols limit r (take (nat (limit + 1)) zs) = Inr (rest_page dm limit 0 nxt zs)"
proof -
  note p = page_rows [OF assms(1) refl, of zs]
  have "mapAll (take (nat limit) zs) (ToDomain r) = Inr (map dm (take (nat limit) zs))"
    by (rule mapAll_total) (use assms(2) in \<open>auto dest: in_set_takeD\<close>)
  moreover have "int (length zs) > limit \<Longrightarrow> last (take (nat limit) zs) = zs ! (nat limit - 1) \<and> take (nat limit) zs \<noteq> []"
    using assms(1) last_take_nth [of "nat limit" zs] by simp
  ultimately show ?thesis
    unfolding keyset_result_def Let_def p using assms(3,4) by (auto simp: rest_page_def)
qed

lemma offset_result_rest:
  assumes "0 < limit" "\<And>x. x \<in> set zs \<Longrightarrow> ToDomain r x = Inr (dm x)"
    "int (length zs) > limit \<Longrightarrow>
      mintKeysetCursor L ks cols (zs ! (nat limit - 1)) (ReaderSort r) (UserFilter r) = Inr nxt"
    "\<not> int (length zs) > limit \<Longrightarrow> nxt = []"
    "ReaderKeyset r = Some ks" "ReaderSort r = []"
  shows "offset_result L num cols limit r (take (nat (limit + 1)) zs) (0, False) = Inr (rest_page dm limit num nxt zs)"
proof -
  note p = page_rows [OF assms(1) refl, of zs]
  have "mapAll (take (nat limit) zs) (ToDomain r) = Inr (map dm (take (nat limit) zs))"
    by (rule mapAll_total) (use assms(2) in \<open>auto dest: in_set_takeD\<close>)
  moreover have "int (length zs) > limit \<Longrightarrow> last (take (nat limit) zs) = zs ! (nat limit - 1) \<and> take (nat limit) zs \<noteq> []"
    using assms(1) last_take_nth [of "nat limit" zs] by simp
  ultimately show ?thesis
    unfolding offset_result_def Let_def p using assms(3-6)
    by (auto simp: rest_page_def offsetNextCursor_def defaultOrdering_def)
qed

lemma setting_before_total:
  assumes "scroll_setting col join lt key rows ks r" "a \<in> set rows" "b \<in> set rows" "a \<noteq> b"
  shows "order_before lt key (orderFields (default_columns r)) a b
    \<or> order_before lt key (orderFields (default_columns r)) b a"
proof -
  obtain ofd where "ofd \<in> set (orderFields (default_columns r))" "SortField ofd = KeysetIDColumn"
    using default_columns_fields(1) by blast
  moreover have "key a KeysetIDColumn \<noteq> key b KeysetIDColumn"
    using scroll_settingD(11) [OF assms(1-3)] assms(4) by blast
  ultimately show ?thesis
    using scroll_settingD(10) [OF assms(1) default_columns_fields(2) assms(2,3)]
    by (intro order_before_total [of "orderFields (default_columns r)" key a b lt ofd]) simp_all
qed

lemma setting_before_order:
  assumes s: "scroll_setting col join lt key rows ks r"
  shows "irreflp (order_before lt key ofs)" "transp (order_before lt key ofs)"
  using order_before_irrefl order_before_trans scroll_settingD(8,9) [OF s] by auto

text \<open>What the datastore returns for the scroll's order and any further filter.\<close>

lemma setting_list:
  assumes s: "scroll_setting col join lt key rows ks r" and ys: "scroll_rows col join lt key rows r ys"
    and lim: "0 < n"
  shows "ListRows (Runner r) ctx
      \<lparr>Filters = nonEmpty (ResolveFilter (Resolve r) (ResolveJoin r) (UserFilter r)) @ fs,
       Order = orderFields (default_columns r), Limit = n, Offset = 0\<rparr> =
    Inr (take (nat n) (filter (\<lambda>row. list_all (\<lambda>f. filter_holds col join f row) fs) ys))"
proof -
  let ?spec = "\<lparr>Filters = nonEmpty (ResolveFilter (Resolve r) (ResolveJoin r) (UserFilter r)) @ fs,
       Order = orderFields (default_columns r), Limit = n, Offset = 0\<rparr>"
  let ?bef = "order_before lt key (orderFields (default_columns r))"
  let ?fy = "filter (\<lambda>row. list_all (\<lambda>f. filter_holds col join f row) fs) ys"
  obtain zs where zs: "distinct zs" "set zs = set (matching col join (Filters ?spec) rows)"
    "sorted_wrt (\<lambda>a b. \<not> ?bef b a) zs" "ListRows (Runner r) ctx ?spec = Inr (take (nat n) zs)"
    using runner_listE [OF scroll_settingD(4) [OF s], of ?spec ctx] lim by auto
  have sub: "set zs \<subseteq> set rows" using zs(2) by (auto simp: matching_def)
  have "sorted_wrt ?bef zs"
  proof -
    have "sorted_wrt (\<lambda>a b. a \<noteq> b \<and> \<not> ?bef b a) zs"
      using zs(1,3) by (induction zs) auto
    then show ?thesis
      by (rule sorted_wrt_mono_rel [rotated]) (use sub setting_before_total [OF s] in blast)
  qed
  moreover have "sorted_wrt ?bef ?fy" using ys by (simp add: scroll_rows_def sorted_wrt_filter)
  moreover have "set zs = set ?fy" using zs(2) ys by (auto simp: matching_nonEmpty scroll_rows_def)
  ultimately have "zs = ?fy"
    using sorted_wrt_unique [OF setting_before_order [OF s]] by blast
  then show ?thesis using zs(4) by simp
qed

lemma scroll_rows_exist:
  assumes s: "scroll_setting col join lt key rows ks r"
  obtains ys where "scroll_rows col join lt key rows r ys"
proof -
  let ?bef = "order_before lt key (orderFields (default_columns r))"
  let ?spec = "\<lparr>Filters = nonEmpty (ResolveFilter (Resolve r) (ResolveJoin r) (UserFilter r)) @ [],
       Order = orderFields (default_columns r), Limit = 0, Offset = 0\<rparr>"
  obtain zs where zs: "distinct zs" "set zs = set (matching col join (Filters ?spec) rows)"
    "sorted_wrt (\<lambda>a b. \<not> order_before lt key (Order ?spec) b a) zs"
    by (rule runner_listE [OF scroll_settingD(4) [OF s], of ?spec]) simp_all
  have sub: "set zs \<subseteq> set rows" using zs(2) by (auto simp: matching_def)
  have "sorted_wrt (\<lambda>a b. a \<noteq> b \<and> \<not> ?bef b a) zs"
    using zs(1,3) by (induction zs) (auto simp: ListSpec.defs)
  then have "sorted_wrt ?bef zs"
    by (rule sorted_wrt_mono_rel [rotated]) (use sub setting_before_total [OF s] in blast)
  with zs show ?thesis
    by (intro that [of zs]) (simp add: scroll_rows_def matching_nonEmpty [of _ _ _ "[]", simplified])
qed

text \<open>The cursor of the row before position \<open>j\<close>.\<close>

lemma setting_keyset_page:
  assumes s: "scroll_setting col join lt key rows ks r" and ys: "scroll_rows col join lt key rows r ys"
    and dm: "\<And>row. row \<in> set rows \<Longrightarrow> ToDomain r row = Inr (dm row)"
    and lim: "0 < limit" "limit < MaxInt64" and j: "0 < j" "j \<le> length ys"
    and cur: "CursorFingerprint cur = Fingerprint L (ReaderSort r) (UserFilter r)"
      "cursorValues ks (default_columns r) cur = Inr (map (\<lambda>c. key (ys ! (j - 1)) (KColumn c)) (default_columns r))"
    and nxt: "int (length (drop j ys)) > limit \<Longrightarrow>
      mintKeysetCursor L ks (default_columns r) (drop j ys ! (nat limit - 1)) (ReaderSort r) (UserFilter r) = Inr nxt"
      "\<not> int (length (drop j ys)) > limit \<Longrightarrow> nxt = []"
  shows "keysetPage L ctx cur ks (default_columns r) (orderFields (default_columns r))
      (ResolveFilter (Resolve r) (ResolveJoin r) (UserFilter r)) limit r =
    Return (Inr (rest_page dm limit 0 nxt (drop j ys)))"
proof -
  let ?cols = "default_columns r"
  let ?row = "ys ! (j - 1)"
  let ?vs = "map (\<lambda>c. key ?row (KColumn c)) ?cols"
  obtain f where f: "seekFrom ?cols ?vs = Return f"
    using seekFrom_total default_columns_fields(4) by (metis length_map)
  have h: "filter_holds col join f b = order_before lt key (orderFields ?cols) ?row b" for b
    using seekFrom_holds [of col lt key, OF scroll_settingD(5-7) [OF s] f _ default_columns_fields(3)]
    by (simp add: lex_after_order)
  have l: "int64 (limit + 1) = limit + 1"
    by (rule int64_id) (use lim in \<open>simp_all add: MinInt64_def MaxInt64_def\<close>)
  have "sorted_wrt (order_before lt key (orderFields ?cols)) ys" using ys by (simp add: scroll_rows_def)
  then have fa: "filter (\<lambda>b. order_before lt key (orderFields ?cols) ?row b) ys = drop j ys"
    using sorted_wrt_filter_after [of "order_before lt key (orderFields ?cols)" ys "j - 1",
        OF setting_before_order [OF s]] j by simp
  have sub: "\<And>x. x \<in> set (drop j ys) \<Longrightarrow> ToDomain r x = Inr (dm x)"
    using ys dm by (auto simp: scroll_rows_def dest!: in_set_dropD)
  have "keyset_result L ks ?cols limit r (take (nat (limit + 1)) (drop j ys)) =
      Inr (rest_page dm limit 0 nxt (drop j ys))"
    by (rule keyset_result_rest) (use lim sub nxt in auto)
  then show ?thesis
    using cur f default_columns_fields(4) [of r] setting_list [OF s ys, of "limit + 1" ctx "[f]"] lim h fa
    by (simp add: keysetPage_def SeekFilter_def l)
qed

lemma Run_keyset:
  assumes s: "scroll_setting col join lt key rows ks r"
    and "DecodeToken (Cursor page) = Inr \<lparr>TokKeyset = Some cur, TokOffsetPage = 0\<rparr>"
  shows "Run L ctx page r = keysetPage L ctx cur ks (default_columns r) (orderFields (default_columns r))
      (ResolveFilter (Resolve r) (ResolveJoin r) (UserFilter r)) (pageLimit page (ReaderBounds r)) r"
  using assms(2) scroll_settingD(1,2) [OF s] KeysetColumns_default_order [of r]
  by (simp add: Run_def Let_def defaultOrdering_def)

lemma scroll_from:
  assumes s: "scroll_setting col join lt key rows ks r" and ys: "scroll_rows col join lt key rows r ys"
    and dm: "\<And>row. row \<in> set rows \<Longrightarrow> ToDomain r row = Inr (dm row)"
    and lim: "limit = pageLimit page (ReaderBounds r)" "limit < MaxInt64"
  shows "length ys - j < n \<Longrightarrow> 0 < j \<Longrightarrow> j \<le> length ys \<Longrightarrow>
    mintKeysetCursor L ks (default_columns r) (ys ! (j - 1)) (ReaderSort r) (UserFilter r) = Inr tok \<Longrightarrow>
    scroll n L ctx (page\<lparr>Cursor := tok\<rparr>) r = Some (map dm (drop j ys))"
proof (induction n arbitrary: j tok)
  case (Suc n)
  have row: "ys ! (j - 1) \<in> set rows" using ys Suc.prems by (auto simp: scroll_rows_def)
  have pos: "0 < limit" using lim(1) pageLimit_pos by simp
  obtain cur where cur: "DecodeToken tok = Inr \<lparr>TokKeyset = Some cur, TokOffsetPage = 0\<rparr>"
    "CursorFingerprint cur = Fingerprint L (ReaderSort r) (UserFilter r)"
    "cursorValues ks (default_columns r) cur = Inr (map (\<lambda>c. key (ys ! (j - 1)) (KColumn c)) (default_columns r))"
    using mint_default [OF scroll_settingD(12) [OF s row], of L "ReaderSort r" "UserFilter r"] Suc.prems(4)
    by auto
  have run: "Run L ctx (page\<lparr>Cursor := tok\<rparr>) r = Return (Inr (rest_page dm limit 0 nxt (drop j ys)))"
    if "int (length (drop j ys)) > limit \<Longrightarrow>
        mintKeysetCursor L ks (default_columns r) (drop j ys ! (nat limit - 1)) (ReaderSort r) (UserFilter r) = Inr nxt"
      "\<not> int (length (drop j ys)) > limit \<Longrightarrow> nxt = []" for nxt
    using setting_keyset_page [OF s ys dm pos lim(2) Suc.prems(2,3) cur(2,3) that]
      Run_keyset [OF s, of "page\<lparr>Cursor := tok\<rparr>" cur L ctx] cur(1) lim(1)
    by (simp add: pageLimit_def)
  show ?case
  proof (cases "int (length (drop j ys)) > limit")
    case False
    then show ?thesis using run [of "[]"] pos by (simp add: rest_page_def)
  next
    case True
    define j' where "j' = j + nat limit"
    have j': "j' < length ys" "0 < j'" "j < j'" using True pos by (auto simp: j'_def)
    have nth: "drop j ys ! (nat limit - 1) = ys ! (j' - 1)" using True pos by (simp add: j'_def)
    have row': "ys ! (j' - 1) \<in> set rows" using ys j' by (auto simp: scroll_rows_def)
    obtain nxt where nxt: "mintKeysetCursor L ks (default_columns r) (ys ! (j' - 1)) (ReaderSort r) (UserFilter r) = Inr nxt"
      "nxt \<noteq> []" using mint_default [OF scroll_settingD(12) [OF s row'], of L "ReaderSort r" "UserFilter r"] by metis
    have "Run L ctx (page\<lparr>Cursor := tok\<rparr>) r = Return (Inr (rest_page dm limit 0 nxt (drop j ys)))"
      by (rule run) (use True nxt nth in auto)
    moreover have "scroll n L ctx (page\<lparr>Cursor := nxt\<rparr>) r = Some (map dm (drop j' ys))"
      by (rule Suc.IH) (use Suc.prems(1) j' nxt in auto)
    moreover have "map dm (take (nat limit) (drop j ys)) @ map dm (drop j' ys) = map dm (drop j ys)"
      by (metis j'_def add.commute append_take_drop_id drop_drop map_append)
    ultimately show ?thesis using nxt(2) by (simp add: rest_page_def)
  qed
qed simp

lemma scroll_all:
  assumes s: "scroll_setting col join lt key rows ks r" and ys: "scroll_rows col join lt key rows r ys"
    and dm: "\<And>row. row \<in> set rows \<Longrightarrow> ToDomain r row = Inr (dm row)"
    and lim: "pageLimit page (ReaderBounds r) < MaxInt64" and "Cursor page = []" "length ys < n"
  shows "scroll n L ctx page r = Some (map dm ys)"
proof -
  define limit where "limit = pageLimit page (ReaderBounds r)"
  have pos: "0 < limit" unfolding limit_def by (rule pageLimit_pos)
  have l: "int64 (limit + 1) = limit + 1" "int64 0 = 0"
    by (rule int64_id, use lim pos in \<open>simp_all add: limit_def MinInt64_def MaxInt64_def\<close>)+
  have sub: "\<And>x. x \<in> set ys \<Longrightarrow> ToDomain r x = Inr (dm x)" using ys dm by (simp add: scroll_rows_def)
  have run: "Run L ctx page r = Return (Inr (rest_page dm limit 1 nxt ys))"
    if "int (length ys) > limit \<Longrightarrow>
        mintKeysetCursor L ks (default_columns r) (ys ! (nat limit - 1)) (ReaderSort r) (UserFilter r) = Inr nxt"
      "\<not> int (length ys) > limit \<Longrightarrow> nxt = []" for nxt
    using offset_result_rest [OF pos sub that scroll_settingD(1,2) [OF s], of 1]
      setting_list [OF s ys, of "limit + 1" ctx "[]"] pos \<open>Cursor page = []\<close> scroll_settingD(1-3) [OF s]
      KeysetColumns_default_order [of r] l
    by (simp add: Run_def DecodeToken_def offsetPage_def Let_def limit_def [symmetric])
  obtain n' where n: "n = Suc n'" using assms(6) by (cases n) auto
  show ?thesis
  proof (cases "int (length ys) > limit")
    case False
    then show ?thesis using run [of "[]"] pos n by (simp add: rest_page_def)
  next
    case True
    have row: "ys ! (nat limit - 1) \<in> set rows" using ys True pos by (auto simp: scroll_rows_def)
    obtain nxt where nxt: "mintKeysetCursor L ks (default_columns r) (ys ! (nat limit - 1)) (ReaderSort r) (UserFilter r) = Inr nxt"
      "nxt \<noteq> []" using mint_default [OF scroll_settingD(12) [OF s row], of L "ReaderSort r" "UserFilter r"] by metis
    have "Run L ctx page r = Return (Inr (rest_page dm limit 1 nxt ys))"
      by (rule run) (use True nxt in auto)
    moreover have "scroll n' L ctx (page\<lparr>Cursor := nxt\<rparr>) r = Some (map dm (drop (nat limit) ys))"
      by (rule scroll_from [OF s ys dm limit_def]) (use True pos n nxt lim assms(6) in \<open>auto simp: limit_def\<close>)
    ultimately show ?thesis using nxt(2) n by (simp add: rest_page_def flip: map_append)
  qed
qed

end
