(* ===== verification/Pagination.thy ===== *)
theory Pagination
  imports Listquery_Page
begin

text \<open>
  The properties of the pagination template: completeness of an infinite scroll, the
  contents of an offset page, bounds, absence of panics, suggestion pages, with a concrete
  table and datastore on which the contract of a runner is shown to hold.
\<close>

section \<open>A concrete table\<close>

text \<open>
  Five rows numbered 0 to 4 in a table whose creation times tie pairwise, and a datastore
  that sorts and windows it: an instance of everything \<open>scroll_setting\<close> asks for.
\<close>

definition demo_key :: "nat \<Rightarrow> string \<Rightarrow> goval" where
  "demo_key n c = (if c = tiebreakerCreatedAt then VTime (int (n div 2) * 1000000) 0 else VInt (int n))"

definition demo_rank :: "goval \<Rightarrow> int" where
  "demo_rank v = (case v of VTime t z \<Rightarrow> t | VInt n \<Rightarrow> n | _ \<Rightarrow> 0)"

definition demo_lt :: "goval \<Rightarrow> goval \<Rightarrow> bool" where
  "demo_lt x y = (demo_rank x < demo_rank y)"

definition demo_col :: "string \<Rightarrow> FilterOperator \<Rightarrow> goval \<Rightarrow> nat \<Rightarrow> bool" where
  "demo_col c op v r =
     (case op of
        OpGt \<Rightarrow> demo_lt v (demo_key r c)
      | OpLt \<Rightarrow> demo_lt (demo_key r c) v
      | OpEq \<Rightarrow> demo_key r c = v
      | _ \<Rightarrow> False)"

definition demo_join :: "JoinTarget \<Rightarrow> FilterOperator \<Rightarrow> goval \<Rightarrow> nat \<Rightarrow> bool" where
  "demo_join t op v r = False"

definition demo_rows :: "nat list" where
  "demo_rows = [0, 1, 2, 3, 4]"

definition demo_sort_key :: "OrderField list \<Rightarrow> nat \<Rightarrow> int list" where
  "demo_sort_key ofs r =
     map (\<lambda>ofd. (if SortDesc ofd then - 1 else 1) * demo_rank (demo_key r (SortField ofd))) ofs"

definition demo_runner :: "nat ListRunner" where
  "demo_runner =
     \<lparr>ListRows = (\<lambda>ctx spec. Inr (take (nat (Limit spec)) (drop (nat (Offset spec))
        (sort_key (demo_sort_key (Order spec)) (matching demo_col demo_join (Filters spec) demo_rows))))),
      CountRows = (\<lambda>ctx fs bound. Inr (min bound (int (length (matching demo_col demo_join fs demo_rows)))))\<rparr>"

definition demo_keyset :: "nat Keyset" where
  "demo_keyset =
     \<lparr>RowValue = (\<lambda>r c. if c = KeysetIDColumn then Some (VStr (itoa_nat r))
        else if c = tiebreakerCreatedAt then Some (VTime (int (r div 2) * 1000000) 7200) else None),
      ParseID = Some (\<lambda>s. Inr (VInt (int (digits_val s)))), TimestampCols = {tiebreakerCreatedAt}\<rparr>"

definition demo_reader :: "nat Keyset option \<Rightarrow> bool \<Rightarrow> Filter \<Rightarrow> (nat, nat) Reader" where
  "demo_reader ks cnt f =
     \<lparr>Runner = demo_runner, UserFilter = f, ToDomain = Inr, Resolve = (\<lambda>x. x), ResolveJoin = None,
      ResolveOrdinal = None, ResolveDerived = None, MapErr = Some (\<lambda>e. e), ReaderKeyset = ks,
      Tiebreaker = [], ReaderSort = [], ReaderBounds = \<lparr>DefaultSize = 2, MaxSize = 100, CountCap = 3\<rparr>,
      ReaderCount = cnt\<rparr>"

definition first_page :: PageRequest where
  "first_page = \<lparr>Cursor = [], ReqPageSize = 2, ReqPageNumber = 0\<rparr>"

section \<open>Lemmas\<close>

lemma demo_key_eq: "(demo_key a c = demo_key b c) = (demo_rank (demo_key a c) = demo_rank (demo_key b c))"
  by (auto simp: demo_key_def demo_rank_def)

lemma demo_before: "order_before demo_lt demo_key ofs a b = (demo_sort_key ofs a < demo_sort_key ofs b)"
  by (induction ofs) (auto simp: demo_sort_key_def demo_lt_def demo_key_eq)

lemma demo_contract: "runner_contract demo_col demo_join demo_lt demo_key demo_rows demo_runner"
  unfolding runner_contract_def
proof (intro conjI allI impI)
  fix ctx :: Context and spec :: ListSpec
  let ?m = "matching demo_col demo_join (Filters spec) demo_rows"
  let ?ys = "sort_key (demo_sort_key (Order spec)) ?m"
  have "distinct ?ys" by (simp add: matching_def demo_rows_def)
  moreover have "sorted_wrt (\<lambda>a b. \<not> order_before demo_lt demo_key (Order spec) b a) ?ys"
  proof -
    have "sorted (map (demo_sort_key (Order spec)) ?ys)" by simp
    then show ?thesis by (simp add: sorted_map demo_before not_less)
  qed
  ultimately show "\<exists>ys. distinct ys \<and> set ys = set ?m
      \<and> sorted_wrt (\<lambda>a b. \<not> order_before demo_lt demo_key (Order spec) b a) ys
      \<and> ListRows demo_runner ctx spec = Inr (take (nat (Limit spec)) (drop (nat (Offset spec)) ys))"
    by (intro exI [of _ ?ys]) (simp add: demo_runner_def)
qed (simp add: demo_runner_def)

lemma demo_setting:
  "scroll_setting demo_col demo_join demo_lt demo_key demo_rows demo_keyset (demo_reader (Some demo_keyset) False f)"
proof -
  let ?r = "demo_reader (Some demo_keyset) False f"
  have c: "tiebreakerCreatedAt \<noteq> KeysetIDColumn"
    by (simp add: tiebreakerCreatedAt_def KeysetIDColumn_def tiebreakerID_def)
  have t: "tie_column ?r = tiebreakerCreatedAt" by (simp add: tie_column_def demo_reader_def)
  have "irreflp demo_lt" "transp demo_lt" by (auto simp: demo_lt_def intro: irreflpI transpI)
  moreover have "cursor_ok demo_key demo_keyset (tie_column ?r) row" if "row \<in> set demo_rows" for row
    using that c t by (auto simp: cursor_ok_def demo_keyset_def parseID_def demo_key_def digits_val_itoa demo_rows_def)
  moreover have "demo_key a k = demo_key b k \<or> demo_lt (demo_key a k) (demo_key b k) \<or> demo_lt (demo_key b k) (demo_key a k)" for a b k
    by (auto simp: demo_lt_def demo_key_eq)
  moreover have "demo_key a KeysetIDColumn = demo_key b KeysetIDColumn \<longrightarrow> a = b" for a b
    using c by (simp add: demo_key_def)
  ultimately show ?thesis
    unfolding scroll_setting_def using demo_contract
    by (auto simp: demo_reader_def demo_col_def)
qed


lemma cursor_loop_length: "cursor_loop ks i cols svs = Inr vs \<Longrightarrow> length vs = length cols"
  by (induction ks i cols svs arbitrary: vs rule: cursor_loop.induct) (auto split: if_splits list.splits)

lemma SeekFilter_total: "length vs = length cols \<Longrightarrow> \<exists>f. SeekFilter cols vs = Return f"
  using seekFrom_total [of cols vs] by (cases "cols = []") (auto simp: SeekFilter_def)

lemma map_err_return: "MapErr r \<noteq> None \<Longrightarrow> \<exists>e. map_err r err = Return (Inl e)"
  by (auto simp: map_err_def)

lemma keysetPage_return: "MapErr r \<noteq> None \<Longrightarrow> \<exists>x. keysetPage L ctx cur ks cols order f limit r = Return x"
proof (cases "cursorValues ks cols cur")
  case (Inr vs)
  assume m: "MapErr r \<noteq> None"
  have "length vs = length cols" using Inr cursor_loop_length by (auto simp: cursorValues_def)
  then obtain seek where "SeekFilter cols vs = Return seek" using SeekFilter_total by blast
  with Inr m show ?thesis
    using map_err_return [OF m] by (auto simp: keysetPage_def split: sum.splits)
qed (auto simp: keysetPage_def)

lemma offsetPage_return: "MapErr r \<noteq> None \<Longrightarrow> \<exists>x. offsetPage L ctx n cols order f limit r = Return x"
proof -
  assume m: "MapErr r \<noteq> None"
  have "\<exists>t. boundedTotal ctx (nonEmpty f) r = Return t"
    using m by (auto simp: boundedTotal_def Let_def map_err_def split: sum.splits)
  then obtain t where t: "boundedTotal ctx (nonEmpty f) r = Return t" by blast
  show ?thesis
    using m unfolding offsetPage_def Let_def t by (cases t) (auto simp: map_err_def split: sum.splits)
qed

lemma offset_result_bounds:
  assumes "offset_result L n cols limit r rows0 tot = Inr p" "0 < limit"
  shows "int (length (Items p)) \<le> limit \<and> PageSize p = limit \<and> Total p = fst tot"
proof -
  have "length items = length rows" if "mapAll rows (ToDomain r) = Inr items" for rows items
    using that map_result_length by (auto simp: mapAll_def)
  then show ?thesis using assms by (fastforce simp: offset_result_def Let_def split: if_splits)
qed

lemma keyset_result_bounds:
  assumes "keyset_result L ks cols limit r rows0 = Inr p" "0 < limit"
  shows "int (length (Items p)) \<le> limit \<and> PageSize p = limit \<and> Total p = 0"
proof -
  have "length items = length rows" if "mapAll rows (ToDomain r) = Inr items" for rows items
    using that map_result_length by (auto simp: mapAll_def)
  then show ?thesis using assms by (fastforce simp: keyset_result_def Let_def split: if_splits)
qed

lemma map_err_not_Inr [simp]: "map_err r e \<noteq> Return (Inr x)"
  by (simp add: map_err_def split: option.splits)

lemma boundedTotal_cap: "boundedTotal ctx fs r = Return (Inr (n, est)) \<Longrightarrow> n \<le> countCap (ReaderBounds r)"
  by (fastforce simp: boundedTotal_def Let_def split: sum.splits if_splits)

lemma countCap_pos: "0 < countCap b"
  by (simp add: countCap_def DefaultCountCap_def)

lemma offsetPage_bounds:
  assumes "offsetPage L ctx n cols order f limit r = Return (Inr p)" "0 < limit"
  shows "int (length (Items p)) \<le> limit \<and> PageSize p = limit \<and> Total p \<le> countCap (ReaderBounds r)"
proof -
  have "\<exists>rows0 num tot. offset_result L num cols limit r rows0 tot = Inr p \<and> fst tot \<le> countCap (ReaderBounds r)"
    using assms(1) countCap_pos [of "ReaderBounds r"] boundedTotal_cap [of ctx _ r]
    unfolding offsetPage_def Let_def
    by (auto split: sum.splits outcome.splits if_splits) force+
  then show ?thesis using offset_result_bounds assms(2) by metis
qed

lemma keysetPage_bounds:
  assumes "keysetPage L ctx cur ks cols order f limit r = Return (Inr p)" "0 < limit"
  shows "int (length (Items p)) \<le> limit \<and> PageSize p = limit \<and> Total p = 0"
proof -
  have "\<exists>rows0. keyset_result L ks cols limit r rows0 = Inr p"
    using assms(1) unfolding keysetPage_def
    by (auto split: sum.splits outcome.splits if_splits)
  then show ?thesis using keyset_result_bounds assms(2) by metis
qed

lemma Run_arms:
  assumes "Run L ctx page r = Return (Inr p)"
  obtains n cols order f where
      "offsetPage L ctx n cols order f (pageLimit page (ReaderBounds r)) r = Return (Inr p)"
    | cur ks cols order f where
      "keysetPage L ctx cur ks cols order f (pageLimit page (ReaderBounds r)) r = Return (Inr p)"
  using assms by (auto simp: Run_def Let_def split: sum.splits option.splits if_splits)

lemma pageLimit_max: "0 < MaxSize b \<Longrightarrow> pageLimit page b \<le> MaxSize b"
  by (simp add: pageLimit_def Let_def)

section \<open>Properties\<close>

text \<open>
  C1. Infinite scroll shows every matching row exactly once, in order.  A client that
  follows the next cursor from the first page, on a keyset-wired reader in its default
  order over a fixed table, stops after at most as many requests as there are rows plus
  one, and what it has collected is the sorted list of all matching rows: no row is
  skipped or repeated at a page boundary.
\<close>

theorem infinite_scroll_complete:
  assumes "scroll_setting col join lt key rows ks r"
    "\<And>row. row \<in> set rows \<Longrightarrow> ToDomain r row = Inr (dm row)"
    "pageLimit page (ReaderBounds r) < MaxInt64" "Cursor page = []" "length rows < n" "distinct rows"
  shows "\<exists>ys. scroll_rows col join lt key rows r ys \<and> scroll n L ctx page r = Some (map dm ys)"
proof -
  obtain ys where ys: "scroll_rows col join lt key rows r ys" using scroll_rows_exist [OF assms(1)] .
  then have "length ys \<le> length rows"
    using assms(6) by (metis (no_types, lifting) Collect_mem_eq card_mono distinct_card finite_set mem_Collect_eq scroll_rows_def subsetI)
  then show ?thesis using ys scroll_all [OF assms(1) ys assms(2-4), of n] assms(5) by auto
qed

theorem infinite_scroll_complete_witness:
  "\<exists>ys. scroll_rows demo_col demo_join demo_lt demo_key demo_rows
       (demo_reader (Some demo_keyset) False (FilterClause ''size'' OpGt (VInt 0) None)) ys
     \<and> scroll 6 demo_lib \<lparr>skip_count_value = None\<rparr> first_page
         (demo_reader (Some demo_keyset) False (FilterClause ''size'' OpGt (VInt 0) None)) = Some (map id ys)"
  by (rule infinite_scroll_complete [OF demo_setting])
     (simp_all add: demo_reader_def first_page_def pageLimit_def demo_rows_def MaxInt64_def)

text \<open>
  A list request never panics on a reader with an error mapper, whatever token, page
  size, filter or sort the client sends: it returns a page or an error.
\<close>

lemma Run_no_panic:
  assumes "MapErr r \<noteq> None"
  shows "\<exists>x. Run L ctx page r = Return x"
  using keysetPage_return [OF assms] offsetPage_return [OF assms]
  by (auto simp: Run_def Let_def split: sum.splits option.splits)


text \<open>
  A page is bounded whatever the client asks for: it holds at most the effective page
  size, that size is positive and at most the configured maximum, and its total never
  exceeds the count cap.
\<close>

lemma Run_page_bounds:
  assumes "Run L ctx page r = Return (Inr p)" "0 < MaxSize (ReaderBounds r)"
  shows "int (length (Items p)) \<le> PageSize p \<and> 0 < PageSize p \<and> PageSize p \<le> MaxSize (ReaderBounds r)
    \<and> Total p \<le> countCap (ReaderBounds r)"
  using assms(1)
proof (cases rule: Run_arms)
  case (1 n cols order f)
  then show ?thesis
    using offsetPage_bounds [OF 1] pageLimit_pos pageLimit_max [OF assms(2)] by metis
next
  case (2 cur ks cols order f)
  then show ?thesis
    using keysetPage_bounds [OF 2] pageLimit_pos pageLimit_max [OF assms(2)] countCap_pos [of "ReaderBounds r"]
    by (metis order_less_imp_le)
qed


lemma Run_offset:
  assumes "DecodeToken (Cursor page) = Inr \<lparr>TokKeyset = None, TokOffsetPage = n\<rparr>"
  shows "Run L ctx page r =
    (let cols = KeysetColumns (Resolve r) (ResolveJoin r) (ResolveOrdinal r) (ResolveDerived r) (ReaderSort r) (Tiebreaker r) in
     offsetPage L ctx n cols (orderFields cols) (ResolveFilter (Resolve r) (ResolveJoin r) (UserFilter r))
       (pageLimit page (ReaderBounds r)) r)"
  using assms by (simp add: Run_def Let_def)

lemma offset_window_int64:
  assumes "1 \<le> N" "N < MaxInt32" "0 < limit" "limit \<le> MaxInt32"
  shows "0 \<le> (N - 1) * limit" "(N - 1) * limit \<le> N * limit"
    "int64 (limit + 1) = limit + 1" "int64 ((N - 1) * limit) = (N - 1) * limit" "int64 (N * limit) = N * limit"
proof -
  have "N * limit \<le> MaxInt32 * MaxInt32" using assms by (intro mult_mono) (simp_all add: MaxInt32_def)
  then have NL: "N * limit \<le> 4611686014132420609" by (simp add: MaxInt32_def)
  show off: "0 \<le> (N - 1) * limit" "(N - 1) * limit \<le> N * limit" using assms by (simp_all add: algebra_simps)
  have i64: "int64 x = x" if "0 \<le> x" "x \<le> 9223372036854775807" for x
    using that int64_id [of x] by (simp add: MinInt64_def MaxInt64_def)
  show "int64 (limit + 1) = limit + 1" "int64 ((N - 1) * limit) = (N - 1) * limit" "int64 (N * limit) = N * limit"
    using i64 [of "limit + 1"] i64 [of "(N - 1) * limit"] i64 [of "N * limit"] assms(3,4) NL off
    unfolding MaxInt32_def by linarith+
qed

lemma next_page_token:
  assumes "1 \<le> N" "N < MaxInt32"
  shows "\<exists>s. EncodeToken L \<lparr>TokKeyset = None, TokOffsetPage = N + 1\<rparr> = Inr s \<and> s \<noteq> []"
proof -
  obtain s where s: "EncodeToken L \<lparr>TokKeyset = None, TokOffsetPage = N + 1\<rparr> = Inr s"
    "DecodeToken s = Inr \<lparr>TokKeyset = None, TokOffsetPage = N + 1\<rparr>"
    using EncodeToken_offset [of "N + 1" L] assms by (auto simp: MinInt32_def MaxInt32_def)
  moreover have "s \<noteq> []" using s(2) assms by (auto simp: DecodeToken_def)
  ultimately show ?thesis by blast
qed




lemma set_merge_seen: "set (merge_seen vs seen) = set vs - seen"
  by (induction vs arbitrary: seen) auto

lemma distinct_merge_seen: "distinct (merge_seen vs seen)"
  by (induction vs arbitrary: seen) (auto simp: set_merge_seen)

lemma suggest_limit_pos: "0 < suggest_limit limit" "suggest_limit (suggest_limit limit) = suggest_limit limit"
  by (simp_all add: suggest_limit_def SuggestFallbackLimit_def)

lemma Itoa_nonempty: "Itoa n \<noteq> []"
  by (simp add: Itoa_def itoa_nat_nonempty)

lemma merged_sorted_list:
  "sort (merge_seen (concat columns) {}) = sorted_list_of_set (\<Union> (set ` set columns))"
  by (rule sorted_distinct_set_unique) (simp_all add: set_merge_seen distinct_merge_seen)

lemma window_take:
  "0 \<le> off \<Longrightarrow> off < int (length v) \<Longrightarrow> 0 < l \<Longrightarrow>
   take (nat ((if off + l + 1 > int (length v) then int (length v) else off + l + 1) - off)) (drop (nat off) v) =
   take (nat (l + 1)) (drop (nat off) v)"
  by (auto intro!: take_all)

text \<open>
  C9. A suggestion page over several columns is a window of the sorted set of all their
  values: each value appears once whatever columns it occurs in, pages do not overlap or
  leave gaps, and a next cursor is given exactly when values remain, as long as the page
  window fits the machine's integers.
\<close>

theorem MergeDistinct_window:
  fixes columns :: "string list list" and limit pageNum :: int
  defines "lim \<equiv> suggest_limit limit"
    and "vals \<equiv> sorted_list_of_set (\<Union> (set ` set columns))"
  assumes "1 \<le> pageNum" "pageNum * lim + 1 \<le> MaxInt64"
  shows "\<exists>p. MergeDistinct columns limit pageNum = Return p
    \<and> Items p = take (nat lim) (drop (nat ((pageNum - 1) * lim)) vals)
    \<and> (NextCursor p \<noteq> []) = (pageNum * lim < int (length vals))
    \<and> PageSize p = lim \<and> PageNumber p = pageNum"
proof -
  let ?off = "(pageNum - 1) * lim"
  have pos: "0 < lim" by (simp add: lim_def suggest_limit_pos)
  have off: "0 \<le> ?off" "?off + lim = pageNum * lim" using assms(3) pos by (simp_all add: algebra_simps)
  have i: "int64 ?off = ?off" "int64 (?off + lim + 1) = ?off + lim + 1"
    by (rule int64_id; use off pos assms(4) in \<open>simp add: MinInt64_def\<close>)+
  have "MergeDistinct columns limit pageNum =
      (if ?off \<ge> int (length vals) then Return (SuggestPage [] lim pageNum)
       else Return (SuggestPage (take (nat (lim + 1)) (drop (nat ?off) vals)) lim pageNum))"
  proof (cases "?off \<ge> int (length vals)")
    case True
    then show ?thesis
      unfolding MergeDistinct_def lim_def [symmetric] merged_sorted_list vals_def [symmetric] Let_def i(1) by simp
  next
    case False
    let ?e = "if ?off + lim + 1 > int (length vals) then int (length vals) else ?off + lim + 1"
    have "take (nat (?e - ?off)) (drop (nat ?off) vals) = take (nat (lim + 1)) (drop (nat ?off) vals)"
      using window_take [of ?off vals lim] False off pos by simp
    moreover have "\<not> (?off < 0 \<or> ?e < ?off)" using False off pos by auto
    ultimately show ?thesis
      using False
      unfolding MergeDistinct_def lim_def [symmetric] merged_sorted_list vals_def [symmetric] Let_def i by simp
  qed
  moreover have "nat (lim + 1) = Suc (nat lim)" using pos by simp
  moreover have "suggest_limit lim = lim" by (simp add: lim_def suggest_limit_pos)
  ultimately show ?thesis
    using pos off by (auto simp: SuggestPage_def Let_def Itoa_nonempty min_def)
qed

theorem MergeDistinct_window_witness:
  "\<exists>p. MergeDistinct [[''b'', ''a''], [''b'']] 1 2 = Return p \<and> PageSize p = suggest_limit 1
     \<and> Items p = take (nat (suggest_limit 1)) (drop (nat ((2 - 1) * suggest_limit 1))
         (sorted_list_of_set (\<Union> (set ` set [[''b'', ''a''], [''b'']]))))"
  using MergeDistinct_window [of 2 1 "[[''b'', ''a''], [''b'']]"]
  by (auto simp: suggest_limit_def SuggestFallbackLimit_def MaxInt64_def)

text \<open>
  The page-window arithmetic can overflow on a client's own cursor: a suggestion cursor
  holding the largest int64 passes \<open>SuggestPageNumber\<close>, the offset wraps to a negative
  number, and slicing panics.
\<close>

lemma suggest_cursor_overflow:
  "MergeDistinct [[''a'']] 10 (SuggestPageNumber ''9223372036854775807'') = Panic ''slice bounds out of range''"
proof -
  have "Atoi ''9223372036854775807'' = Some 9223372036854775807"
    by (simp add: Atoi_def is_digit_def digits_val_def digit_val_def MinInt64_def MaxInt64_def)
  then have "SuggestPageNumber ''9223372036854775807'' = 9223372036854775807"
    by (simp add: SuggestPageNumber_def)
  moreover have "int64 92233720368547758060 = - 20" by (simp add: int64_def)
  ultimately show ?thesis
    by (simp add: MergeDistinct_def suggest_limit_def Let_def)
qed

text \<open>
  A reader without an error mapper panics on the first datastore error, although the
  field's comment allows it to be nil.
\<close>

lemma nil_MapErr_panics:
  assumes "MapErr r = None" "\<And>spec. ListRows (Runner r) ctx spec = Inl e" "Cursor page = []"
  shows "\<exists>msg. Run L ctx page r = Panic msg"
  using assms by (simp add: Run_def DecodeToken_def offsetPage_def map_err_def Let_def)

end
