(* ===== verification/Lock_Local.thy ===== *)
theory Lock_Local
  imports App_Errors
begin

text \<open>
  The keyed, token-fenced lock: the contract of \<^verbatim>\<open>interfaces.DistributedLock\<close> as a locale, the
  in-process backend \<^verbatim>\<open>clients/lock/local\<close> as its instance, and the exclusion that clients of
  any such lock get.  The random token of \<^verbatim>\<open>uuid.NewRandom\<close> is an argument of
  \<open>lock_Acquire\<close> (\<open>Inl\<close> when the generator fails).  Every operation runs under the mutex, so a
  run is a sequence of whole operations.
\<close>

section \<open>The in-process backend\<close>

record Lock =
  held :: "string \<rightharpoonup> string"

definition lock_New :: Lock where
  "lock_New = \<lparr>held = Map.empty\<rparr>"

definition lock_Acquire :: "Lock \<Rightarrow> string \<Rightarrow> error + string \<Rightarrow> Lock \<times> (error + string \<times> bool)" where
  "lock_Acquire l key uuid =
     (case held l key of
        Some _ \<Rightarrow> (l, Inr ([], False))
      | None \<Rightarrow>
          (case uuid of
             Inl e \<Rightarrow> (l, Inl (AppError CodeInternal ''generate lock token'' [] (Some e)))
           | Inr token \<Rightarrow> (l\<lparr>held := (held l)(key \<mapsto> token)\<rparr>, Inr (token, True))))"

definition lock_Renew :: "Lock \<Rightarrow> string \<Rightarrow> string \<Rightarrow> bool" where
  "lock_Renew l key token = (case held l key of Some cur \<Rightarrow> cur = token | None \<Rightarrow> False)"

definition lock_Release :: "Lock \<Rightarrow> string \<Rightarrow> string \<Rightarrow> Lock" where
  "lock_Release l key token =
     (case held l key of
        Some cur \<Rightarrow> if cur = token then l\<lparr>held := (held l)(key := None)\<rparr> else l
      | None \<Rightarrow> l)"

section \<open>Clients of a lock\<close>

text \<open>
  What a run of clients does to a lock: a client acquires a key with the token the lock
  mints, and later renews or releases with a token it was given, its own or (after a
  mix-up) any other.  \<open>owns\<close> records the tokens a client was granted and has not released.
\<close>

datatype lock_event =
    EAcquire nat string string
  | ERenew nat string string
  | ERelease nat string string

record 's lock_run =
  the_lock :: 's
  owns :: "(nat \<times> string \<times> string) set"
  minted :: "string set"

text \<open>The operations of the lock are the arguments \<open>acq\<close>, \<open>ren\<close> and \<open>rel\<close>.\<close>

definition lock_step ::
  "('s \<Rightarrow> string \<Rightarrow> error + string \<Rightarrow> 's \<times> (error + string \<times> bool)) \<Rightarrow> ('s \<Rightarrow> string \<Rightarrow> string \<Rightarrow> bool) \<Rightarrow>
   ('s \<Rightarrow> string \<Rightarrow> string \<Rightarrow> 's) \<Rightarrow> 's lock_run \<Rightarrow> lock_event \<Rightarrow> 's lock_run" where
  "lock_step acq ren rel r e =
     (case e of
        EAcquire c k t \<Rightarrow>
          (case acq (the_lock r) k (Inr t) of
             (s', Inr (tok, True)) \<Rightarrow>
               r\<lparr>the_lock := s', owns := insert (c, k, tok) (owns r), minted := insert t (minted r)\<rparr>
           | (s', _) \<Rightarrow> r\<lparr>the_lock := s', minted := insert t (minted r)\<rparr>)
      | ERenew c k t \<Rightarrow>
          if ren (the_lock r) k t then r else r\<lparr>owns := owns r - {(c, k, t)}\<rparr>
      | ERelease c k t \<Rightarrow>
          r\<lparr>the_lock := rel (the_lock r) k t, owns := owns r - {(c', k', t'). k' = k \<and> t' = t}\<rparr>)"

definition fresh_event :: "'s lock_run \<Rightarrow> lock_event \<Rightarrow> bool" where
  "fresh_event r e = (case e of EAcquire c k t \<Rightarrow> t \<notin> minted r | _ \<Rightarrow> True)"

text \<open>
  A run is a list of events, each of which mints a token never minted before; the state
  after it is \<open>Some\<close>, and \<open>None\<close> marks a run with a repeated token.
\<close>

fun lock_runs ::
  "('s \<Rightarrow> string \<Rightarrow> error + string \<Rightarrow> 's \<times> (error + string \<times> bool)) \<Rightarrow> ('s \<Rightarrow> string \<Rightarrow> string \<Rightarrow> bool) \<Rightarrow>
   ('s \<Rightarrow> string \<Rightarrow> string \<Rightarrow> 's) \<Rightarrow> 's lock_run \<Rightarrow> lock_event list \<Rightarrow> 's lock_run option" where
  "lock_runs acq ren rel r [] = Some r"
| "lock_runs acq ren rel r (e # es) =
     (if fresh_event r e then lock_runs acq ren rel (lock_step acq ren rel r e) es else None)"

text \<open>
  The invariant: a token in a client's hands is the token of the key, every token known
  was minted, and a token belongs to one client.
\<close>

definition lock_inv :: "('s \<Rightarrow> string \<Rightarrow> string option) \<Rightarrow> 's lock_run \<Rightarrow> bool" where
  "lock_inv holder r =
     ((\<forall>c k t. (c, k, t) \<in> owns r \<longrightarrow> holder (the_lock r) k = Some t)
      \<and> (\<forall>k t. holder (the_lock r) k = Some t \<longrightarrow> t \<in> minted r)
      \<and> (\<forall>c d k l t. (c, k, t) \<in> owns r \<longrightarrow> (d, l, t) \<in> owns r \<longrightarrow> c = d))"

locale distributed_lock =
  fixes acquire :: "'s \<Rightarrow> string \<Rightarrow> error + string \<Rightarrow> 's \<times> (error + string \<times> bool)"
    and renew :: "'s \<Rightarrow> string \<Rightarrow> string \<Rightarrow> bool"
    and release :: "'s \<Rightarrow> string \<Rightarrow> string \<Rightarrow> 's"
    and holder :: "'s \<Rightarrow> string \<Rightarrow> string option"
  assumes acquire_busy: "holder s k \<noteq> None \<Longrightarrow> acquire s k u = (s, Inr ([], False))"
    and acquire_free: "holder s k = None \<Longrightarrow>
      \<exists>s'. acquire s k (Inr t) = (s', Inr (t, True)) \<and> holder s' = (holder s)(k \<mapsto> t)"
    and renew_holder: "renew s k t = (holder s k = Some t)"
    and release_holder: "holder (release s k t) =
      (if holder s k = Some t then (holder s)(k := None) else holder s)"
begin

lemma lock_inv_step:
  assumes "lock_inv holder r" "fresh_event r e"
  shows "lock_inv holder (lock_step acquire renew release r e)"
proof (cases e)
  case (EAcquire c k t)
  show ?thesis
  proof (cases "holder (the_lock r) k")
    case None
    then obtain s' where s': "acquire (the_lock r) k (Inr t) = (s', Inr (t, True))"
      "holder s' = (holder (the_lock r))(k \<mapsto> t)" using acquire_free by blast
    have "t \<notin> minted r" using assms(2) EAcquire by (simp add: fresh_event_def)
    then have "(d, l, t) \<notin> owns r" for d l using assms(1) unfolding lock_inv_def by blast
    moreover have "(d, k, u) \<notin> owns r" for d u using None assms(1) unfolding lock_inv_def by (metis option.distinct(1))
    ultimately show ?thesis
      using assms(1) s' EAcquire by (auto simp: lock_step_def lock_inv_def)
  next
    case (Some u)
    then have "acquire (the_lock r) k (Inr t) = (the_lock r, Inr ([], False))"
      using acquire_busy by simp
    then show ?thesis using assms(1) EAcquire by (auto simp: lock_step_def lock_inv_def)
  qed
next
  case (ERenew c k t)
  then show ?thesis using assms(1) by (auto simp: lock_step_def lock_inv_def)
next
  case (ERelease c k t)
  then show ?thesis using assms(1) by (auto simp: lock_step_def lock_inv_def release_holder)
qed

lemma lock_inv_runs:
  "lock_inv holder r \<Longrightarrow> lock_runs acquire renew release r es = Some r' \<Longrightarrow> lock_inv holder r'"
  by (induction es arbitrary: r) (auto split: if_splits intro: lock_inv_step)

text \<open>Exclusion: after any run, two clients never both own a key.\<close>

lemma exclusion:
  assumes "lock_inv holder r" "lock_runs acquire renew release r es = Some r'"
    "(c, k, t) \<in> owns r'" "(d, k, u) \<in> owns r'"
  shows "c = d \<and> t = u"
proof -
  have i: "lock_inv holder r'" using assms lock_inv_runs by blast
  then have "holder (the_lock r') k = Some t" "holder (the_lock r') k = Some u"
    using assms(3,4) unfolding lock_inv_def by blast+
  then have "t = u" by simp
  with i assms(3,4) show ?thesis unfolding lock_inv_def by blast
qed

text \<open>Fencing: a stale token neither renews nor frees the current holder's lock.\<close>

lemma fencing:
  "holder s k = Some t \<Longrightarrow> u \<noteq> t \<Longrightarrow> \<not> renew s k u \<and> holder (release s k u) k = Some t"
  by (simp add: renew_holder release_holder)

end

section \<open>The in-process backend meets the contract\<close>

interpretation local_lock: distributed_lock lock_Acquire lock_Renew lock_Release "\<lambda>l. held l"
  by unfold_locales
     (auto simp: lock_Acquire_def lock_Renew_def lock_Release_def split: option.splits)

section \<open>Properties\<close>

definition lock_start :: "Lock lock_run" where
  "lock_start = \<lparr>the_lock = lock_New, owns = {}, minted = {}\<rparr>"

lemma lock_start_inv: "lock_inv held lock_start"
  by (simp add: lock_inv_def lock_start_def lock_New_def)

text \<open>
  C10. Mutual exclusion with fencing on the in-process lock: after any sequence of acquires,
  renewals and releases by any clients, with tokens that never repeat, two clients never
  both own a key, an owner's token still renews, and no other token can renew or free it.
\<close>

theorem local_lock_exclusion:
  assumes "lock_runs lock_Acquire lock_Renew lock_Release lock_start es = Some r"
    "(c, k, t) \<in> owns r"
  shows "((d, k, u) \<in> owns r \<longrightarrow> c = d \<and> t = u) \<and> lock_Renew (the_lock r) k t
    \<and> (v \<noteq> t \<longrightarrow> \<not> lock_Renew (the_lock r) k v \<and> lock_Renew (lock_Release (the_lock r) k v) k t)"
proof -
  have "lock_inv held r" using local_lock.lock_inv_runs [OF lock_start_inv assms(1)] .
  then have h: "held (the_lock r) k = Some t" using assms(2) unfolding lock_inv_def by blast
  then show ?thesis
    using local_lock.exclusion [OF lock_start_inv assms, of d u] local_lock.fencing [of "the_lock r" k t v]
    by (auto simp: local_lock.renew_holder)
qed

theorem local_lock_exclusion_witness:
  "\<exists>r. lock_runs lock_Acquire lock_Renew lock_Release lock_start
       [EAcquire 1 ''k'' ''t1'', EAcquire 2 ''k'' ''t2'', ERelease 1 ''k'' ''t1'', EAcquire 2 ''k'' ''t3'',
        ERelease 1 ''k'' ''t1''] = Some r
     \<and> (2, ''k'', ''t3'') \<in> owns r \<and> lock_Renew (the_lock r) ''k'' ''t3'' \<and> \<not> lock_Renew (the_lock r) ''k'' ''t1''"
proof -
  let ?es = "[EAcquire 1 ''k'' ''t1'', EAcquire 2 ''k'' ''t2'', ERelease 1 ''k'' ''t1'', EAcquire 2 ''k'' ''t3'',
        ERelease 1 ''k'' ''t1'']"
  have "\<exists>r. lock_runs lock_Acquire lock_Renew lock_Release lock_start ?es = Some r \<and> (2, ''k'', ''t3'') \<in> owns r"
    by (simp add: lock_start_def lock_New_def lock_step_def fresh_event_def lock_Acquire_def lock_Release_def)
  then obtain r where r: "lock_runs lock_Acquire lock_Renew lock_Release lock_start ?es = Some r"
    "(2, ''k'', ''t3'') \<in> owns r" by blast
  from local_lock_exclusion [OF this, of 0 "[]" "''t1''"] r show ?thesis by auto
qed

end
