(* ===== verification/Storage_Memory.thy ===== *)
theory Storage_Memory
  imports Query_Types App_Errors
begin

text \<open>
  The in-memory object store (\<^verbatim>\<open>clients/storage/memory\<close>) behind the interface
  \<^verbatim>\<open>interfaces.StorageClient\<close>: buckets of objects, multipart uploads, prefix listings and the
  resumable token listing.  The contract of the object operations is the locale
  \<open>object_store\<close>, interpreted on this backend.

  The modification time an object gets is an argument (\<open>now\<close>, the RFC 3339 text of the
  clock), as is the result of reading the request body.  Go iterates a map in an order of
  its choice: the listings that do not sort take that order as an argument, a list of the
  bucket's keys.  Every operation runs under the mutex.
\<close>

section \<open>State\<close>

record StorageObject =
  ObjKey :: string
  ObjContentType :: string
  LastModified :: string
  ETag :: string
  Size :: int

record object =
  body :: string
  meta :: StorageObject

record multipart =
  mp_bucket :: string
  mp_key :: string
  mp_contentType :: string

record MultipartUpload =
  MpuKey :: string
  UploadID :: string
  Initiated :: string

record Client =
  buckets :: "string \<rightharpoonup> (string \<rightharpoonup> object)"
  uploads :: "string \<rightharpoonup> multipart"
  seq :: int

definition mem_New :: Client where
  "mem_New = \<lparr>buckets = Map.empty, uploads = Map.empty, seq = 0\<rparr>"

section \<open>Operations\<close>

text \<open>Reading a missing bucket reads an empty map.\<close>

definition bucket_view :: "Client \<Rightarrow> string \<Rightarrow> (string \<rightharpoonup> object)" where
  "bucket_view c bucket = (case buckets c bucket of Some m \<Rightarrow> m | None \<Rightarrow> Map.empty)"

definition bucketOf :: "Client \<Rightarrow> string \<Rightarrow> Client" where
  "bucketOf c bucket =
     (case buckets c bucket of
        Some m \<Rightarrow> c
      | None \<Rightarrow> c\<lparr>buckets := (buckets c)(bucket \<mapsto> Map.empty)\<rparr>)"

definition EnsureBucket :: "Client \<Rightarrow> string \<Rightarrow> Client" where
  "EnsureBucket c bucket = bucketOf c bucket"

definition hex_bytes :: "string \<Rightarrow> string" where
  "hex_bytes s = concat (map (\<lambda>c. let n = of_char c :: nat in [hex_digit (n div 16), hex_digit (n mod 16)]) s)"

definition mem_put :: "golib \<Rightarrow> string \<Rightarrow> Client \<Rightarrow> string \<Rightarrow> string \<Rightarrow> string \<Rightarrow> string \<Rightarrow> Client" where
  "mem_put L now c bucket key data contentType =
     (let c' = bucketOf c bucket;
          obj = \<lparr>body = data, meta = \<lparr>ObjKey = key, ObjContentType = contentType, LastModified = now,
                  ETag = hex_bytes (sha256 L data), Size = int (length data)\<rparr>\<rparr>
      in c'\<lparr>buckets := (buckets c')(bucket \<mapsto> (bucket_view c' bucket)(key \<mapsto> obj))\<rparr>)"

definition mem_get :: "Client \<Rightarrow> string \<Rightarrow> string \<Rightarrow> error + object" where
  "mem_get c bucket key =
     (case bucket_view c bucket key of
        Some obj \<Rightarrow> Inr obj
      | None \<Rightarrow> Inl (New CodeNotFound (''memory storage: '' @ bucket @ ''/'' @ key @ '' not found'')))"

definition Upload ::
  "golib \<Rightarrow> string \<Rightarrow> Client \<Rightarrow> string \<Rightarrow> string \<Rightarrow> error + string \<Rightarrow> string \<Rightarrow> Client \<times> error option" where
  "Upload L now c bucket key read contentType =
     (case read of
        Inl e \<Rightarrow> (c, Some (AppError CodeInternal ''memory storage: read body'' [] (Some e)))
      | Inr data \<Rightarrow> (mem_put L now c bucket key data contentType, None))"

definition Download :: "Client \<Rightarrow> string \<Rightarrow> string \<Rightarrow> error + string" where
  "Download c bucket key = bind_result (mem_get c bucket key) (\<lambda>obj. Inr (body obj))"

definition mem_Delete :: "Client \<Rightarrow> string \<Rightarrow> string \<Rightarrow> Client" where
  "mem_Delete c bucket key =
     (case buckets c bucket of
        None \<Rightarrow> c
      | Some m \<Rightarrow> c\<lparr>buckets := (buckets c)(bucket \<mapsto> m(key := None))\<rparr>)"

fun DeleteBatch :: "Client \<Rightarrow> string \<Rightarrow> string list \<Rightarrow> Client" where
  "DeleteBatch c bucket [] = c"
| "DeleteBatch c bucket (key # keys) = DeleteBatch (mem_Delete c bucket key) bucket keys"

definition Exists :: "Client \<Rightarrow> string \<Rightarrow> string \<Rightarrow> bool" where
  "Exists c bucket key = (bucket_view c bucket key \<noteq> None)"

definition Stat :: "Client \<Rightarrow> string \<Rightarrow> string \<Rightarrow> error + StorageObject" where
  "Stat c bucket key = bind_result (mem_get c bucket key) (\<lambda>obj. Inr (meta obj))"

definition memoryURL :: "string \<Rightarrow> string \<Rightarrow> string" where
  "memoryURL bucket key = ''memory://'' @ bucket @ ''/'' @ key"

definition PresignURL :: "string \<Rightarrow> string \<Rightarrow> string" where
  "PresignURL bucket key = memoryURL bucket key"

definition PresignPutURL :: "string \<Rightarrow> string \<Rightarrow> string" where
  "PresignPutURL bucket key = memoryURL bucket key"

subsection \<open>Multipart uploads\<close>

definition CreateMultipartUpload :: "Client \<Rightarrow> string \<Rightarrow> string \<Rightarrow> string \<Rightarrow> Client \<times> string" where
  "CreateMultipartUpload c bucket key contentType =
     (let n = seq c + 1; ident = ''mem-upload-'' @ Itoa n in
      (c\<lparr>seq := n, uploads := (uploads c)(ident \<mapsto>
         \<lparr>mp_bucket = bucket, mp_key = key, mp_contentType = contentType\<rparr>)\<rparr>, ident))"

definition PresignUploadPart :: "string \<Rightarrow> string \<Rightarrow> string \<Rightarrow> int \<Rightarrow> string" where
  "PresignUploadPart bucket key uploadID partNumber =
     memoryURL bucket key @ ''?uploadId='' @ uploadID @ ''&partNumber='' @ Itoa partNumber"

definition CompleteMultipartUpload ::
  "golib \<Rightarrow> string \<Rightarrow> Client \<Rightarrow> string \<Rightarrow> string \<Rightarrow> string \<Rightarrow> Client \<times> error option" where
  "CompleteMultipartUpload L now c bucket key uploadID =
     (let missing = (c, Some (New CodeNotFound (''memory storage: upload '' @ uploadID @
            '' not found for '' @ bucket @ ''/'' @ key)))
      in case uploads c uploadID of
           None \<Rightarrow> missing
         | Some up \<Rightarrow>
             if mp_bucket up \<noteq> bucket \<or> mp_key up \<noteq> key then missing
             else (let c' = mem_put L now c bucket key [] (mp_contentType up) in
                   (c'\<lparr>uploads := (uploads c')(uploadID := None)\<rparr>, None)))"

definition AbortMultipartUpload :: "Client \<Rightarrow> string \<Rightarrow> Client" where
  "AbortMultipartUpload c uploadID = c\<lparr>uploads := (uploads c)(uploadID := None)\<rparr>"

text \<open>\<open>ids\<close> is the iteration order of the upload map.\<close>

definition ListMultipartUploads :: "Client \<Rightarrow> string list \<Rightarrow> string \<Rightarrow> MultipartUpload list" where
  "ListMultipartUploads c ids bucket =
     List.map_filter (\<lambda>ident. case uploads c ident of
         Some up \<Rightarrow> if mp_bucket up = bucket then Some \<lparr>MpuKey = mp_key up, UploadID = ident, Initiated = []\<rparr>
                    else None
       | None \<Rightarrow> None) ids"

subsection \<open>Listings\<close>

text \<open>\<open>ks\<close> is the iteration order of the bucket's map.\<close>

definition ListObjects :: "Client \<Rightarrow> string list \<Rightarrow> string \<Rightarrow> string \<Rightarrow> StorageObject list" where
  "ListObjects c ks bucket prfx =
     List.map_filter (\<lambda>key. if HasPrefix key prfx
        then map_option meta (bucket_view c bucket key) else None) ks"

fun list_page_loop :: "(string \<rightharpoonup> object) \<Rightarrow> string \<Rightarrow> int \<Rightarrow> string list \<Rightarrow> StorageObject list \<Rightarrow> StorageObject list" where
  "list_page_loop m prfx limit [] objects = objects"
| "list_page_loop m prfx limit (key # ks) objects =
     (if limit > 0 \<and> int (length objects) \<ge> limit then objects
      else list_page_loop m prfx limit ks
             (case m key of
                Some obj \<Rightarrow> if HasPrefix key prfx then objects @ [meta obj] else objects
              | None \<Rightarrow> objects))"

definition ListObjectsPage :: "Client \<Rightarrow> string list \<Rightarrow> string \<Rightarrow> string \<Rightarrow> int \<Rightarrow> StorageObject list" where
  "ListObjectsPage c ks bucket prfx limit = list_page_loop (bucket_view c bucket) prfx limit ks []"

text \<open>The token listing sorts the remaining keys, so the iteration order does not matter.\<close>

fun token_loop :: "(string \<rightharpoonup> object) \<Rightarrow> int \<Rightarrow> string list \<Rightarrow> StorageObject list \<Rightarrow> StorageObject list \<times> string" where
  "token_loop m limit [] objects = (objects, [])"
| "token_loop m limit (key # keys) objects =
     (if limit > 0 \<and> int (length objects) \<ge> limit then (objects, ObjKey (last objects))
      else token_loop m limit keys
             (case m key of Some obj \<Rightarrow> objects @ [meta obj] | None \<Rightarrow> objects))"

definition ListObjectsPageToken ::
  "Client \<Rightarrow> string list \<Rightarrow> string \<Rightarrow> string \<Rightarrow> string \<Rightarrow> int \<Rightarrow> StorageObject list \<times> string" where
  "ListObjectsPageToken c ks bucket prfx token limit =
     (let m = bucket_view c bucket;
          keys = sort (filter (\<lambda>key. HasPrefix key prfx \<and> key > token) ks)
      in token_loop m limit keys [])"

section \<open>The contract of an object store\<close>

text \<open>
  \<open>view s b k\<close> is the body stored under a key.  A write changes exactly its key, a delete
  removes exactly its key, reading returns the stored body or a not-found error.
\<close>

datatype store_op = SPut string string string | SDelete string string

definition do_op ::
  "('s \<Rightarrow> string \<Rightarrow> string \<Rightarrow> string \<Rightarrow> 's) \<Rightarrow> ('s \<Rightarrow> string \<Rightarrow> string \<Rightarrow> 's) \<Rightarrow> 's \<Rightarrow> store_op \<Rightarrow> 's" where
  "do_op put del s op = (case op of SPut b k d \<Rightarrow> put s b k d | SDelete b k \<Rightarrow> del s b k)"

definition op_on :: "string \<Rightarrow> string \<Rightarrow> store_op \<Rightarrow> bool" where
  "op_on b k op = (case op of SPut b' k' d \<Rightarrow> b' = b \<and> k' = k | SDelete b' k' \<Rightarrow> b' = b \<and> k' = k)"

locale object_store =
  fixes put_op :: "'s \<Rightarrow> string \<Rightarrow> string \<Rightarrow> string \<Rightarrow> 's"
    and del_op :: "'s \<Rightarrow> string \<Rightarrow> string \<Rightarrow> 's"
    and get_op :: "'s \<Rightarrow> string \<Rightarrow> string \<Rightarrow> error + string"
    and view :: "'s \<Rightarrow> string \<Rightarrow> string \<Rightarrow> string option"
  assumes put_view: "view (put_op s b k d) b' k' = (if b' = b \<and> k' = k then Some d else view s b' k')"
    and del_view: "view (del_op s b k) b' k' = (if b' = b \<and> k' = k then None else view s b' k')"
    and get_found: "view s b k = Some d \<Longrightarrow> get_op s b k = Inr d"
    and get_missing: "view s b k = None \<Longrightarrow> \<exists>e. get_op s b k = Inl e \<and> Code (Some e) = CodeNotFound"
begin

text \<open>The last operation on a key decides what a read of it returns.\<close>

lemma last_write_wins:
  "view (foldl (do_op put_op del_op) s ops) b k =
     (case find (op_on b k) (rev ops) of
        Some (SPut b' k' d) \<Rightarrow> Some d
      | Some (SDelete b' k') \<Rightarrow> None
      | None \<Rightarrow> view s b k)"
proof (induction ops rule: rev_induct)
  case (snoc op ops)
  then show ?case
    by (cases op) (auto simp: do_op_def op_on_def put_view del_view)
qed simp

end

text \<open>Every object's metadata describes it.\<close>

definition meta_ok :: "golib \<Rightarrow> Client \<Rightarrow> bool" where
  "meta_ok L c =
     (\<forall>b k obj. bucket_view c b k = Some obj \<longrightarrow>
        ObjKey (meta obj) = k \<and> Size (meta obj) = int (length (body obj))
        \<and> ETag (meta obj) = hex_bytes (sha256 L (body obj)))"

text \<open>A caller that resumes the token listing until it is exhausted, up to \<open>n\<close> pages.\<close>

fun crawl :: "nat \<Rightarrow> Client \<Rightarrow> string list \<Rightarrow> string \<Rightarrow> string \<Rightarrow> string \<Rightarrow> int \<Rightarrow> StorageObject list option" where
  "crawl 0 c ks bucket prfx token limit = None"
| "crawl (Suc n) c ks bucket prfx token limit =
     (case ListObjectsPageToken c ks bucket prfx token limit of (objs, nxt) \<Rightarrow>
        if nxt = [] then Some objs
        else map_option (\<lambda>rest. objs @ rest) (crawl n c ks bucket prfx nxt limit))"

definition mem_view :: "Client \<Rightarrow> string \<Rightarrow> string \<Rightarrow> string option" where
  "mem_view c b k = map_option body (bucket_view c b k)"

section \<open>Lemmas\<close>

lemma bucket_view_bucketOf [simp]: "bucket_view (bucketOf c b) b' = bucket_view c b'"
  by (auto simp: bucketOf_def bucket_view_def split: option.splits)

lemma bucket_view_put:
  "bucket_view (mem_put L now c b k d ct) b' k' =
     (if b' = b \<and> k' = k
      then Some \<lparr>body = d, meta = \<lparr>ObjKey = k, ObjContentType = ct, LastModified = now,
             ETag = hex_bytes (sha256 L d), Size = int (length d)\<rparr>\<rparr>
      else bucket_view c b' k')"
proof -
  have "bucket_view (mem_put L now c b k d ct) b' =
      (if b' = b then (bucket_view c b)(k \<mapsto> \<lparr>body = d, meta = \<lparr>ObjKey = k, ObjContentType = ct, LastModified = now,
             ETag = hex_bytes (sha256 L d), Size = int (length d)\<rparr>\<rparr>) else bucket_view c b')"
    by (simp add: mem_put_def Let_def bucket_view_def) (simp add: bucketOf_def split: option.splits)
  then show ?thesis by simp
qed

lemma bucket_view_Delete:
  "bucket_view (mem_Delete c b k) b' k' = (if b' = b \<and> k' = k then None else bucket_view c b' k')"
  by (auto simp: mem_Delete_def bucket_view_def split: option.splits)

interpretation mem: object_store "\<lambda>c b k d. fst (Upload L now c b k (Inr d) ct)" mem_Delete Download mem_view
  for L now ct
  by unfold_locales
     (auto simp: Upload_def mem_view_def bucket_view_put bucket_view_Delete Download_def mem_get_def
       split: option.splits)

lemma token_loop_take:
  assumes "0 < limit" "\<And>k. k \<in> set keys \<Longrightarrow> m k = Some (f k)"
  shows "int (length objs) \<le> limit \<Longrightarrow>
    token_loop m limit keys objs =
      (let out = objs @ map (\<lambda>k. meta (f k)) (take (nat limit - length objs) keys) in
       (out, if int (length objs + length keys) > limit then ObjKey (last out) else []))"
  using assms(2)
proof (induction keys arbitrary: objs)
  case (Cons k keys)
  show ?case
  proof (cases "int (length objs) < limit")
    case True
    then have "nat limit - length objs = Suc (nat limit - Suc (length objs))" by linarith
    with Cons.IH [of "objs @ [meta (f k)]"] Cons.prems True show ?thesis by (simp add: Let_def)
  next
    case False
    with Cons.prems(1) have "nat limit - length objs = 0" by simp
    with False show ?thesis using assms(1) Cons.prems(1) by (simp add: Let_def)
  qed
qed (simp add: Let_def)

lemma meta_ok_put: "meta_ok L c \<Longrightarrow> meta_ok L (mem_put L now c b k d ct)"
  unfolding meta_ok_def bucket_view_put by auto

lemma meta_ok_Delete: "meta_ok L c \<Longrightarrow> meta_ok L (mem_Delete c b k)"
  unfolding meta_ok_def bucket_view_Delete by auto

lemma bucket_view_cong: "buckets c = buckets c' \<Longrightarrow> bucket_view c = bucket_view c'"
  by (simp add: bucket_view_def [abs_def])

lemma meta_ok_cong: "buckets c = buckets c' \<Longrightarrow> meta_ok L c = meta_ok L c'"
  using bucket_view_cong [of c c'] by (simp add: meta_ok_def)

lemma meta_ok_upd [simp]:
  "meta_ok L (c\<lparr>uploads := u\<rparr>) = meta_ok L c" "meta_ok L (c\<lparr>seq := n, uploads := u\<rparr>) = meta_ok L c"
  "meta_ok L (c\<lparr>seq := n\<rparr>) = meta_ok L c"
  by (rule meta_ok_cong; simp)+

lemma meta_ok_DeleteBatch: "meta_ok L c \<Longrightarrow> meta_ok L (DeleteBatch c b keys)"
  by (induction keys arbitrary: c) (simp_all add: meta_ok_Delete)

lemma sorted_strict: "sorted_wrt (<) (xs :: 'a :: linorder list) = (sorted xs \<and> distinct xs)"
  by (rule strict_sorted_iff)

text \<open>Resuming after the last key of a page lists exactly the rest.\<close>

lemma keys_after:
  fixes keys :: "string list"
  assumes "sorted_wrt (<) keys" "0 < j" "j \<le> length keys" "set keys = set (filter P ks)" "distinct ks"
  shows "sort (filter (\<lambda>k. P k \<and> k > keys ! (j - 1)) ks) = drop j keys"
proof -
  have "filter (\<lambda>k. keys ! (j - 1) < k) keys = drop j keys"
    using sorted_wrt_filter_after [of "(<)" keys "j - 1"] assms(1-3) by simp
  moreover have "sort (filter (\<lambda>k. P k \<and> k > keys ! (j - 1)) ks) = filter (\<lambda>k. keys ! (j - 1) < k) keys"
    by (rule sorted_distinct_set_unique)
       (use assms(1,4,5) in \<open>auto simp: sorted_strict intro: sorted_wrt_filter\<close>)
  ultimately show ?thesis by simp
qed

lemma page_token_drop:
  assumes m: "meta_ok L c" and keys: "sorted_wrt (<) keys"
    "set keys = set (filter (\<lambda>k. HasPrefix k prfx) ks)" "distinct ks"
    "\<And>k. k \<in> set ks \<Longrightarrow> bucket_view c bucket k \<noteq> None" and lim: "0 < limit"
    and tok: "sort (filter (\<lambda>k. HasPrefix k prfx \<and> k > tok) ks) = drop j keys"
  shows "ListObjectsPageToken c ks bucket prfx tok limit =
    (map (\<lambda>k. meta (the (bucket_view c bucket k))) (take (nat limit) (drop j keys)),
     if int (length (drop j keys)) > limit then keys ! (j + nat limit - 1) else [])"
proof -
  let ?f = "\<lambda>k. the (bucket_view c bucket k)"
  have k: "\<And>k. k \<in> set (drop j keys) \<Longrightarrow> bucket_view c bucket k = Some (?f k)"
    using keys(2,4) by (auto dest!: in_set_dropD)
  have last: "ObjKey (last (map (\<lambda>k. meta (?f k)) (take (nat limit) (drop j keys)))) = keys ! (j + nat limit - 1)"
    if "int (length (drop j keys)) > limit"
  proof -
    have n: "take (nat limit) (drop j keys) \<noteq> []" using that lim by auto
    have l: "last (take (nat limit) (drop j keys)) = keys ! (j + nat limit - 1)"
      using that lim last_take_nth [of "nat limit" "drop j keys"] by (simp add: nth_drop add_diff_assoc)
    have "last (take (nat limit) (drop j keys)) \<in> set (drop j keys)"
      using n by (meson in_set_takeD last_in_set)
    then show ?thesis
      using n l m k by (auto simp: last_map meta_ok_def)
  qed
  have "token_loop (bucket_view c bucket) limit (drop j keys) [] =
      (map (\<lambda>k. meta (?f k)) (take (nat limit) (drop j keys)),
       if int (length (drop j keys)) > limit
       then ObjKey (last (map (\<lambda>k. meta (?f k)) (take (nat limit) (drop j keys)))) else [])"
    using token_loop_take [of limit "drop j keys" "bucket_view c bucket" ?f "[]"] lim k by (simp add: Let_def)
  with last show ?thesis
    unfolding ListObjectsPageToken_def Let_def tok by (simp only: prod.inject) (simp split: if_split)
qed

lemma crawl_from:
  assumes m: "meta_ok L c" and keys: "sorted_wrt (<) keys"
    "set keys = set (filter (\<lambda>k. HasPrefix k prfx) ks)" "distinct ks"
    "\<And>k. k \<in> set ks \<Longrightarrow> bucket_view c bucket k \<noteq> None" "[] \<notin> set keys" and lim: "0 < limit"
  shows "length keys - j < n \<Longrightarrow> j \<le> length keys \<Longrightarrow>
    sort (filter (\<lambda>k. HasPrefix k prfx \<and> k > tok) ks) = drop j keys \<Longrightarrow>
    crawl n c ks bucket prfx tok limit = Some (map (\<lambda>k. meta (the (bucket_view c bucket k))) (drop j keys))"
proof (induction n arbitrary: j tok)
  case (Suc n)
  note page = page_token_drop [OF m keys(1-4) lim Suc.prems(3)]
  show ?case
  proof (cases "int (length (drop j keys)) > limit")
    case False
    then show ?thesis using page lim by simp
  next
    case True
    define j' where "j' = j + nat limit"
    have j': "j' < length keys" "0 < j'" "j < j'" using True lim by (auto simp: j'_def)
    have "keys ! (j' - 1) \<noteq> []" using keys(5) j' by (metis Suc_diff_1 Suc_lessD nth_mem)
    moreover have "crawl n c ks bucket prfx (keys ! (j' - 1)) limit =
        Some (map (\<lambda>k. meta (the (bucket_view c bucket k))) (drop j' keys))"
      by (rule Suc.IH) (use Suc.prems(1) j' keys_after [OF keys(1) _ _ keys(2,3), of j'] in auto)
    moreover have "take (nat limit) (drop j keys) @ drop j' keys = drop j keys"
      by (metis j'_def add.commute append_take_drop_id drop_drop)
    ultimately show ?thesis using page True by (simp add: j'_def flip: map_append)
  qed
qed simp

section \<open>Properties\<close>

text \<open>
  C12. The in-memory store reads back the last write: after any sequence of uploads and
  deletes on any buckets and keys, a download returns the body of the last upload of that
  key, or a not-found error when the key was deleted after it or never written.
\<close>

theorem memory_last_write_wins:
  fixes L now ct c ops
  defines "c' \<equiv> foldl (do_op (\<lambda>c b k d. fst (Upload L now c b k (Inr d) ct)) mem_Delete) mem_New ops"
  shows "(case find (op_on b k) (rev ops) of
            Some (SPut b' k' d) \<Rightarrow> Download c' b k = Inr d
          | _ \<Rightarrow> (\<exists>e. Download c' b k = Inl e \<and> Code (Some e) = CodeNotFound))"
proof -
  have v: "mem_view c' b k = (case find (op_on b k) (rev ops) of
      Some (SPut b' k' d) \<Rightarrow> Some d | Some (SDelete b' k') \<Rightarrow> None | None \<Rightarrow> mem_view mem_New b k)"
    unfolding c'_def by (rule mem.last_write_wins)
  have "mem_view mem_New b k = None" by (simp add: mem_view_def bucket_view_def mem_New_def)
  then show ?thesis
    using v mem.get_found [of c' b k] mem.get_missing [of c' b k]
    by (auto split: option.splits store_op.splits)
qed

text \<open>
  Object metadata always describes the stored bytes: every operation that changes the
  store keeps the key, the size and the hash of every object true.
\<close>

lemma memory_meta_invariant:
  "meta_ok L mem_New \<and>
   (meta_ok L c \<longrightarrow>
      meta_ok L (EnsureBucket c b) \<and> meta_ok L (fst (Upload L now c b k rd ct)) \<and> meta_ok L (mem_Delete c b k)
      \<and> meta_ok L (DeleteBatch c b keys) \<and> meta_ok L (fst (CreateMultipartUpload c b k ct))
      \<and> meta_ok L (fst (CompleteMultipartUpload L now c b k u)) \<and> meta_ok L (AbortMultipartUpload c u))"
proof -
  have "meta_ok L mem_New" by (simp add: meta_ok_def bucket_view_def mem_New_def)
  moreover have "meta_ok L (EnsureBucket c b)" if "meta_ok L c"
    using that by (simp add: meta_ok_def EnsureBucket_def)
  moreover have "meta_ok L (fst (Upload L now c b k rd ct))" if "meta_ok L c"
    using that by (simp add: Upload_def meta_ok_put split: sum.splits)
  moreover have "meta_ok L (fst (CreateMultipartUpload c b k ct)) \<and> meta_ok L (AbortMultipartUpload c u)" if "meta_ok L c"
    using that by (simp add: CreateMultipartUpload_def AbortMultipartUpload_def Let_def)
  moreover have "meta_ok L (fst (CompleteMultipartUpload L now c b k u))" if "meta_ok L c"
    using that by (simp add: CompleteMultipartUpload_def Let_def meta_ok_put split: option.splits)
  ultimately show ?thesis using meta_ok_Delete meta_ok_DeleteBatch by blast
qed


text \<open>
  C11. A crawl that resumes the token listing until it is exhausted sees every object under
  the prefix exactly once, in key order, in at most one page per object: whatever the page
  limit, and whatever order the map is iterated in.
\<close>

theorem token_listing_complete:
  assumes "meta_ok L c" "distinct ks" "\<And>k. (bucket_view c bucket k \<noteq> None) = (k \<in> set ks)"
    "0 < limit" "[] \<notin> set ks" "length ks < n"
  shows "crawl n c ks bucket prfx [] limit =
    Some (map (\<lambda>k. meta (the (bucket_view c bucket k))) (sort (filter (\<lambda>k. HasPrefix k prfx) ks)))"
proof -
  let ?keys = "sort (filter (\<lambda>k. HasPrefix k prfx) ks)"
  have "length ?keys < n" using assms(6) length_filter_le [of "\<lambda>k. HasPrefix k prfx" ks]
    by (metis length_sort order_le_less_trans)
  moreover have "filter (\<lambda>k. HasPrefix k prfx \<and> [] < k) ks = filter (\<lambda>k. HasPrefix k prfx) ks"
    by (rule filter_cong [OF refl]) (use assms(5) in \<open>metis Nil_less_Cons neq_Nil_conv\<close>)
  ultimately show ?thesis
    using crawl_from [OF assms(1), of ?keys prfx ks bucket limit 0 n "[]"] assms(2-6)
    by (simp add: sorted_strict)
qed

theorem token_listing_complete_witness:
  "crawl 3 (mem_put demo_lib [] (mem_put demo_lib [] mem_New ''b'' ''x'' ''1'' []) ''b'' ''y'' ''2'' []) [''y'', ''x'']
     ''b'' [] [] 1 =
   Some (map (\<lambda>k. meta (the (bucket_view (mem_put demo_lib [] (mem_put demo_lib [] mem_New ''b'' ''x'' ''1'' [])
       ''b'' ''y'' ''2'' []) ''b'' k))) (sort (filter (\<lambda>k. HasPrefix k []) [''y'', ''x''])))"
proof (rule token_listing_complete)
  have "meta_ok demo_lib mem_New" by (simp add: meta_ok_def bucket_view_def mem_New_def)
  then show "meta_ok demo_lib (mem_put demo_lib [] (mem_put demo_lib [] mem_New ''b'' ''x'' ''1'' []) ''b'' ''y'' ''2'' [])"
    by (intro meta_ok_put)
  have "bucket_view mem_New b k = None" for b k by (simp add: bucket_view_def mem_New_def)
  then show "(bucket_view (mem_put demo_lib [] (mem_put demo_lib [] mem_New ''b'' ''x'' ''1'' []) ''b'' ''y'' ''2'' [])
      ''b'' k \<noteq> None) = (k \<in> set [''y'', ''x''])" for k
    by (auto simp: bucket_view_put)
qed simp_all

end
