(* ===== verification/Replay_Memory.thy ===== *)
theory Replay_Memory
  imports App_Errors
begin

text \<open>
  The replay buffer of reconnecting sockets: the contract of \<^verbatim>\<open>interfaces.ReplayBuffer\<close> as a
  locale and the in-process backend \<^verbatim>\<open>clients/replaybuffer/memory\<close> as its instance.  Times
  are nanoseconds; every reading of the clock is an argument.  Every method runs under the
  mutex, so a run is a sequence of whole operations.
\<close>

section \<open>The in-process backend\<close>

record BufferedMessage =
  ID :: string
  Payload :: string

record keyBuffer =
  expiry :: int
  lowWater :: string
  msgs :: "BufferedMessage list"

record Buffer =
  keys :: "string \<rightharpoonup> keyBuffer"
  maxSize :: int
  ttl :: int

definition buf_New :: "int \<Rightarrow> int \<Rightarrow> Buffer" where
  "buf_New n t = \<lparr>keys = Map.empty, maxSize = n, ttl = t\<rparr>"

definition live :: "Buffer \<Rightarrow> int \<Rightarrow> string \<Rightarrow> Buffer \<times> keyBuffer option" where
  "live b now key =
     (case keys b key of
        None \<Rightarrow> (b, None)
      | Some kb \<Rightarrow>
          if expiry kb < now then (b\<lparr>keys := (keys b)(key := None)\<rparr>, None) else (b, Some kb))"

text \<open>\<open>slice_from xs i\<close> is \<^verbatim>\<open>xs[i:]\<close>: it panics when \<open>i\<close> is out of range.\<close>

definition slice_from :: "'a list \<Rightarrow> int \<Rightarrow> 'a list outcome" where
  "slice_from xs i =
     (if 0 \<le> i \<and> i \<le> int (length xs) then Return (drop (nat i) xs)
      else Panic ''slice bounds out of range'')"

text \<open>Eviction: the newest \<open>maxSize\<close> messages are kept.\<close>

definition evict :: "int \<Rightarrow> 'a list \<Rightarrow> 'a list outcome" where
  "evict mx ms = (if mx < int (length ms) then slice_from ms (int (length ms) - mx) else Return ms)"

text \<open>
  \<open>now\<close> is the clock that \<^verbatim>\<open>live\<close> reads, \<open>now2\<close> the later reading that sets the expiry.
\<close>

definition buf_Append :: "Buffer \<Rightarrow> int \<Rightarrow> int \<Rightarrow> string \<Rightarrow> string \<Rightarrow> string \<Rightarrow> Buffer outcome" where
  "buf_Append b now now2 key msgID payload =
     (let (b, found) = live b now key;
          kb = (case found of Some kb \<Rightarrow> kb | None \<Rightarrow> \<lparr>expiry = 0, lowWater = [], msgs = []\<rparr>);
          ms = msgs kb @ [\<lparr>ID = msgID, Payload = payload\<rparr>]
      in case evict (maxSize b) ms of
           Panic p \<Rightarrow> Panic p
         | Return ms \<Rightarrow> Return (b\<lparr>keys := (keys b)(key \<mapsto> kb\<lparr>msgs := ms, expiry := now2 + ttl b\<rparr>)\<rparr>))"

text \<open>The messages after the first one with the given id, if there is one.\<close>

fun after_id :: "string \<Rightarrow> BufferedMessage list \<Rightarrow> BufferedMessage list option" where
  "after_id i [] = None"
| "after_id i (m # ms) = (if ID m = i then Some ms else after_id i ms)"

definition buf_ReplayAfter :: "Buffer \<Rightarrow> int \<Rightarrow> string \<Rightarrow> string \<Rightarrow> Buffer \<times> BufferedMessage list \<times> bool" where
  "buf_ReplayAfter b now key afterMsgID =
     (case live b now key of
        (b, None) \<Rightarrow> (b, [], False)
      | (b, Some kb) \<Rightarrow>
          if afterMsgID = [] then (b, [], False)
          else if afterMsgID = lowWater kb then (b, msgs kb, True)
          else (case after_id afterMsgID (msgs kb) of
                  Some ms \<Rightarrow> (b, ms, True)
                | None \<Rightarrow> (b, [], False)))"

definition buf_Prune :: "Buffer \<Rightarrow> int \<Rightarrow> string \<Rightarrow> string \<Rightarrow> Buffer" where
  "buf_Prune b now key upToMsgID =
     (case live b now key of
        (b, None) \<Rightarrow> b
      | (b, Some kb) \<Rightarrow>
          (case after_id upToMsgID (msgs kb) of
             Some ms \<Rightarrow> b\<lparr>keys := (keys b)(key \<mapsto> kb\<lparr>lowWater := upToMsgID, msgs := ms\<rparr>)\<rparr>
           | None \<Rightarrow> b))"

definition buf_Delete :: "Buffer \<Rightarrow> string \<Rightarrow> Buffer" where
  "buf_Delete b key = b\<lparr>keys := (keys b)(key := None)\<rparr>"

section \<open>Selecting a backend\<close>

datatype replay_Kind = KindMemory | KindRedis | OtherKind

fun replay_kind_text :: "replay_Kind \<Rightarrow> string" where
  "replay_kind_text KindMemory = ''memory''"
| "replay_kind_text KindRedis = ''redis''"
| "replay_kind_text OtherKind = ''unknown''"

datatype replay_backend = MemoryBackend Buffer | RedisBackend

definition replay_NewFromConfig :: "replay_Kind \<Rightarrow> int \<Rightarrow> int \<Rightarrow> bool \<Rightarrow> error + replay_backend" where
  "replay_NewFromConfig kind n t has_client =
     (if n \<le> 0 then Inl (New CodeInvalidInput ''replay max_size must be positive'')
      else if t \<le> 0 then Inl (New CodeInvalidInput ''replay ttl must be positive'')
      else case kind of
        KindMemory \<Rightarrow> Inr (MemoryBackend (buf_New n t))
      | KindRedis \<Rightarrow>
          if has_client then Inr RedisBackend
          else Inl (New CodeInvalidInput ''replay redis kind requires a redis client'')
      | OtherKind \<Rightarrow> Inl (New CodeInvalidInput (''unknown replay buffer kind: '' @ replay_kind_text kind)))"

section \<open>What clients of a replay buffer see\<close>

text \<open>
  A run of appends, acknowledgements, replays and deletes.  \<open>hist\<close> records, per key, every
  message appended since the key's buffer was last created: what a socket was sent.
\<close>

datatype replay_event =
    EAppend int int string string string
  | EPrune int string string
  | EReplay int string string
  | EDelete string

record 's replay_run =
  the_buffer :: 's
  hist :: "string \<Rightarrow> BufferedMessage list"

definition lastn :: "int \<Rightarrow> 'a list \<Rightarrow> 'a list" where
  "lastn n xs = drop (length xs - nat n) xs"

text \<open>
  One step over the operations \<open>app\<close>, \<open>rep\<close>, \<open>pru\<close> and \<open>del\<close> of a buffer; \<open>alive s t k\<close> says
  that the buffer still has key \<open>k\<close> at time \<open>t\<close>.
\<close>

definition replay_step ::
  "('s \<Rightarrow> int \<Rightarrow> string \<Rightarrow> bool) \<Rightarrow> ('s \<Rightarrow> int \<Rightarrow> int \<Rightarrow> string \<Rightarrow> string \<Rightarrow> string \<Rightarrow> 's outcome) \<Rightarrow>
   ('s \<Rightarrow> int \<Rightarrow> string \<Rightarrow> string \<Rightarrow> 's \<times> BufferedMessage list \<times> bool) \<Rightarrow>
   ('s \<Rightarrow> int \<Rightarrow> string \<Rightarrow> string \<Rightarrow> 's) \<Rightarrow> ('s \<Rightarrow> string \<Rightarrow> 's) \<Rightarrow>
   's replay_run \<Rightarrow> replay_event \<Rightarrow> 's replay_run outcome" where
  "replay_step alive app rep pru del r e =
     (let s = the_buffer r in
      case e of
        EAppend t t2 k i p \<Rightarrow>
          (case app s t t2 k i p of
             Panic q \<Rightarrow> Panic q
           | Return s' \<Rightarrow> Return (r\<lparr>the_buffer := s', hist := (hist r)(k :=
                 (if alive s t k then hist r k else []) @ [\<lparr>ID = i, Payload = p\<rparr>])\<rparr>))
      | EPrune t k i \<Rightarrow> Return (r\<lparr>the_buffer := pru s t k i\<rparr>)
      | EReplay t k i \<Rightarrow> Return (r\<lparr>the_buffer := fst (rep s t k i)\<rparr>)
      | EDelete k \<Rightarrow> Return (r\<lparr>the_buffer := del s k, hist := (hist r)(k := [])\<rparr>))"

text \<open>Message ids are not empty and are not repeated within a key.\<close>

definition fresh_msg :: "'s replay_run \<Rightarrow> replay_event \<Rightarrow> bool" where
  "fresh_msg r e = (case e of EAppend t t2 k i p \<Rightarrow> i \<noteq> [] \<and> i \<notin> ID ` set (hist r k) | _ \<Rightarrow> True)"

fun replay_runs ::
  "('s replay_run \<Rightarrow> replay_event \<Rightarrow> 's replay_run outcome) \<Rightarrow> 's replay_run \<Rightarrow> replay_event list \<Rightarrow>
   's replay_run option outcome" where
  "replay_runs step r [] = Return (Some r)"
| "replay_runs step r (e # es) =
     (if \<not> fresh_msg r e then Return None
      else case step r e of Panic q \<Rightarrow> Panic q | Return r' \<Rightarrow> replay_runs step r' es)"

text \<open>
  The contract: some relation \<open>inv\<close> between the histories and the buffer is kept by every
  operation, appends do not panic under it, and a replay reported complete is the newest
  \<open>cap\<close> of the messages sent after the anchor.
\<close>

locale replay_buffer =
  fixes cap :: int
    and inv :: "(string \<Rightarrow> BufferedMessage list) \<Rightarrow> 's \<Rightarrow> bool"
    and alive :: "'s \<Rightarrow> int \<Rightarrow> string \<Rightarrow> bool"
    and app :: "'s \<Rightarrow> int \<Rightarrow> int \<Rightarrow> string \<Rightarrow> string \<Rightarrow> string \<Rightarrow> 's outcome"
    and rep :: "'s \<Rightarrow> int \<Rightarrow> string \<Rightarrow> string \<Rightarrow> 's \<times> BufferedMessage list \<times> bool"
    and pru :: "'s \<Rightarrow> int \<Rightarrow> string \<Rightarrow> string \<Rightarrow> 's"
    and del :: "'s \<Rightarrow> string \<Rightarrow> 's"
  assumes append_inv: "\<lbrakk>inv h s; i \<noteq> []; i \<notin> ID ` set (h k)\<rbrakk> \<Longrightarrow>
      \<exists>s'. app s t t2 k i p = Return s' \<and>
        inv (h(k := (if alive s t k then h k else []) @ [\<lparr>ID = i, Payload = p\<rparr>])) s'"
    and prune_inv: "inv h s \<Longrightarrow> inv h (pru s t k i)"
    and replay_inv: "inv h s \<Longrightarrow> inv h (fst (rep s t k i))"
    and delete_inv: "inv h s \<Longrightarrow> inv (h(k := [])) (del s k)"
    and replay_complete: "\<lbrakk>inv h s; rep s t k i = (s', ms, True)\<rbrakk> \<Longrightarrow>
      \<exists>sent. after_id i (h k) = Some sent \<and> ms = lastn cap sent"
begin

lemma step_inv:
  assumes "inv (hist r) (the_buffer r)" "fresh_msg r e"
  shows "\<exists>r'. replay_step alive app rep pru del r e = Return r' \<and> inv (hist r') (the_buffer r')"
proof (cases e)
  case (EAppend t t2 k i p)
  then show ?thesis
    using assms append_inv [OF assms(1), of i k t t2 p] by (auto simp: replay_step_def fresh_msg_def Let_def)
qed (use assms prune_inv replay_inv delete_inv in \<open>auto simp: replay_step_def Let_def\<close>)

lemma runs_inv:
  assumes "inv (hist r) (the_buffer r)"
  shows "case replay_runs (replay_step alive app rep pru del) r es of
           Return (Some r') \<Rightarrow> inv (hist r') (the_buffer r') | Return None \<Rightarrow> True | Panic q \<Rightarrow> False"
  using assms
proof (induction es arbitrary: r)
  case (Cons e es)
  show ?case
  proof (cases "fresh_msg r e")
    case True
    then obtain r' where "replay_step alive app rep pru del r e = Return r'" "inv (hist r') (the_buffer r')"
      using step_inv Cons.prems by blast
    then show ?thesis using Cons.IH [of r'] True by simp
  qed simp
qed simp

lemma replay_sound:
  assumes "inv (hist r) (the_buffer r)"
    "replay_runs (replay_step alive app rep pru del) r es = Return (Some r')"
    "rep (the_buffer r') t k i = (s', ms, True)"
  shows "\<exists>sent. after_id i (hist r' k) = Some sent \<and> ms = lastn cap sent"
  using runs_inv [OF assms(1), of es] assms replay_complete by auto

end

section \<open>The in-process backend keeps the contract\<close>

definition kb_ok :: "int \<Rightarrow> BufferedMessage list \<Rightarrow> keyBuffer \<Rightarrow> bool" where
  "kb_ok cap h kb =
     (if lowWater kb = [] then msgs kb = lastn cap h
      else \<exists>sent. after_id (lowWater kb) h = Some sent \<and> msgs kb = lastn cap sent)"

definition buf_ok :: "int \<Rightarrow> (string \<Rightarrow> BufferedMessage list) \<Rightarrow> Buffer \<Rightarrow> bool" where
  "buf_ok cap h b =
     (0 \<le> cap \<and> maxSize b = cap \<and> (\<forall>k. distinct (map ID (h k)) \<and> [] \<notin> ID ` set (h k)) \<and>
      (\<forall>k kb. keys b k = Some kb \<longrightarrow> kb_ok cap (h k) kb))"

definition buf_alive :: "Buffer \<Rightarrow> int \<Rightarrow> string \<Rightarrow> bool" where
  "buf_alive b t k = (snd (live b t k) \<noteq> None)"

lemma lastn_append: "lastn n (lastn n xs @ ys) = lastn n (xs @ ys)"
  by (cases "length xs \<le> nat n") (auto simp: lastn_def add.commute)

lemma after_id_split: "after_id i h = Some s \<Longrightarrow> \<exists>p m. h = p @ m # s \<and> ID m = i \<and> i \<notin> ID ` set p"
proof (induction h)
  case (Cons a h)
  then show ?case
    by (cases "ID a = i") (force intro: exI [of _ "[]"] exI [of _ "a # p" for p])+
qed simp

lemma after_id_append: "i \<notin> ID ` set p \<Longrightarrow> after_id i (p @ q) = after_id i q"
  by (induction p) auto

lemma after_id_snoc: "after_id i h = Some s \<Longrightarrow> after_id i (h @ x) = Some (s @ x)"
  by (induction h) (auto split: if_splits)

lemma after_id_ex: "i \<in> ID ` set q \<Longrightarrow> \<exists>s. after_id i q = Some s"
  by (induction q) auto

lemma after_id_suffix:
  assumes "distinct (map ID (p @ q))" "after_id i q = Some s"
  shows "after_id i (p @ q) = Some s"
proof -
  have "i \<in> ID ` set q" using after_id_split [OF assms(2)] by force
  then show ?thesis using assms by (subst after_id_append) auto
qed

lemma lastn_suffix: "\<exists>p. xs = p @ lastn n xs"
  unfolding lastn_def by (metis append_take_drop_id)

lemma lastn_short: "length xs \<le> nat n \<Longrightarrow> lastn n xs = xs"
  by (simp add: lastn_def)

lemma length_lastn: "length (lastn n xs) \<le> nat n"
  by (simp add: lastn_def)

text \<open>An id found in the retained messages is found in the history, with the same tail.\<close>

lemma kb_after:
  assumes "kb_ok cap h kb" "distinct (map ID h)" "after_id i (msgs kb) = Some s"
  shows "after_id i h = Some s" "length s < nat cap"
proof -
  obtain p where p: "h = p @ msgs kb" "length (msgs kb) \<le> nat cap"
  proof (cases "lowWater kb = []")
    case True
    then show ?thesis using assms(1) that lastn_suffix [of h cap] length_lastn [of cap h] by (auto simp: kb_ok_def)
  next
    case False
    then obtain sent where s: "after_id (lowWater kb) h = Some sent" "msgs kb = lastn cap sent"
      using assms(1) by (auto simp: kb_ok_def)
    obtain q m where "h = q @ m # sent" using after_id_split [OF s(1)] by blast
    then have "h = q @ m # take (length sent - nat cap) sent @ msgs kb"
      by (simp add: s(2) lastn_def)
    then show ?thesis using that [of "q @ m # take (length sent - nat cap) sent"] length_lastn [of cap sent] s(2) by simp
  qed
  then show "after_id i h = Some s" using assms(2,3) after_id_suffix [of p "msgs kb" i s] by simp
  show "length s < nat cap" using after_id_split [OF assms(3)] p(2) by auto
qed

lemma live_cases:
  obtains (dead) "live b t k = (b\<lparr>keys := (keys b)(k := None)\<rparr>, None)" "\<not> buf_alive b t k"
  | (alive) kb where "live b t k = (b, Some kb)" "keys b k = Some kb" "buf_alive b t k"
proof (cases "keys b k")
  case None
  then have "(keys b)(k := None) = keys b" by auto
  then show ?thesis using None dead by (simp add: live_def buf_alive_def)
next
  case (Some kb)
  then show ?thesis using dead alive by (cases "expiry kb < t") (simp_all add: live_def buf_alive_def)
qed

lemma buf_ok_forget: "buf_ok cap h b \<Longrightarrow> buf_ok cap h (b\<lparr>keys := (keys b)(k := None)\<rparr>)"
  by (simp add: buf_ok_def)

lemma evict_lastn:
  assumes "0 \<le> cap"
  shows "evict cap ms = Return (lastn cap ms)"
proof -
  have "nat (int (length ms) - cap) = length ms - nat cap" using assms by arith
  then show ?thesis using assms by (auto simp: evict_def slice_from_def lastn_def)
qed

lemma buf_ok_set:
  assumes "buf_ok cap h b" "kb_ok cap g kb" "distinct (map ID g)" "[] \<notin> ID ` set g"
  shows "buf_ok cap (h(k := g)) (b\<lparr>keys := (keys b)(k \<mapsto> kb)\<rparr>)"
  using assms by (simp add: buf_ok_def)

lemma buf_Append_ok:
  assumes ok: "buf_ok cap h b" and i: "i \<noteq> []" "i \<notin> ID ` set (h k)"
  shows "\<exists>b'. buf_Append b t t2 k i p = Return b' \<and>
    buf_ok cap (h(k := (if buf_alive b t k then h k else []) @ [\<lparr>ID = i, Payload = p\<rparr>])) b'"
proof -
  let ?m = "\<lparr>ID = i, Payload = p\<rparr>"
  have cap: "0 \<le> cap" "maxSize b = cap" and h: "distinct (map ID (h k))" "[] \<notin> ID ` set (h k)"
    using ok by (simp_all add: buf_ok_def)
  show ?thesis
  proof (cases rule: live_cases [of b t k])
    case dead
    let ?kb = "\<lparr>expiry = t2 + ttl b, lowWater = [], msgs = lastn cap [?m]\<rparr>"
    have "buf_Append b t t2 k i p = Return (b\<lparr>keys := (keys b)(k \<mapsto> ?kb)\<rparr>)"
      using dead by (simp add: buf_Append_def cap Let_def evict_lastn)
    moreover have "kb_ok cap [?m] ?kb" by (simp add: kb_ok_def)
    ultimately show ?thesis using dead buf_ok_set [OF ok, of "[?m]" ?kb k] i by simp
  next
    case (alive kb)
    let ?kb = "kb\<lparr>msgs := lastn cap (msgs kb @ [?m]), expiry := t2 + ttl b\<rparr>"
    have "buf_Append b t t2 k i p = Return (b\<lparr>keys := (keys b)(k \<mapsto> ?kb)\<rparr>)"
      using alive by (simp add: buf_Append_def cap Let_def evict_lastn)
    moreover have "kb_ok cap (h k) kb" using ok alive by (simp add: buf_ok_def)
    then have "kb_ok cap (h k @ [?m]) ?kb"
      by (auto simp: kb_ok_def lastn_append dest: after_id_snoc split: if_splits)
    ultimately show ?thesis using alive buf_ok_set [OF ok, of "h k @ [?m]" ?kb k] i h by auto
  qed
qed

lemma buf_Prune_ok:
  assumes "buf_ok cap h b" shows "buf_ok cap h (buf_Prune b t k i)"
proof (cases rule: live_cases [of b t k])
  case dead
  then show ?thesis using assms buf_ok_forget by (simp add: buf_Prune_def)
next
  case (alive kb)
  show ?thesis
  proof (cases "after_id i (msgs kb)")
    case (Some s)
    have kb: "kb_ok cap (h k) kb" "distinct (map ID (h k))" using assms alive by (simp_all add: buf_ok_def)
    note s = kb_after [OF kb Some]
    have "[] \<notin> ID ` set (h k)" using assms by (simp add: buf_ok_def)
    then have "i \<noteq> []" using after_id_split [OF s(1)] by force
    then have "kb_ok cap (h k) (kb\<lparr>lowWater := i, msgs := s\<rparr>)" using s by (simp add: kb_ok_def lastn_short)
    then show ?thesis using assms alive Some by (simp add: buf_Prune_def buf_ok_def)
  qed (use assms alive in \<open>simp add: buf_Prune_def\<close>)
qed

lemma buf_Replay_ok: "buf_ok cap h b \<Longrightarrow> buf_ok cap h (fst (buf_ReplayAfter b t k i))"
  by (cases rule: live_cases [of b t k]) (auto simp: buf_ReplayAfter_def buf_ok_forget split: option.splits)

lemma buf_Delete_ok: "buf_ok cap h b \<Longrightarrow> buf_ok cap (h(k := [])) (buf_Delete b k)"
  by (simp add: buf_ok_def buf_Delete_def)

lemma buf_Replay_complete:
  assumes "buf_ok cap h b" "buf_ReplayAfter b t k i = (b', ms, True)"
  shows "\<exists>sent. after_id i (h k) = Some sent \<and> ms = lastn cap sent"
proof (cases rule: live_cases [of b t k])
  case dead
  then show ?thesis using assms by (simp add: buf_ReplayAfter_def)
next
  case (alive kb)
  have kb: "kb_ok cap (h k) kb" "distinct (map ID (h k))" using assms alive by (simp_all add: buf_ok_def)
  show ?thesis
  proof (cases "i = lowWater kb")
    case True
    then show ?thesis using assms(2) alive kb by (auto simp: buf_ReplayAfter_def kb_ok_def split: if_splits)
  next
    case False
    then have "after_id i (msgs kb) = Some ms"
      using assms(2) alive by (auto simp: buf_ReplayAfter_def split: if_splits option.splits)
    note m = kb_after [OF kb this]
    then show ?thesis by (simp add: lastn_short)
  qed
qed

interpretation mem_buf: replay_buffer cap "buf_ok cap" buf_alive buf_Append buf_ReplayAfter buf_Prune buf_Delete
  for cap
  by unfold_locales
    (fact buf_Append_ok buf_Prune_ok buf_Replay_ok buf_Delete_ok buf_Replay_complete)+

abbreviation buf_runs :: "Buffer \<Rightarrow> replay_event list \<Rightarrow> Buffer replay_run option outcome" where
  "buf_runs b es \<equiv> replay_runs (replay_step buf_alive buf_Append buf_ReplayAfter buf_Prune buf_Delete)
     \<lparr>the_buffer = b, hist = \<lambda>_. []\<rparr> es"

lemma NewFromConfig_memory:
  "replay_NewFromConfig kd n t c = Inr (MemoryBackend b) \<Longrightarrow> b = buf_New n t \<and> 0 < n \<and> 0 < t"
  by (auto simp: replay_NewFromConfig_def split: if_splits replay_Kind.splits)

lemma buf_ok_New: "0 \<le> n \<Longrightarrow> buf_ok n (\<lambda>_. []) (buf_New n t)"
  by (simp add: buf_ok_def buf_New_def)

lemma buf_runs_ok:
  assumes "0 \<le> n"
  shows "case buf_runs (buf_New n t) es of
           Return (Some r) \<Rightarrow> buf_ok n (hist r) (the_buffer r) | Return None \<Rightarrow> True | Panic q \<Rightarrow> False"
  using mem_buf.runs_inv [of n "\<lparr>the_buffer = buf_New n t, hist = \<lambda>_. []\<rparr>" es] buf_ok_New [OF assms] by simp

lemma lastn_after:
  assumes "distinct (map ID h)" "after_id i h = Some sent" "int (length sent) < n"
  shows "after_id i (lastn n h) = Some sent"
proof -
  obtain p m where p: "h = p @ m # sent" "ID m = i" using after_id_split [OF assms(2)] by blast
  have "length h - nat n \<le> length p" using assms(3) p(1) by simp
  then have "lastn n h = drop (length h - nat n) p @ m # sent" by (simp add: lastn_def p(1))
  moreover have "i \<notin> ID ` set (drop (length h - nat n) p)"
    using assms(1) p by (auto dest: in_set_dropD)
  ultimately show ?thesis using p(2) by (simp add: after_id_append)
qed

lemma kb_window:
  assumes "kb_ok n h kb"
  shows "length (msgs kb) \<le> nat n \<and> suffix (msgs kb) h"
proof (cases "lowWater kb = []")
  case True
  then show ?thesis
    using assms lastn_suffix [of h n] length_lastn [of n h] by (auto simp: kb_ok_def suffix_def)
next
  case False
  then obtain sent where s: "after_id (lowWater kb) h = Some sent" "msgs kb = lastn n sent"
    using assms by (auto simp: kb_ok_def)
  have "suffix (lastn n sent) sent" using lastn_suffix [of sent n] by (auto simp: suffix_def)
  moreover have "suffix sent h" using after_id_split [OF s(1)] by (auto simp: suffix_def)
  ultimately show ?thesis using s length_lastn [of n sent] by (auto intro: suffix_order.trans)
qed

lemma after_id_uniq:
  assumes "distinct (map ID h)" "after_id i h = Some s" "after_id j h = Some u" "length s \<le> length u"
  shows "i = j \<or> after_id i u = Some s"
proof -
  obtain p m where p: "h = p @ m # s" "ID m = i" using after_id_split [OF assms(2)] by blast
  obtain q l where q: "h = q @ l # u" "ID l = j" using after_id_split [OF assms(3)] by blast
  have "length h = length p + Suc (length s)" using p(1) by simp
  moreover have "length h = length q + Suc (length u)" using q(1) by simp
  ultimately have "length q \<le> length p" using assms(4) by linarith
  then obtain w where w: "p = q @ w" "w @ m # s = l # u"
    using p q by (auto simp: append_eq_append_conv2)
  show ?thesis
  proof (cases w)
    case Nil
    then show ?thesis using w p q by simp
  next
    case (Cons x w')
    then have u: "u = w' @ m # s" using w by simp
    then show ?thesis using after_id_suffix [of "w'" "m # s" i s] p q assms(1) by auto
  qed
qed

lemma window_found:
  assumes "kb_ok n h kb" "distinct (map ID h)" "after_id i h = Some sent" "int (length sent) < n"
    "lowWater kb = [] \<or> (\<exists>u. after_id (lowWater kb) h = Some u \<and> length sent \<le> length u)"
  shows "i = lowWater kb \<and> msgs kb = sent \<or> after_id i (msgs kb) = Some sent"
proof (cases "lowWater kb = []")
  case True
  then have m: "msgs kb = lastn n h" using assms(1) by (simp add: kb_ok_def)
  have "after_id i (lastn n h) = Some sent"
    by (rule lastn_after) (use assms in auto)
  then show ?thesis using m by simp
next
  case False
  then obtain u where u: "after_id (lowWater kb) h = Some u" "msgs kb = lastn n u"
    using assms(1) by (auto simp: kb_ok_def)
  then have "length sent \<le> length u" using False assms(5) by simp
  then have "i = lowWater kb \<or> after_id i u = Some sent"
    using after_id_uniq [OF assms(2,3) u(1)] by blast
  moreover have "distinct (map ID u)" using after_id_split [OF u(1)] assms(2) by auto
  ultimately show ?thesis using u assms(3,4) lastn_after [of u i sent n] by (auto simp: lastn_short)
qed

lemma lowWater_not_retained:
  assumes "kb_ok n h kb" "distinct (map ID h)" "lowWater kb \<noteq> []"
  shows "after_id (lowWater kb) (msgs kb) = None"
proof -
  obtain u where u: "after_id (lowWater kb) h = Some u" "msgs kb = lastn n u"
    using assms(1,3) by (auto simp: kb_ok_def)
  then have "lowWater kb \<notin> ID ` set u" using after_id_split [OF u(1)] assms(2) by auto
  moreover have "set (msgs kb) \<subseteq> set u" using u(2) set_drop_subset by (simp add: lastn_def)
  ultimately show ?thesis using after_id_split [of "lowWater kb" "msgs kb"] by (cases "after_id (lowWater kb) (msgs kb)") force+
qed

section \<open>Properties\<close>

text \<open>
  C13. A replay reported complete never skips a message in the middle.  After any run of
  appends, acknowledgements, replays and deletes on a buffer built from a valid
  configuration, a complete replay consists of the newest \<open>n\<close> messages (\<open>n\<close> the configured
  bound) of those sent after the anchor; it is all of them when the anchor is itself
  retained, and when at most \<open>n\<close> were sent since.
\<close>

theorem replay_complete_newest:
  assumes "replay_NewFromConfig kd n t c = Inr (MemoryBackend b)"
    and "buf_runs b es = Return (Some r)"
    and "buf_ReplayAfter (the_buffer r) now k i = (b', ms, True)"
  shows "\<exists>sent. after_id i (hist r k) = Some sent \<and> ms = lastn n sent
    \<and> (int (length sent) \<le> n \<longrightarrow> ms = sent)
    \<and> (\<forall>kb. keys (the_buffer r) k = Some kb \<longrightarrow> i \<in> ID ` set (msgs kb) \<longrightarrow> ms = sent)"
proof -
  note b = NewFromConfig_memory [OF assms(1)]
  then have ok: "buf_ok n (hist r) (the_buffer r)" using buf_runs_ok [of n t es] assms(2) by simp
  obtain sent where s: "after_id i (hist r k) = Some sent" "ms = lastn n sent"
    using mem_buf.replay_complete [OF ok assms(3)] by blast
  have "length sent < nat n" if kb: "keys (the_buffer r) k = Some kb" "i \<in> ID ` set (msgs kb)" for kb
  proof -
    have "\<exists>u. after_id i (msgs kb) = Some u" using kb(2) by (rule after_id_ex)
    then show ?thesis using kb_after [of n "hist r k" kb i] ok kb s by (auto simp: buf_ok_def)
  qed
  then show ?thesis using s by (auto simp: lastn_short)
qed

theorem replay_complete_newest_witness:
  "\<exists>sent. after_id ''m1'' [\<lparr>ID = ''m1'', Payload = ''a''\<rparr>, \<lparr>ID = ''m2'', Payload = ''b''\<rparr>] = Some sent
     \<and> [\<lparr>ID = ''m2'', Payload = ''b''\<rparr>] = lastn 2 sent"
proof -
  let ?es = "[EAppend 0 0 ''k'' ''m1'' ''a'', EAppend 1 1 ''k'' ''m2'' ''b'']"
  have "replay_NewFromConfig KindMemory 2 10 False = Inr (MemoryBackend (buf_New 2 10))"
    by (simp add: replay_NewFromConfig_def)
  moreover obtain r where "buf_runs (buf_New 2 10) ?es = Return (Some r)"
    "hist r ''k'' = [\<lparr>ID = ''m1'', Payload = ''a''\<rparr>, \<lparr>ID = ''m2'', Payload = ''b''\<rparr>]"
    "\<exists>b'. buf_ReplayAfter (the_buffer r) 2 ''k'' ''m1'' = (b', [\<lparr>ID = ''m2'', Payload = ''b''\<rparr>], True)"
    by (simp add: replay_step_def fresh_msg_def buf_Append_def buf_alive_def live_def buf_New_def evict_def
        buf_ReplayAfter_def)
  ultimately show ?thesis using replay_complete_newest [of KindMemory 2 10 False "buf_New 2 10" ?es r 2 "''k''" "''m1''"]
    by auto
qed

text \<open>
  A buffer built from a valid configuration stays within its bound and never panics:
  after any run every key holds at most \<open>n\<close> messages, and they are the newest messages the
  key was sent.
\<close>

lemma replay_bounded:
  assumes "replay_NewFromConfig kd n t c = Inr (MemoryBackend b)"
  shows "case buf_runs b es of
      Panic q \<Rightarrow> False
    | Return None \<Rightarrow> True
    | Return (Some r) \<Rightarrow> \<forall>k kb. keys (the_buffer r) k = Some kb \<longrightarrow>
        int (length (msgs kb)) \<le> n \<and> suffix (msgs kb) (hist r k)"
proof -
  note b = NewFromConfig_memory [OF assms]
  have "int (length (msgs kb)) \<le> n \<and> suffix (msgs kb) (hist r k)"
    if "buf_ok n (hist r) (the_buffer r)" "keys (the_buffer r) k = Some kb" for r k kb
    using that kb_window [of n "hist r k" kb] b by (auto simp: buf_ok_def)
  then show ?thesis using buf_runs_ok [of n t es] b by (auto split: outcome.splits option.splits)
qed


text \<open>
  C14. A reconnect within the window is served in full: when the key is still alive, fewer
  than \<open>n\<close> messages were sent after the client's last one, and no later message was
  acknowledged, the replay is complete and is exactly what the client missed.
\<close>

theorem replay_within_window:
  assumes "replay_NewFromConfig kd n t c = Inr (MemoryBackend b)"
    and "buf_runs b es = Return (Some r)"
    and "keys (the_buffer r) k = Some kb" "now \<le> expiry kb"
    and "after_id i (hist r k) = Some sent" "int (length sent) < n"
    and "lowWater kb = [] \<or> (\<exists>u. after_id (lowWater kb) (hist r k) = Some u \<and> length sent \<le> length u)"
  shows "snd (buf_ReplayAfter (the_buffer r) now k i) = (sent, True)"
proof -
  note b = NewFromConfig_memory [OF assms(1)]
  then have ok: "buf_ok n (hist r) (the_buffer r)" using buf_runs_ok [of n t es] assms(2) by simp
  then have kb: "kb_ok n (hist r k) kb" "distinct (map ID (hist r k))" "[] \<notin> ID ` set (hist r k)"
    using assms(3) by (simp_all add: buf_ok_def)
  have i: "i \<noteq> []" using after_id_split [OF assms(5)] kb(3) by force
  have "i = lowWater kb \<and> msgs kb = sent \<or> after_id i (msgs kb) = Some sent"
    by (rule window_found [OF kb(1,2) assms(5,6,7)])
  moreover have "after_id i (msgs kb) = Some sent \<Longrightarrow> i = lowWater kb \<Longrightarrow> msgs kb = sent"
    using lowWater_not_retained [OF kb(1,2)] i by auto
  ultimately show ?thesis using assms(3,4) i by (auto simp: buf_ReplayAfter_def live_def)
qed

theorem replay_within_window_witness:
  "snd (buf_ReplayAfter (the (case buf_runs (buf_New 2 10) [EAppend 0 0 ''k'' ''m1'' [], EAppend 1 1 ''k'' ''m2'' []] of
      Return r \<Rightarrow> map_option the_buffer r | _ \<Rightarrow> None)) 2 ''k'' ''m1'') = ([\<lparr>ID = ''m2'', Payload = []\<rparr>], True)"
proof -
  let ?es = "[EAppend 0 0 ''k'' ''m1'' [], EAppend 1 1 ''k'' ''m2'' []]"
  have "replay_NewFromConfig KindMemory 2 10 False = Inr (MemoryBackend (buf_New 2 10))"
    by (simp add: replay_NewFromConfig_def)
  moreover obtain r kb where r: "buf_runs (buf_New 2 10) ?es = Return (Some r)"
    "hist r ''k'' = [\<lparr>ID = ''m1'', Payload = []\<rparr>, \<lparr>ID = ''m2'', Payload = []\<rparr>]"
    "keys (the_buffer r) ''k'' = Some kb" "2 \<le> expiry kb" "lowWater kb = []"
    by (simp add: replay_step_def fresh_msg_def buf_Append_def buf_alive_def live_def buf_New_def evict_def)
  ultimately have "snd (buf_ReplayAfter (the_buffer r) 2 ''k'' ''m1'') = ([\<lparr>ID = ''m2'', Payload = []\<rparr>], True)"
    by (intro replay_within_window [of KindMemory 2 10 False "buf_New 2 10" ?es r "''k''" kb 2 "''m1''"]) auto
  then show ?thesis by (simp only: r) simp
qed


end
