(* ===== verification/Viz_Spec.thy ===== *)
theory Viz_Spec
  imports Listquery_Filter
begin

text \<open>
  Visualization specs (\<^verbatim>\<open>core/types/vizspec.go\<close>) and their front end \<^verbatim>\<open>foundation/vizql\<close>: the
  table algebra of the shelves, the validation of a decoded spec against a cube's
  allow-list, the compiler to one aggregate query with its pane table and marks, and
  drilling down a hierarchy.  The open string types of the source (operators, grains,
  marks) are strings; a time is its instant in nanoseconds since the Unix epoch.
\<close>

section \<open>Specs (vizspec.go)\<close>

definition AlgebraCross :: string where "AlgebraCross = ''cross''"
definition AlgebraConcat :: string where "AlgebraConcat = ''concat''"
definition AlgebraNest :: string where "AlgebraNest = ''nest''"

lemmas algebra_ops = AlgebraCross_def AlgebraConcat_def AlgebraNest_def

definition GrainMinute :: string where "GrainMinute = ''minute''"
definition GrainHour :: string where "GrainHour = ''hour''"
definition GrainDay :: string where "GrainDay = ''day''"
definition GrainMonth :: string where "GrainMonth = ''month''"

lemmas grains = GrainMinute_def GrainHour_def GrainDay_def GrainMonth_def

definition MarkAuto :: string where "MarkAuto = []"
definition MarkText :: string where "MarkText = ''text''"
definition MarkBar :: string where "MarkBar = ''bar''"
definition MarkLine :: string where "MarkLine = ''line''"
definition MarkPoint :: string where "MarkPoint = ''point''"

lemmas marks = MarkAuto_def MarkText_def MarkBar_def MarkLine_def MarkPoint_def

record FieldRef =
  RefName :: string
  RefAgg :: Aggregate

definition Key :: "FieldRef \<Rightarrow> string" where
  "Key r = (if RefAgg r = AggNone then RefName r else agg_text (RefAgg r) @ ''('' @ RefName r @ '')'')"

text \<open>A node: its leaf field (or nil), its operator and its operands; a shelf is a node or nil.\<close>

datatype AlgebraExpr = AlgebraExpr "FieldRef option" string "AlgebraExpr option list"

type_synonym Shelf = "AlgebraExpr option"

record Encodings =
  EncColor :: "FieldRef option"
  EncSize :: "FieldRef option"
  EncShape :: "FieldRef option"
  EncLabel :: "FieldRef option"

definition Encodings_Fields :: "Encodings \<Rightarrow> FieldRef list" where
  "Encodings_Fields e =
     List.map_filter (\<lambda>ref. ref) [EncColor e, EncSize e, EncShape e, EncLabel e]"

record TimeRange =
  From :: int
  To :: int

record VizSpec =
  SpecRange :: TimeRange
  SpecFilter :: Filter
  Rows :: Shelf
  Columns :: Shelf
  SpecEncodings :: Encodings
  SpecCube :: string
  SpecGrain :: string
  SpecMark :: string
  FilterJSON :: string
  Detail :: "FieldRef list"
  SpecSort :: "OrderField list"

record MeasureRef =
  MeasureName :: string
  MeasureAgg :: Aggregate

record AggregateQuery =
  QueryRange :: TimeRange
  QueryFilter :: Filter
  QueryCube :: string
  OrgID :: string
  QueryGrain :: string
  GroupBy :: "string list"
  Measures :: "MeasureRef list"
  QuerySort :: "OrderField list"
  ResumeToken :: string
  QueryLimit :: int

section \<open>The table algebra (algebra.go)\<close>

record Tuple =
  TupleFields :: "FieldRef list"
  Nested :: bool

definition empty_tuple :: Tuple where
  "empty_tuple = \<lparr>TupleFields = [], Nested = False\<rparr>"

definition tuple_product :: "Tuple list \<Rightarrow> Tuple list \<Rightarrow> bool \<Rightarrow> Tuple list" where
  "tuple_product left right nest =
     concat (map (\<lambda>l. map (\<lambda>r.
       \<lparr>TupleFields = TupleFields l @ TupleFields r, Nested = nest \<or> Nested l \<or> Nested r\<rparr>) right) left)"

function (sequential) Normalize :: "Shelf \<Rightarrow> Tuple list" where
  "Normalize None = [empty_tuple]"
| "Normalize (Some (AlgebraExpr (Some f) op args)) = [\<lparr>TupleFields = [f], Nested = False\<rparr>]"
| "Normalize (Some (AlgebraExpr None op args)) =
     (if op = AlgebraConcat then concat (map Normalize args)
      else if op = AlgebraCross \<or> op = AlgebraNest
      then foldl (\<lambda>out t. tuple_product out t (op = AlgebraNest)) [empty_tuple] (map Normalize args)
      else [])"
  by pat_completeness auto
termination
proof (relation "measure (size_option size)")
  show "(arg, Some (AlgebraExpr None op args)) \<in> measure (size_option size)" if "arg \<in> set args" for arg op args
    using that size_list_estimation' [of arg args "size_option size arg" "size_option size"] by simp
  then show "(arg, Some (AlgebraExpr None op args)) \<in> measure (size_option size)" if "arg \<in> set args" for arg op args
    using that by blast
qed simp

section \<open>Validation (parse.go)\<close>

definition MaxShelfDepth :: nat where "MaxShelfDepth = 8"

definition validMark :: "string \<Rightarrow> bool" where
  "validMark m = (m \<in> {MarkAuto, MarkText, MarkBar, MarkLine, MarkPoint})"

definition validOp :: "string \<Rightarrow> bool" where
  "validOp op = (op \<in> {AlgebraCross, AlgebraConcat, AlgebraNest})"

definition ValidGrain :: "string \<Rightarrow> bool" where
  "ValidGrain g = (g \<in> {GrainMinute, GrainHour, GrainDay, GrainMonth})"

definition invalid :: "string \<Rightarrow> error" where
  "invalid msg = New CodeInvalidInput (''vizspec: '' @ msg)"

definition validateRef :: "field_map \<Rightarrow> FieldRef \<Rightarrow> error option" where
  "validateRef m ref =
     (case Lookup m (RefName ref) of
        None \<Rightarrow> Some (invalid (''unknown field '' @ RefName ref))
      | Some f \<Rightarrow>
          if Role f = RoleMeasure then
            (if RefAgg ref = AggNone then Some (invalid (''measure '' @ RefName ref @ '' needs an aggregate''))
             else if \<not> Allows f (RefAgg ref)
             then Some (invalid (''aggregate '' @ agg_text (RefAgg ref) @ '' is not permitted on '' @ RefName ref))
             else None)
          else if RefAgg ref \<noteq> AggNone
          then Some (invalid (''aggregate '' @ agg_text (RefAgg ref) @ '' on non-measure '' @ RefName ref))
          else None)"

text \<open>The keys met so far are threaded through; only membership in them is ever asked.\<close>

function (sequential) validateShelf :: "field_map \<Rightarrow> nat \<Rightarrow> string set \<Rightarrow> Shelf \<Rightarrow> error + string set"
  and validateArgs :: "field_map \<Rightarrow> nat \<Rightarrow> string set \<Rightarrow> Shelf list \<Rightarrow> error + string set" where
  "validateShelf m depth keys None = Inr keys"
| "validateShelf m depth keys (Some (AlgebraExpr field op args)) =
     (if MaxShelfDepth < depth then Inl (invalid ''shelf nesting exceeds max depth'')
      else case field of
        Some f \<Rightarrow>
          (case validateRef m f of Some e \<Rightarrow> Inl e | None \<Rightarrow> Inr (insert (Key f) keys))
      | None \<Rightarrow>
          if \<not> validOp op then Inl (invalid (''unknown shelf operator '' @ op))
          else if args = [] then Inl (invalid (''shelf operator '' @ op @ '' needs operands''))
          else validateArgs m (depth + 1) keys args)"
| "validateArgs m depth keys [] = Inr keys"
| "validateArgs m depth keys (arg # args) =
     (if arg = None then Inl (invalid ''null shelf operand'')
      else bind_result (validateShelf m depth keys arg) (\<lambda>keys. validateArgs m depth keys args))"
  by pat_completeness auto
termination
  by (relation "measure (case_sum (\<lambda>(m, d, k, e). size_option size e) (\<lambda>(m, d, k, as). size_list (size_option size) as))")
    auto

fun validateDetail :: "field_map \<Rightarrow> string set \<Rightarrow> FieldRef list \<Rightarrow> error + string set" where
  "validateDetail m keys [] = Inr keys"
| "validateDetail m keys (ref # refs) =
     (case Lookup m (RefName ref) of
        None \<Rightarrow> Inl (invalid (''detail field '' @ RefName ref @ '' is not a declared dimension''))
      | Some f \<Rightarrow>
          if Role f = RoleMeasure \<or> RefAgg ref \<noteq> AggNone
          then Inl (invalid (''detail field '' @ RefName ref @ '' is not a declared dimension''))
          else validateDetail m (insert (Key ref) keys) refs)"

fun validateEncodings :: "field_map \<Rightarrow> string set \<Rightarrow> FieldRef list \<Rightarrow> error + string set" where
  "validateEncodings m keys [] = Inr keys"
| "validateEncodings m keys (ref # refs) =
     (case validateRef m ref of
        Some e \<Rightarrow> Inl e
      | None \<Rightarrow> validateEncodings m (insert (Key ref) keys) refs)"

definition validateFields :: "VizSpec \<Rightarrow> field_map \<Rightarrow> error + string set" where
  "validateFields spec m =
     bind_result (validateShelf m 1 {} (Rows spec)) (\<lambda>keys.
     bind_result (validateShelf m 1 keys (Columns spec)) (\<lambda>keys.
     bind_result (validateDetail m keys (Detail spec)) (\<lambda>keys.
       validateEncodings m keys (Encodings_Fields (SpecEncodings spec)))))"

text \<open>The zero time is the first instant of year 1.\<close>

definition zero_time :: int where
  "zero_time = - 62135596800 * 1000000000"

definition IsZero :: "int \<Rightarrow> bool" where
  "IsZero t = (t = zero_time)"

definition validateScalars :: "VizSpec \<Rightarrow> error option" where
  "validateScalars spec =
     (let tr = SpecRange spec in
      if SpecCube spec = [] then Some (invalid ''cube is required'')
      else if SpecGrain spec \<noteq> [] \<and> \<not> ValidGrain (SpecGrain spec)
      then Some (invalid (''unknown grain '' @ SpecGrain spec))
      else if \<not> validMark (SpecMark spec) then Some (invalid (''unknown mark '' @ SpecMark spec))
      else if \<not> IsZero (From tr) \<and> \<not> IsZero (To tr) \<and> \<not> From tr < To tr
      then Some (invalid ''time_range.from must precede time_range.to'')
      else None)"

text \<open>\<^verbatim>\<open>json.Compact\<close>: white space outside string literals is dropped.\<close>

fun compact_text :: "bool \<Rightarrow> string \<Rightarrow> string" where
  "compact_text quoted [] = []"
| "compact_text False (c # s) =
     (if json_ws c then compact_text False s
      else c # compact_text (c = CHR 0x22) s)"
| "compact_text True (c # s) =
     (if c = CHR 0x5C then (case s of [] \<Rightarrow> [c] | d # t \<Rightarrow> c # d # compact_text True t)
      else c # compact_text (c \<noteq> CHR 0x22) s)"

definition json_Compact :: "string \<Rightarrow> string option" where
  "json_Compact s = (case json_parse s of None \<Rightarrow> None | Some _ \<Rightarrow> Some (compact_text False s))"

definition compileFilter :: "golib \<Rightarrow> VizSpec \<Rightarrow> field_map \<Rightarrow> error + VizSpec" where
  "compileFilter L spec m =
     (if FilterJSON spec = [] then Inr spec
      else bind_result (Parse L m (FilterJSON spec)) (\<lambda>filter.
        case json_Compact (FilterJSON spec) of
          None \<Rightarrow> Inl (wrap_invalid json_error ''vizspec: invalid filter JSON'')
        | Some compact \<Rightarrow> Inr (spec\<lparr>SpecFilter := filter, FilterJSON := compact\<rparr>)))"

definition validate :: "golib \<Rightarrow> VizSpec \<Rightarrow> field_map option \<Rightarrow> error + VizSpec" where
  "validate L spec m_opt =
     (case validateScalars spec of
        Some e \<Rightarrow> Inl e
      | None \<Rightarrow>
          (case m_opt of
             None \<Rightarrow> Inl (invalid ''cube has no field allow-list'')
           | Some m \<Rightarrow>
               bind_result (validateFields spec m) (\<lambda>keys.
                 case find (\<lambda>od. SortField od \<notin> keys) (SpecSort spec) of
                   Some od \<Rightarrow> Inl (invalid (''sort key '' @ SortField od @
                     '' is not a shelved dimension or aggregated measure''))
                 | None \<Rightarrow> compileFilter L spec m)))"

section \<open>Marks (marks.go)\<close>

datatype fieldKind = kindOrdinal | kindQuantitative | kindTemporal

definition kindOf :: "Tuple \<Rightarrow> field_map \<Rightarrow> fieldKind" where
  "kindOf t fs =
     (if TupleFields t = [] then kindOrdinal
      else let l = last (TupleFields t) in
        if RefAgg l \<noteq> AggNone then kindQuantitative
        else case Lookup fs (RefName l) of
               Some f \<Rightarrow> if Role f = RoleTime then kindTemporal else kindOrdinal
             | None \<Rightarrow> kindOrdinal)"

definition markFor :: "string \<Rightarrow> fieldKind \<Rightarrow> fieldKind \<Rightarrow> string" where
  "markFor explicit row col =
     (if explicit \<noteq> MarkAuto then explicit
      else if row = kindQuantitative \<and> col = kindQuantitative then MarkPoint
      else if row = kindTemporal \<and> col = kindQuantitative \<or> row = kindQuantitative \<and> col = kindTemporal
      then MarkLine
      else if row = kindQuantitative \<or> col = kindQuantitative then MarkBar
      else MarkText)"

section \<open>Compilation (compile.go)\<close>

record CubeSchema =
  CubeFields :: "field_map option"
  CubeName :: string
  Hierarchies :: "string list list"
  Grains :: "string list"

record PaneKey =
  PaneRow :: string
  PaneColumn :: string

record Plan =
  Marks :: "PaneKey \<rightharpoonup> string"
  Panes :: "PaneKey list"
  Query :: AggregateQuery

definition tupleKey :: "Tuple \<Rightarrow> string" where
  "tupleKey t = join_with '','' (map Key (TupleFields t))"

text \<open>The closure \<^verbatim>\<open>add\<close>: the query under construction and the keys of its measures.\<close>

definition add_ref :: "AggregateQuery \<times> string set \<Rightarrow> FieldRef \<Rightarrow> error + AggregateQuery \<times> string set" where
  "add_ref acc ref =
     (case acc of (q, seen) \<Rightarrow>
        if RefAgg ref = AggNone
        then Inr (if RefName ref \<in> set (GroupBy q) then q else q\<lparr>GroupBy := GroupBy q @ [RefName ref]\<rparr>, seen)
        else if RefAgg ref = AggCountDistinct
        then Inl (invalid ''count_distinct is not answerable from additive partials'')
        else if Key ref \<in> seen then Inr (q, seen)
        else Inr (q\<lparr>Measures := Measures q @ [\<lparr>MeasureName = RefName ref, MeasureAgg = RefAgg ref\<rparr>]\<rparr>,
                  insert (Key ref) seen))"

fun add_refs :: "AggregateQuery \<times> string set \<Rightarrow> FieldRef list \<Rightarrow> error + AggregateQuery \<times> string set" where
  "add_refs acc [] = Inr acc"
| "add_refs acc (ref # refs) = bind_result (add_ref acc ref) (\<lambda>acc. add_refs acc refs)"

definition query_refs :: "VizSpec \<Rightarrow> Tuple list \<Rightarrow> Tuple list \<Rightarrow> FieldRef list" where
  "query_refs spec rows cols =
     concat (map TupleFields rows) @ concat (map TupleFields cols) @ Detail spec @
       Encodings_Fields (SpecEncodings spec)"

definition aggregateQuery :: "VizSpec \<Rightarrow> Tuple list \<Rightarrow> Tuple list \<Rightarrow> error + AggregateQuery" where
  "aggregateQuery spec rows cols =
     (let q = \<lparr>QueryRange = SpecRange spec, QueryFilter = SpecFilter spec, QueryCube = SpecCube spec,
               OrgID = [], QueryGrain = SpecGrain spec, GroupBy = [], Measures = [],
               QuerySort = SpecSort spec, ResumeToken = [], QueryLimit = 0\<rparr>
      in bind_result (add_refs (q, {}) (query_refs spec rows cols)) (\<lambda>(q, seen).
           case find (\<lambda>od. SortField od \<notin> set (GroupBy q) \<and> SortField od \<notin> seen) (SpecSort spec) of
             Some od \<Rightarrow> Inl (invalid (''sort key '' @ SortField od @ '' is neither grouped by nor computed''))
           | None \<Rightarrow> Inr q))"

definition pane_key :: "Tuple \<Rightarrow> Tuple \<Rightarrow> PaneKey" where
  "pane_key r c = \<lparr>PaneRow = tupleKey r, PaneColumn = tupleKey c\<rparr>"

definition Compile_viz :: "VizSpec \<Rightarrow> CubeSchema \<Rightarrow> error + Plan" where
  "Compile_viz spec cube =
     (case CubeFields cube of
        None \<Rightarrow> Inl (invalid (''cube '' @ CubeName cube @ '' has no field allow-list''))
      | Some fs \<Rightarrow>
          if SpecCube spec \<noteq> CubeName cube
          then Inl (invalid (''spec cube '' @ SpecCube spec @ '' does not match '' @ CubeName cube))
          else if SpecGrain spec \<noteq> [] \<and> Grains cube \<noteq> [] \<and> SpecGrain spec \<notin> set (Grains cube)
          then Inl (invalid (''cube '' @ CubeName cube @ '' is not rolled up at grain '' @ SpecGrain spec))
          else let rows = Normalize (Rows spec); cols = Normalize (Columns spec) in
            bind_result (aggregateQuery spec rows cols) (\<lambda>query.
              let pairs = concat (map (\<lambda>r. map (\<lambda>c. (r, c)) cols) rows) in
              Inr \<lparr>Marks = foldl (\<lambda>mk (r, c). mk(pane_key r c \<mapsto> markFor (SpecMark spec) (kindOf r fs) (kindOf c fs)))
                             Map.empty pairs,
                   Panes = map (\<lambda>(r, c). pane_key r c) pairs,
                   Query = query\<rparr>))"

section \<open>Drilling (drill.go)\<close>

fun child_in :: "string list \<Rightarrow> string \<Rightarrow> string option" where
  "child_in (level # next_level # path) field =
     (if level = field then Some next_level else child_in (next_level # path) field)"
| "child_in path field = None"

fun childOf :: "string list list \<Rightarrow> string \<Rightarrow> string option" where
  "childOf [] field = None"
| "childOf (path # paths) field =
     (case child_in path field of Some child \<Rightarrow> Some child | None \<Rightarrow> childOf paths field)"

definition swap_ref :: "string \<Rightarrow> string \<Rightarrow> FieldRef \<Rightarrow> FieldRef" where
  "swap_ref field child ref =
     (if RefName ref = field \<and> RefAgg ref = AggNone then ref\<lparr>RefName := child\<rparr> else ref)"

function (sequential) drillShelf :: "(FieldRef \<Rightarrow> FieldRef) \<Rightarrow> Shelf \<Rightarrow> Shelf" where
  "drillShelf swap None = None"
| "drillShelf swap (Some (AlgebraExpr (Some f) op args)) = Some (AlgebraExpr (Some (swap f)) [] [])"
| "drillShelf swap (Some (AlgebraExpr None op args)) = Some (AlgebraExpr None op (map (drillShelf swap) args))"
  by pat_completeness auto
termination
proof (relation "measure (\<lambda>(swap, e). size_option size e)")
  show "((swap, arg), swap, Some (AlgebraExpr None op args)) \<in> measure (\<lambda>(swap, e). size_option size e)"
    if "arg \<in> set args" for swap arg op args
    using that size_list_estimation' [of arg args "size_option size arg" "size_option size"] by simp
qed simp

definition Drill :: "VizSpec \<Rightarrow> CubeSchema \<Rightarrow> string \<Rightarrow> error + VizSpec" where
  "Drill spec cube field =
     (case CubeFields cube of
        None \<Rightarrow> Inl (invalid (''cube '' @ CubeName cube @ '' has no field allow-list''))
      | Some fs \<Rightarrow>
          (case childOf (Hierarchies cube) field of
             None \<Rightarrow> Inl (invalid (''field '' @ field @ '' has no child level to drill into''))
           | Some child \<Rightarrow>
               if Lookup fs child = None
               then Inl (invalid (''drill child '' @ child @ '' is not declared by the cube''))
               else let swap = swap_ref field child; e = SpecEncodings spec in
                 Inr (spec\<lparr>Rows := drillShelf swap (Rows spec), Columns := drillShelf swap (Columns spec),
                   Detail := map swap (Detail spec),
                   SpecSort := map (\<lambda>od. if SortField od = field then od\<lparr>SortField := child\<rparr> else od) (SpecSort spec),
                   SpecEncodings := \<lparr>EncColor = map_option swap (EncColor e), EncSize = map_option swap (EncSize e),
                     EncShape = map_option swap (EncShape e), EncLabel = map_option swap (EncLabel e)\<rparr>\<rparr>)))"

section \<open>What a valid spec is\<close>

text \<open>The leaves of a shelf, and what the allow-list demands of a reference and a shelf.\<close>

function (sequential) shelf_refs :: "Shelf \<Rightarrow> FieldRef list" where
  "shelf_refs None = []"
| "shelf_refs (Some (AlgebraExpr (Some f) op args)) = [f]"
| "shelf_refs (Some (AlgebraExpr None op args)) = concat (map shelf_refs args)"
  by pat_completeness auto
termination
proof (relation "measure (size_option size)")
  show "(arg, Some (AlgebraExpr None op args)) \<in> measure (size_option size)" if "arg \<in> set args" for arg op args
    using that size_list_estimation' [of arg args "size_option size arg" "size_option size"] by simp
qed simp

definition ref_ok :: "field_map \<Rightarrow> FieldRef \<Rightarrow> bool" where
  "ref_ok m r =
     (case Lookup m (RefName r) of
        None \<Rightarrow> False
      | Some f \<Rightarrow> if Role f = RoleMeasure then RefAgg r \<noteq> AggNone \<and> Allows f (RefAgg r) else RefAgg r = AggNone)"

definition dimension_ok :: "field_map \<Rightarrow> FieldRef \<Rightarrow> bool" where
  "dimension_ok m r = (ref_ok m r \<and> RefAgg r = AggNone)"

function (sequential) shelf_ok :: "field_map \<Rightarrow> nat \<Rightarrow> Shelf \<Rightarrow> bool" where
  "shelf_ok m d None = True"
| "shelf_ok m d (Some (AlgebraExpr (Some f) op args)) = (0 < d \<and> ref_ok m f)"
| "shelf_ok m d (Some (AlgebraExpr None op args)) =
     (0 < d \<and> validOp op \<and> args \<noteq> [] \<and> list_all (\<lambda>a. a \<noteq> None \<and> shelf_ok m (d - 1) a) args)"
  by pat_completeness auto
termination
proof (relation "measure (\<lambda>(m, d, e). size_option size e)")
  show "((m, d - 1, arg), m, d, Some (AlgebraExpr None op args)) \<in> measure (\<lambda>(m, d, e). size_option size e)"
    if "arg \<in> set args" for m arg op args and d :: nat
    using that size_list_estimation' [of arg args "size_option size arg" "size_option size"] by simp
qed simp

definition spec_refs :: "VizSpec \<Rightarrow> FieldRef list" where
  "spec_refs spec = shelf_refs (Rows spec) @ shelf_refs (Columns spec) @ Detail spec @
     Encodings_Fields (SpecEncodings spec)"

definition spec_ok :: "field_map \<Rightarrow> VizSpec \<Rightarrow> bool" where
  "spec_ok m spec =
     (shelf_ok m MaxShelfDepth (Rows spec) \<and> shelf_ok m MaxShelfDepth (Columns spec)
      \<and> list_all (dimension_ok m) (Detail spec) \<and> list_all (ref_ok m) (Encodings_Fields (SpecEncodings spec))
      \<and> list_all (\<lambda>od. SortField od \<in> Key ` set (spec_refs spec)) (SpecSort spec))"

definition scalars_ok :: "VizSpec \<Rightarrow> bool" where
  "scalars_ok spec =
     (SpecCube spec \<noteq> [] \<and> (SpecGrain spec = [] \<or> ValidGrain (SpecGrain spec)) \<and> validMark (SpecMark spec)
      \<and> (IsZero (From (SpecRange spec)) \<or> IsZero (To (SpecRange spec)) \<or> From (SpecRange spec) < To (SpecRange spec)))"

section \<open>Lemmas\<close>

lemma validateRef_ok: "(validateRef m r = None) = ref_ok m r"
  by (auto simp: validateRef_def ref_ok_def split: option.splits)

lemma ref_ok_lists: "shelf_ok m d e \<Longrightarrow> list_all (ref_ok m) (shelf_refs e)"
  by (induction m d e rule: shelf_ok.induct) (auto simp: list_all_iff)

lemma validateShelf_iff:
  "depth \<le> Suc MaxShelfDepth \<Longrightarrow>
     (validateShelf m depth keys e = Inr keys') =
       (shelf_ok m (Suc MaxShelfDepth - depth) e \<and> keys' = keys \<union> Key ` set (shelf_refs e))"
  "depth \<le> Suc MaxShelfDepth \<Longrightarrow>
     (validateArgs m depth keys es = Inr keys') =
       (list_all (\<lambda>a. a \<noteq> None \<and> shelf_ok m (Suc MaxShelfDepth - depth) a) es
        \<and> keys' = keys \<union> Key ` set (concat (map shelf_refs es)))"
proof (induction m depth keys e and m depth keys es arbitrary: keys' and keys' rule: validateShelf_validateArgs.induct)
  case (2 m depth keys field op args)
  show ?case
  proof (cases field)
    case None
    have "(validateArgs m (depth + 1) keys args = Inr keys') =
        (list_all (\<lambda>a. a \<noteq> None \<and> shelf_ok m (MaxShelfDepth - depth) a) args
         \<and> keys' = keys \<union> Key ` set (concat (map shelf_refs args)))"
      if "\<not> MaxShelfDepth < depth" "validOp op" "args \<noteq> []"
      using 2 None that by simp
    then show ?thesis using 2(2) None by (auto simp: Suc_diff_le)
  next
    case (Some f)
    then show ?thesis using 2(2) validateRef_ok [of m f] by (auto split: option.splits)
  qed
next
  case (4 m depth keys arg args)
  show ?case
  proof (cases "arg = None \<or> (\<exists>e. validateShelf m depth keys arg = Inl e)")
    case True
    then show ?thesis using 4(1) [of "keys \<union> Key ` set (shelf_refs arg)"] 4(3) by (auto simp: bind_result_def)
  next
    case False
    then obtain k where k: "arg \<noteq> None" "validateShelf m depth keys arg = Inr k"
      by (meson sumE)
    then have "shelf_ok m (Suc MaxShelfDepth - depth) arg" "k = keys \<union> Key ` set (shelf_refs arg)"
      using 4(1) [of k] 4(3) by auto
    then show ?thesis using k 4(2) [of k keys'] 4(3) by (auto simp: bind_result_def)
  qed
qed auto

lemma validateDetail_iff:
  "(validateDetail m keys rs = Inr keys') = (list_all (dimension_ok m) rs \<and> keys' = keys \<union> Key ` set rs)"
  by (induction m keys rs arbitrary: keys' rule: validateDetail.induct)
    (auto simp: dimension_ok_def ref_ok_def split: option.splits if_splits)

lemma validateEncodings_iff:
  "(validateEncodings m keys rs = Inr keys') = (list_all (ref_ok m) rs \<and> keys' = keys \<union> Key ` set rs)"
  by (induction m keys rs arbitrary: keys' rule: validateEncodings.induct)
    (auto simp flip: validateRef_ok split: option.splits)

lemma find_None_all: "(find P xs = None) = list_all (\<lambda>x. \<not> P x) xs"
  by (auto simp: find_None_iff list_all_iff)

lemma spec_refs_keys:
  "Key ` set (spec_refs spec) = Key ` set (shelf_refs (Rows spec)) \<union> Key ` set (shelf_refs (Columns spec))
     \<union> Key ` set (Detail spec) \<union> Key ` set (Encodings_Fields (SpecEncodings spec))"
  by (auto simp: spec_refs_def)

lemma validateFields_iff:
  "(validateFields spec m = Inr keys) =
     (shelf_ok m MaxShelfDepth (Rows spec) \<and> shelf_ok m MaxShelfDepth (Columns spec)
      \<and> list_all (dimension_ok m) (Detail spec) \<and> list_all (ref_ok m) (Encodings_Fields (SpecEncodings spec))
      \<and> keys = Key ` set (spec_refs spec))"
  by (auto simp: validateFields_def validateShelf_iff validateDetail_iff validateEncodings_iff spec_refs_keys
      MaxShelfDepth_def)

lemma validateScalars_iff: "(validateScalars spec = None) = scalars_ok spec"
  by (auto simp: validateScalars_def scalars_ok_def Let_def)

lemma validate_iff:
  "(validate L spec (Some m) = Inr spec') = (scalars_ok spec \<and> spec_ok m spec \<and> compileFilter L spec m = Inr spec')"
proof (cases "validateScalars spec")
  case None
  show ?thesis
  proof (cases "validateFields spec m")
    case (Inl e)
    then have "\<not> spec_ok m spec"
      using validateFields_iff [of spec m "Key ` set (spec_refs spec)"] by (auto simp: spec_ok_def)
    then show ?thesis using Inl None by (simp add: validate_def)
  next
    case (Inr keys)
    then show ?thesis
      using None validateFields_iff [of spec m keys] validateScalars_iff [of spec]
        find_None_all [of "\<lambda>od. SortField od \<notin> keys" "SpecSort spec"]
      by (auto simp: validate_def spec_ok_def split: option.splits)
  qed
qed (use validateScalars_iff [of spec] in \<open>auto simp: validate_def\<close>)

lemma compileFilter_shape:
  "compileFilter L spec m = Inr spec' \<Longrightarrow>
     FilterJSON spec = [] \<and> spec' = spec \<or>
     (\<exists>f c. Parse L m (FilterJSON spec) = Inr f \<and> spec' = spec\<lparr>SpecFilter := f, FilterJSON := c\<rparr>)"
  by (auto simp: compileFilter_def split: if_splits option.splits)

lemma invalid_code [simp]: "Code (Some (invalid msg)) = CodeInvalidInput"
  by (simp add: invalid_def New_def)

lemma validateRef_code: "validateRef m r = Some e \<Longrightarrow> Code (Some e) = CodeInvalidInput"
  by (auto simp: validateRef_def split: option.splits if_splits)

lemma validateShelf_code:
  "validateShelf m d keys e = Inl err \<Longrightarrow> Code (Some err) = CodeInvalidInput"
  "validateArgs m d keys es = Inl err \<Longrightarrow> Code (Some err) = CodeInvalidInput"
  by (induction m d keys e and m d keys es rule: validateShelf_validateArgs.induct)
    (auto simp: bind_result_eq_Inl dest: validateRef_code split: option.splits if_splits)

lemma validateDetail_code: "validateDetail m keys rs = Inl e \<Longrightarrow> Code (Some e) = CodeInvalidInput"
  by (induction m keys rs rule: validateDetail.induct) (auto split: option.splits if_splits)

lemma validateEncodings_code: "validateEncodings m keys rs = Inl e \<Longrightarrow> Code (Some e) = CodeInvalidInput"
  by (induction m keys rs rule: validateEncodings.induct) (auto dest: validateRef_code split: option.splits)

lemma validate_code: "validate L spec mo = Inl e \<Longrightarrow> Code (Some e) = CodeInvalidInput"
  using validateShelf_code(1) validateDetail_code validateEncodings_code Parse_code
  by (fastforce simp: validate_def validateScalars_def validateFields_def compileFilter_def bind_result_eq_Inl
      wrap_invalid_def Let_def split: option.splits if_splits)

text \<open>The tuples of a valid shelf mention exactly its leaves.\<close>

definition tuple_refs :: "Tuple list \<Rightarrow> FieldRef set" where
  "tuple_refs ts = (\<Union>t\<in>set ts. set (TupleFields t))"

lemma empty_tuple_fields [simp]: "TupleFields empty_tuple = []" "\<not> Nested empty_tuple"
  by (simp_all add: empty_tuple_def)

lemma tuple_refs_simps [simp]:
  "tuple_refs [] = {}" "tuple_refs (t # ts) = set (TupleFields t) \<union> tuple_refs ts"
  "tuple_refs (ts @ us) = tuple_refs ts \<union> tuple_refs us" "tuple_refs [empty_tuple] = {}"
  by (auto simp: tuple_refs_def empty_tuple_def)

lemma product_refs:
  "\<lbrakk>l \<noteq> []; r \<noteq> []\<rbrakk> \<Longrightarrow> tuple_product l r n \<noteq> [] \<and> tuple_refs (tuple_product l r n) = tuple_refs l \<union> tuple_refs r"
  by (cases l; cases r) (auto simp: tuple_product_def tuple_refs_def)

lemma products_refs:
  "\<lbrakk>list_all (\<lambda>t. t \<noteq> []) ts; acc \<noteq> []\<rbrakk> \<Longrightarrow>
     foldl (\<lambda>out t. tuple_product out t n) acc ts \<noteq> [] \<and>
     tuple_refs (foldl (\<lambda>out t. tuple_product out t n) acc ts) = tuple_refs acc \<union> \<Union> (tuple_refs ` set ts)"
  by (induction ts arbitrary: acc) (auto simp: product_refs)

lemma tuple_refs_concat: "tuple_refs (concat tss) = \<Union> (tuple_refs ` set tss)"
  by (induction tss) auto

lemma Normalize_refs:
  "shelf_ok m d e \<Longrightarrow> Normalize e \<noteq> [] \<and> tuple_refs (Normalize e) = set (shelf_refs e)"
proof (induction m d e rule: shelf_ok.induct)
  case (3 m d op args)
  then have args: "a \<in> set args \<Longrightarrow> Normalize a \<noteq> [] \<and> tuple_refs (Normalize a) = set (shelf_refs a)" for a
    by (auto simp: list_all_iff)
  have u: "(\<Union>t\<in>set (map Normalize args). tuple_refs t) = (\<Union>a\<in>set args. set (shelf_refs a))"
    using args by auto
  show ?case
  proof (cases "op = AlgebraConcat")
    case True
    have "concat (map Normalize args) \<noteq> []" using args 3(2) by (cases args) auto
    then show ?thesis using True u by (simp add: tuple_refs_concat)
  next
    case False
    then have "op = AlgebraCross \<or> op = AlgebraNest" using 3(2) by (auto simp: validOp_def)
    then show ?thesis using False u args
        products_refs [of "map Normalize args" "[empty_tuple]" "op = AlgebraNest"]
      by (auto simp: list_all_iff)
  qed
qed (simp_all add: tuple_refs_def empty_tuple_def)

text \<open>The query collects every dimension and measure once.\<close>

definition dims :: "FieldRef list \<Rightarrow> string list" where
  "dims rs = map RefName (filter (\<lambda>r. RefAgg r = AggNone) rs)"

definition measures :: "FieldRef list \<Rightarrow> FieldRef list" where
  "measures rs = filter (\<lambda>r. RefAgg r \<noteq> AggNone) rs"

definition measure_ref :: "MeasureRef \<Rightarrow> FieldRef" where
  "measure_ref mr = \<lparr>RefName = MeasureName mr, RefAgg = MeasureAgg mr\<rparr>"

definition collected :: "AggregateQuery \<Rightarrow> string set \<Rightarrow> FieldRef list \<Rightarrow> bool" where
  "collected q seen rs =
     (distinct (GroupBy q) \<and> set (GroupBy q) = set (dims rs)
      \<and> seen = Key ` set (measures rs)
      \<and> distinct (map (Key \<circ> measure_ref) (Measures q)) \<and> Key ` measure_ref ` set (Measures q) = seen
      \<and> measure_ref ` set (Measures q) \<subseteq> set (measures rs))"

definition query_head :: "AggregateQuery \<Rightarrow> AggregateQuery" where
  "query_head q = q\<lparr>GroupBy := [], Measures := []\<rparr>"

lemma query_head_upd [simp]:
  "query_head (q\<lparr>GroupBy := g\<rparr>) = query_head q" "query_head (q\<lparr>Measures := ms\<rparr>) = query_head q"
  by (simp_all add: query_head_def)

lemma add_ref_collects:
  assumes "collected q seen rs" "RefAgg r \<noteq> AggCountDistinct"
  shows "\<exists>q' seen'. add_ref (q, seen) r = Inr (q', seen') \<and> collected q' seen' (rs @ [r]) \<and>
    query_head q' = query_head q"
proof (cases "RefAgg r = AggNone")
  case True
  then show ?thesis using assms by (auto simp: add_ref_def collected_def dims_def measures_def)
next
  case False
  show ?thesis
  proof (cases "Key r \<in> seen")
    case True
    then show ?thesis using assms False by (auto simp: add_ref_def collected_def dims_def measures_def)
  next
    case new: False
    have "measure_ref \<lparr>MeasureName = RefName r, MeasureAgg = RefAgg r\<rparr> = r" by (simp add: measure_ref_def)
    then show ?thesis using assms False new by (auto simp: add_ref_def collected_def dims_def measures_def)
  qed
qed

lemma add_refs_collects:
  assumes "collected q seen rs" "list_all (\<lambda>r. RefAgg r \<noteq> AggCountDistinct) rs'"
  shows "\<exists>q' seen'. add_refs (q, seen) rs' = Inr (q', seen') \<and> collected q' seen' (rs @ rs') \<and>
    query_head q' = query_head q"
  using assms
proof (induction rs' arbitrary: q seen rs)
  case (Cons r rs')
  obtain q1 seen1 where 1: "add_ref (q, seen) r = Inr (q1, seen1)" "collected q1 seen1 (rs @ [r])"
    "query_head q1 = query_head q"
    using add_ref_collects [OF Cons.prems(1), of r] Cons.prems(2) by auto
  obtain q2 seen2 where 2: "add_refs (q1, seen1) rs' = Inr (q2, seen2)" "collected q2 seen2 (rs @ r # rs')"
    "query_head q2 = query_head q1"
    using Cons.IH [OF 1(2)] Cons.prems(2) by auto
  then show ?case using 1 by simp
qed simp

lemma add_refs_count_distinct:
  "\<not> list_all (\<lambda>r. RefAgg r \<noteq> AggCountDistinct) rs \<Longrightarrow> \<exists>e. add_refs acc rs = Inl e"
proof (induction rs arbitrary: acc)
  case (Cons r rs)
  show ?case
  proof (cases "add_ref acc r")
    case (Inr acc')
    then have "RefAgg r \<noteq> AggCountDistinct" by (auto simp: add_ref_def split: prod.splits if_splits)
    then show ?thesis using Cons Inr by simp
  qed simp
qed simp

lemma Key_dim: "RefAgg r = AggNone \<Longrightarrow> Key r = RefName r"
  by (simp add: Key_def)

lemma collected_keys:
  "\<lbrakk>collected q seen rs; k \<in> Key ` set rs\<rbrakk> \<Longrightarrow> k \<in> set (GroupBy q) \<or> k \<in> seen"
  by (force simp: collected_def dims_def measures_def Key_dim)

lemma collected_cong: "\<lbrakk>collected q seen rs; set rs = set rs'\<rbrakk> \<Longrightarrow> collected q seen rs'"
  by (simp add: collected_def dims_def measures_def)

lemma aggregateQuery_ok:
  assumes "list_all (\<lambda>r. RefAgg r \<noteq> AggCountDistinct) (query_refs spec rows cols)"
    "list_all (\<lambda>od. SortField od \<in> Key ` set (query_refs spec rows cols)) (SpecSort spec)"
  shows "\<exists>q seen. aggregateQuery spec rows cols = Inr q \<and> collected q seen (query_refs spec rows cols)
    \<and> QueryFilter q = SpecFilter spec \<and> QueryRange q = SpecRange spec \<and> QueryCube q = SpecCube spec
    \<and> QueryGrain q = SpecGrain spec \<and> QuerySort q = SpecSort spec"
proof -
  let ?q = "\<lparr>QueryRange = SpecRange spec, QueryFilter = SpecFilter spec, QueryCube = SpecCube spec,
     OrgID = [], QueryGrain = SpecGrain spec, GroupBy = [], Measures = [],
     QuerySort = SpecSort spec, ResumeToken = [], QueryLimit = 0\<rparr>"
  have "collected ?q {} []" by (simp add: collected_def dims_def measures_def)
  from add_refs_collects [OF this assms(1)] obtain q seen where
    q: "add_refs (?q, {}) (query_refs spec rows cols) = Inr (q, seen)"
    "collected q seen (query_refs spec rows cols)" "query_head q = query_head ?q" by auto
  have "find (\<lambda>od. SortField od \<notin> set (GroupBy q) \<and> SortField od \<notin> seen) (SpecSort spec) = None"
    using assms(2) collected_keys [OF q(2)] by (auto simp: find_None_iff list_all_iff)
  then have "aggregateQuery spec rows cols = Inr q" using q(1) by (simp add: aggregateQuery_def)
  moreover have "QueryFilter q = SpecFilter spec \<and> QueryRange q = SpecRange spec \<and> QueryCube q = SpecCube spec
      \<and> QueryGrain q = SpecGrain spec \<and> QuerySort q = SpecSort spec"
    using q(3) by (cases q) (simp add: query_head_def)
  ultimately show ?thesis using q(2) by blast
qed

lemma aggregateQuery_collects:
  assumes "aggregateQuery spec rows cols = Inr q"
  shows "\<exists>seen. collected q seen (query_refs spec rows cols)"
proof -
  let ?q = "\<lparr>QueryRange = SpecRange spec, QueryFilter = SpecFilter spec, QueryCube = SpecCube spec,
     OrgID = [], QueryGrain = SpecGrain spec, GroupBy = [], Measures = [],
     QuerySort = SpecSort spec, ResumeToken = [], QueryLimit = 0\<rparr>"
  obtain seen where s: "add_refs (?q, {}) (query_refs spec rows cols) = Inr (q, seen)"
    using assms by (auto simp: aggregateQuery_def split: option.splits)
  then have "list_all (\<lambda>r. RefAgg r \<noteq> AggCountDistinct) (query_refs spec rows cols)"
    using add_refs_count_distinct [of "query_refs spec rows cols" "(?q, {})"] by auto
  moreover have "collected ?q {} []" by (simp add: collected_def dims_def measures_def)
  ultimately show ?thesis using add_refs_collects [of ?q "{}" "[]"] s by fastforce
qed

lemma query_refs_spec:
  assumes "spec_ok m spec"
  shows "set (query_refs spec (Normalize (Rows spec)) (Normalize (Columns spec))) = set (spec_refs spec)"
proof -
  have "set (concat (map TupleFields (Normalize e))) = tuple_refs (Normalize e)" for e
    by (simp add: tuple_refs_def)
  then show ?thesis using assms Normalize_refs [of m MaxShelfDepth]
    by (simp add: query_refs_def spec_refs_def spec_ok_def)
qed

text \<open>The marks of the panes: a fold of updates over the pane table.\<close>

lemma marks_dom: "dom (foldl (\<lambda>mk (r, c). mk(key r c \<mapsto> v r c)) mk0 ps) = dom mk0 \<union> (\<lambda>(r, c). key r c) ` set ps"
  by (induction ps arbitrary: mk0) auto

lemma marks_other:
  "k \<notin> (\<lambda>(r, c). key r c) ` set ps \<Longrightarrow> foldl (\<lambda>mk (r, c). mk(key r c \<mapsto> v r c)) mk0 ps k = mk0 k"
  by (induction ps arbitrary: mk0) auto

lemma marks_exact:
  "\<lbrakk>distinct (map (\<lambda>(r, c). key r c) ps); (r, c) \<in> set ps\<rbrakk> \<Longrightarrow>
     foldl (\<lambda>mk (r, c). mk(key r c \<mapsto> v r c)) mk0 ps (key r c) = Some (v r c)"
proof (induction ps arbitrary: mk0)
  case (Cons p ps)
  show ?case
  proof (cases "(r, c) = p")
    case True
    then have "key r c \<notin> (\<lambda>(r, c). key r c) ` set ps" using Cons.prems(1) by auto
    from marks_other [OF this, of v "mk0(key r c \<mapsto> v r c)"] show ?thesis
      by (simp only: True [symmetric] foldl_Cons prod.case fun_upd_same)
  qed (use Cons in auto)
qed simp

text \<open>The laws of the product.\<close>

lemma product_Nil [simp]: "tuple_product [] b n = []"
  by (simp add: tuple_product_def)

lemma product_Cons [simp]:
  "tuple_product (x # a) b n =
     map (\<lambda>r. \<lparr>TupleFields = TupleFields x @ TupleFields r, Nested = n \<or> Nested x \<or> Nested r\<rparr>) b @ tuple_product a b n"
  by (simp add: tuple_product_def)

lemma product_append [simp]: "tuple_product (a @ a') b n = tuple_product a b n @ tuple_product a' b n"
  by (induction a) simp_all

lemma product_map:
  "tuple_product (map (\<lambda>r. \<lparr>TupleFields = F @ TupleFields r, Nested = n \<or> N \<or> Nested r\<rparr>) b) c n =
     map (\<lambda>r. \<lparr>TupleFields = F @ TupleFields r, Nested = n \<or> N \<or> Nested r\<rparr>) (tuple_product b c n)"
  by (induction b) (auto simp: fun_eq_iff)

lemma product_assoc: "tuple_product (tuple_product a b n) c n = tuple_product a (tuple_product b c n) n"
  by (induction a) (simp_all add: product_map)

lemma tuple_eta [simp]: "\<lparr>TupleFields = TupleFields r, Nested = Nested r\<rparr> = r"
  by (cases r) simp

lemma product_unit_cross: "tuple_product [empty_tuple] b False = b"
  by simp

lemma product_unit_right: "tuple_product a [empty_tuple] False = a"
  by (induction a) simp_all

lemma length_product: "length (tuple_product a b n) = length a * length b"
  by (induction a) simp_all

lemma length_products:
  "length (foldl (\<lambda>out t. tuple_product out t n) acc ts) = length acc * prod_list (map length ts)"
  by (induction ts arbitrary: acc) (simp_all add: length_product)

lemma product_fields:
  assumes "map TupleFields a = map TupleFields a'"
  shows "map TupleFields (tuple_product a b n) = map TupleFields (tuple_product a' b n')"
proof -
  have p: "map TupleFields (tuple_product a b n) = concat (map (\<lambda>x. map (\<lambda>r. x @ TupleFields r) b) (map TupleFields a))"
    for a n by (induction a) (simp_all add: comp_def)
  show ?thesis unfolding p assms ..
qed

lemma products_fields:
  "map TupleFields acc = map TupleFields acc' \<Longrightarrow>
     map TupleFields (foldl (\<lambda>out t. tuple_product out t n) acc ts) =
     map TupleFields (foldl (\<lambda>out t. tuple_product out t n') acc' ts)"
proof (induction ts arbitrary: acc acc')
  case (Cons t ts)
  show ?case unfolding foldl_Cons by (rule Cons.IH) (rule product_fields [OF Cons.prems])
qed simp

lemma product_nested: "list_all Nested (tuple_product a b True)"
  by (induction a) (auto simp: list_all_iff)

lemma products_nested: "ts \<noteq> [] \<Longrightarrow> list_all Nested (foldl (\<lambda>out t. tuple_product out t True) acc ts)"
  by (induction ts arbitrary: acc rule: rev_induct) (simp_all add: product_nested)

text \<open>Drilling maps the leaves.\<close>

lemma shelf_refs_drill: "shelf_refs (drillShelf swap e) = map swap (shelf_refs e)"
  by (induction swap e rule: drillShelf.induct) (simp_all add: map_concat comp_def cong: map_cong)

lemma drill_None [simp]: "(drillShelf swap e = None) = (e = None)"
  by (cases "(swap, e)" rule: drillShelf.cases) simp_all

lemma shelf_ok_drill:
  "\<lbrakk>shelf_ok m d e; \<And>r. ref_ok m r \<Longrightarrow> ref_ok m (swap r)\<rbrakk> \<Longrightarrow> shelf_ok m d (drillShelf swap e)"
  by (induction m d e rule: shelf_ok.induct) (auto simp: list_all_iff simp del: not_None_eq)

lemma Encodings_Fields_map:
  "Encodings_Fields \<lparr>EncColor = map_option f (EncColor e), EncSize = map_option f (EncSize e),
     EncShape = map_option f (EncShape e), EncLabel = map_option f (EncLabel e)\<rparr> = map f (Encodings_Fields e)"
  by (auto simp: Encodings_Fields_def List.map_filter_simps split: option.splits)

lemma swap_ref_ok:
  assumes "Lookup m child = Some f" "Role f \<noteq> RoleMeasure" "ref_ok m r"
  shows "ref_ok m (swap_ref field child r)"
  using assms by (simp add: swap_ref_def ref_ok_def)

lemma swap_ref_agg [simp]: "RefAgg (swap_ref field child r) = RefAgg r"
  by (simp add: swap_ref_def)

lemma swap_ref_key:
  assumes "CHR ''('' \<notin> set field"
  shows "Key (swap_ref field child r) = (if Key r = field then child else Key r)"
  using assms by (auto simp: swap_ref_def Key_def)

lemma drill_refs:
  assumes "Drill spec cube field = Inr spec'"
  obtains fs child where "CubeFields cube = Some fs" "childOf (Hierarchies cube) field = Some child" "Lookup fs child \<noteq> None"
    "Rows spec' = drillShelf (swap_ref field child) (Rows spec)"
    "Columns spec' = drillShelf (swap_ref field child) (Columns spec)"
    "Detail spec' = map (swap_ref field child) (Detail spec)"
    "Encodings_Fields (SpecEncodings spec') = map (swap_ref field child) (Encodings_Fields (SpecEncodings spec))"
    "SpecSort spec' = map (\<lambda>od. if SortField od = field then od\<lparr>SortField := child\<rparr> else od) (SpecSort spec)"
proof -
  obtain fs child where fc: "CubeFields cube = Some fs" "childOf (Hierarchies cube) field = Some child"
      "Lookup fs child \<noteq> None"
    using assms by (auto simp: Drill_def split: option.splits if_splits)
  show ?thesis
    by (rule that [OF fc]) (use assms fc in \<open>auto simp: Drill_def Let_def Encodings_Fields_map split: if_splits\<close>)
qed

lemma spec_refs_drill:
  assumes "Rows spec' = drillShelf sw (Rows spec)" "Columns spec' = drillShelf sw (Columns spec)"
    "Detail spec' = map sw (Detail spec)"
    "Encodings_Fields (SpecEncodings spec') = map sw (Encodings_Fields (SpecEncodings spec))"
  shows "spec_refs spec' = map sw (spec_refs spec)"
  using assms by (simp add: spec_refs_def shelf_refs_drill)

section \<open>Demonstration cube\<close>

definition demo_cube :: CubeSchema where
  "demo_cube =
     \<lparr>CubeFields = Some (Add NewMap [String_field ''team'', String_field ''user'',
         AsMeasure (Int_field ''tokens'') [AggSum, AggAvg], AsTime (Time_field ''ts'')]),
      CubeName = ''usage'', Hierarchies = [[''team'', ''user'']], Grains = [''day'']\<rparr>"

definition dim_leaf :: "string \<Rightarrow> AlgebraExpr option" where
  "dim_leaf n = Some (AlgebraExpr (Some \<lparr>RefName = n, RefAgg = AggNone\<rparr>) [] [])"

definition demo_spec :: VizSpec where
  "demo_spec =
     \<lparr>SpecRange = \<lparr>From = 0, To = 1\<rparr>, SpecFilter = NilFilter,
      Rows = Some (AlgebraExpr None AlgebraCross [dim_leaf ''team'', dim_leaf ''ts'']),
      Columns = Some (AlgebraExpr (Some \<lparr>RefName = ''tokens'', RefAgg = AggSum\<rparr>) [] []),
      SpecEncodings = \<lparr>EncColor = None, EncSize = None, EncShape = None, EncLabel = None\<rparr>,
      SpecCube = ''usage'', SpecGrain = ''day'', SpecMark = [], FilterJSON = [], Detail = [],
      SpecSort = [mk_order ''sum(tokens)'' True, mk_order ''team'' False]\<rparr>"

lemma demo_spec_valid: "validate L demo_spec (CubeFields demo_cube) = Inr demo_spec"
  by (simp add: validate_iff demo_cube_def)
    (simp add: scalars_ok_def spec_ok_def demo_spec_def compileFilter_def ValidGrain_def validMark_def grains marks
      dim_leaf_def validOp_def algebra_ops ref_ok_def Lookup_def Add_def NewMap_def String_field_def Int_field_def Time_field_def
      mk_field_def AsMeasure_def AsTime_def Allows_def MaxShelfDepth_def Encodings_Fields_def List.map_filter_simps
      spec_refs_def Key_def mk_order_def IsZero_def zero_time_def)

section \<open>Properties\<close>

text \<open>
  C16. Validation accepts exactly the well-formed specs.  A spec is accepted if and only if
  its scalars are valid, every field it names is allow-listed and aggregated exactly when it
  is a measure (with a permitted aggregate), its detail fields are dimensions, its shelves
  nest within the depth bound with known operators and operands, its sort keys name placed
  fields, and its filter is one the filter parser accepts.  A refusal is always
  \<^verbatim>\<open>CodeInvalidInput\<close>.
\<close>

theorem validate_exact:
  "((\<exists>spec'. validate L spec (Some m) = Inr spec') =
     (scalars_ok spec \<and> spec_ok m spec \<and>
      (FilterJSON spec = [] \<or>
       (\<exists>f c. Parse L m (FilterJSON spec) = Inr f \<and> json_Compact (FilterJSON spec) = Some c)))) \<and>
   (\<forall>e mo. validate L spec mo = Inl e \<longrightarrow> Code (Some e) = CodeInvalidInput)"
proof -
  have "(\<exists>spec'. compileFilter L spec m = Inr spec') =
      (FilterJSON spec = [] \<or>
       (\<exists>f c. Parse L m (FilterJSON spec) = Inr f \<and> json_Compact (FilterJSON spec) = Some c))"
    by (auto simp: compileFilter_def split: option.splits)
  then show ?thesis using validate_iff [of L spec m] validate_code by blast
qed

theorem validate_exact_witness:
  "\<exists>e. validate demo_lib demo_spec None = Inl e \<and> Code (Some e) = CodeInvalidInput"
proof -
  have "validateScalars demo_spec = None"
    by (simp add: validateScalars_iff scalars_ok_def demo_spec_def ValidGrain_def validMark_def grains marks
        IsZero_def zero_time_def)
  then have "validate demo_lib demo_spec None = Inl (invalid ''cube has no field allow-list'')"
    by (simp add: validate_def)
  then show ?thesis using validate_exact [of demo_lib demo_spec NewMap] by blast
qed

text \<open>
  C17. A validated spec compiles.  Against the cube it was validated for, compilation can
  fail only for the cube's name, an undeclared grain or a distinct count: otherwise it yields
  a query that groups by exactly the dimensions the spec places, each once, computes exactly
  its aggregated measures, each once, answers every sort key, and carries the spec's filter,
  range, grain and sort unchanged.
\<close>

theorem validated_compiles:
  assumes "validate L spec (Some m) = Inr spec'" "CubeFields cube = Some m" "SpecCube spec = CubeName cube"
    and "SpecGrain spec = [] \<or> Grains cube = [] \<or> SpecGrain spec \<in> set (Grains cube)"
    and "list_all (\<lambda>r. RefAgg r \<noteq> AggCountDistinct) (spec_refs spec)"
  shows "\<exists>plan. Compile_viz spec' cube = Inr plan \<and>
    (let q = Query plan in
     distinct (GroupBy q) \<and> set (GroupBy q) = set (dims (spec_refs spec))
     \<and> distinct (map (Key \<circ> measure_ref) (Measures q)) \<and> Key ` measure_ref ` set (Measures q) = Key ` set (measures (spec_refs spec))
     \<and> list_all (\<lambda>od. SortField od \<in> set (GroupBy q) \<or> SortField od \<in> Key ` measure_ref ` set (Measures q)) (QuerySort q)
     \<and> QueryFilter q = SpecFilter spec' \<and> QueryRange q = SpecRange spec \<and> QueryGrain q = SpecGrain spec
     \<and> QuerySort q = SpecSort spec)"
proof -
  have ok: "spec_ok m spec" and cf: "compileFilter L spec m = Inr spec'"
    using assms(1) by (simp_all add: validate_iff)
  have same: "Rows spec' = Rows spec" "Columns spec' = Columns spec" "Detail spec' = Detail spec"
    "SpecEncodings spec' = SpecEncodings spec" "SpecSort spec' = SpecSort spec" "SpecCube spec' = SpecCube spec"
    "SpecGrain spec' = SpecGrain spec" "SpecRange spec' = SpecRange spec"
    using compileFilter_shape [OF cf] by auto
  let ?rs = "query_refs spec' (Normalize (Rows spec')) (Normalize (Columns spec'))"
  have refs: "set ?rs = set (spec_refs spec)"
    using query_refs_spec [OF ok] by (simp add: query_refs_def same)
  have sorts: "list_all (\<lambda>od. SortField od \<in> Key ` set ?rs) (SpecSort spec')"
    using ok unfolding refs same(5) by (simp add: spec_ok_def)
  have "list_all (\<lambda>r. RefAgg r \<noteq> AggCountDistinct) ?rs"
    using assms(5) refs by (simp add: list_all_iff)
  from aggregateQuery_ok [OF this sorts] obtain q seen where
    q: "aggregateQuery spec' (Normalize (Rows spec')) (Normalize (Columns spec')) = Inr q" "collected q seen ?rs"
    "QueryFilter q = SpecFilter spec'" "QueryRange q = SpecRange spec" "QueryGrain q = SpecGrain spec"
    "QuerySort q = SpecSort spec" by (auto simp: same)
  have "list_all (\<lambda>od. SortField od \<in> set (GroupBy q) \<or> SortField od \<in> seen) (QuerySort q)"
    using sorts collected_keys [OF q(2)] by (auto simp: list_all_iff q same)
  then show ?thesis
    using q collected_cong [OF q(2) refs] assms(2-4) by (auto simp: Compile_viz_def same Let_def collected_def)
qed

theorem validated_compiles_witness:
  "\<exists>plan. Compile_viz demo_spec demo_cube = Inr plan \<and> set (GroupBy (Query plan)) = {''team'', ''ts''}"
proof -
  obtain m where m: "CubeFields demo_cube = Some m" by (simp add: demo_cube_def)
  have refs: "spec_refs demo_spec = [\<lparr>RefName = ''team'', RefAgg = AggNone\<rparr>, \<lparr>RefName = ''ts'', RefAgg = AggNone\<rparr>,
      \<lparr>RefName = ''tokens'', RefAgg = AggSum\<rparr>]"
    by (simp add: spec_refs_def demo_spec_def dim_leaf_def Encodings_Fields_def List.map_filter_simps)
  have "validate demo_lib demo_spec (Some m) = Inr demo_spec" using demo_spec_valid m by metis
  from validated_compiles [OF this m] have
    "\<exists>plan. Compile_viz demo_spec demo_cube = Inr plan \<and> set (GroupBy (Query plan)) = set (dims (spec_refs demo_spec))"
    by (auto simp: refs Let_def) (auto simp: demo_spec_def demo_cube_def)
  then show ?thesis by (simp add: refs dims_def)
qed

text \<open>
  The plan answers every pane.  The panes of a compiled plan are the rows times the
  columns of the normalized shelves, row-major; each field of a pane is grouped by or
  computed; every pane and nothing else has a mark, and where pane keys do not collide it
  is the explicit mark or the one inferred from the two axes.
\<close>

lemma Compile_panes:
  assumes "Compile_viz spec cube = Inr plan" "CubeFields cube = Some fs"
  defines "rows \<equiv> Normalize (Rows spec)" and "cols \<equiv> Normalize (Columns spec)"
  shows "Panes plan = concat (map (\<lambda>r. map (pane_key r) cols) rows)
    \<and> length (Panes plan) = length rows * length cols
    \<and> dom (Marks plan) = set (Panes plan)
    \<and> (\<forall>r c f. r \<in> set rows \<longrightarrow> c \<in> set cols \<longrightarrow> f \<in> set (TupleFields r @ TupleFields c) \<longrightarrow>
          RefName f \<in> set (GroupBy (Query plan)) \<or> Key f \<in> Key ` measure_ref ` set (Measures (Query plan)))
    \<and> (distinct (Panes plan) \<longrightarrow> (\<forall>r c. r \<in> set rows \<longrightarrow> c \<in> set cols \<longrightarrow>
          Marks plan (pane_key r c) = Some (markFor (SpecMark spec) (kindOf r fs) (kindOf c fs))))"
proof -
  let ?pairs = "concat (map (\<lambda>r. map (\<lambda>c. (r, c)) cols) rows)"
  let ?v = "\<lambda>r c. markFor (SpecMark spec) (kindOf r fs) (kindOf c fs)"
  obtain q where q: "aggregateQuery spec rows cols = Inr q" "Query plan = q"
      "Panes plan = map (\<lambda>(r, c). pane_key r c) ?pairs"
      "Marks plan = foldl (\<lambda>mk (r, c). mk(pane_key r c \<mapsto> ?v r c)) Map.empty ?pairs"
    using assms(1,2) by (auto simp: Compile_viz_def Let_def rows_def cols_def split: if_splits)
  have panes: "Panes plan = concat (map (\<lambda>r. map (pane_key r) cols) rows)"
    by (simp add: q(3) map_concat comp_def)
  have len: "length (Panes plan) = length rows * length cols"
    unfolding panes by (induction rows) simp_all
  have in_pairs: "(r, c) \<in> set ?pairs" if "r \<in> set rows" "c \<in> set cols" for r c using that by auto
  have marks: "distinct (Panes plan) \<longrightarrow> (\<forall>r c. r \<in> set rows \<longrightarrow> c \<in> set cols \<longrightarrow>
      Marks plan (pane_key r c) = Some (?v r c))"
    unfolding q(4) q(3) using marks_exact [of pane_key ?pairs _ _ ?v Map.empty] in_pairs by blast
  have dm: "dom (Marks plan) = set (Panes plan)" by (simp only: q(3,4) marks_dom) simp
  obtain seen where "collected q seen (query_refs spec rows cols)" using aggregateQuery_collects [OF q(1)] by blast
  then have "RefName f \<in> set (GroupBy q) \<or> Key f \<in> Key ` measure_ref ` set (Measures q)"
    if "f \<in> set (query_refs spec rows cols)" for f
    using that by (auto simp: collected_def dims_def measures_def)
  moreover have "f \<in> set (query_refs spec rows cols)"
    if "r \<in> set rows" "c \<in> set cols" "f \<in> set (TupleFields r @ TupleFields c)" for r c f
    using that by (auto simp: query_refs_def)
  ultimately show ?thesis using panes len dm marks unfolding q(2) by blast
qed


text \<open>
  C18. The laws of the table algebra: crossing is associative and its nesting flattens, an
  empty shelf is its unit, crossing distributes over concatenation from the left, and a
  shelf has as many tuples as its operators say (sums for concat, products for cross and
  nest).
\<close>

theorem Normalize_algebra:
  fixes a b c :: AlgebraExpr and es :: "Shelf list"
  defines "X \<equiv> \<lambda>es. Some (AlgebraExpr None AlgebraCross es)" and "C \<equiv> \<lambda>es. Some (AlgebraExpr None AlgebraConcat es)"
    and "N \<equiv> \<lambda>es. Some (AlgebraExpr None AlgebraNest es)"
  shows "Normalize (X [X [Some a, Some b], Some c]) = Normalize (X [Some a, X [Some b, Some c]])
    \<and> Normalize (X [Some a, X [Some b, Some c]]) = Normalize (X [Some a, Some b, Some c])
    \<and> Normalize (X [None, Some a]) = Normalize (Some a)
    \<and> Normalize (X [Some a, None]) = Normalize (Some a)
    \<and> Normalize (X [C [Some a, Some b], Some c]) = Normalize (C [X [Some a, Some c], X [Some b, Some c]])
    \<and> length (Normalize (C es)) = sum_list (map (length \<circ> Normalize) es)
    \<and> length (Normalize (X es)) = prod_list (map (length \<circ> Normalize) es)
    \<and> length (Normalize (N es)) = prod_list (map (length \<circ> Normalize) es)
    \<and> map TupleFields (Normalize (N es)) = map TupleFields (Normalize (X es))
    \<and> (es = [] \<or> list_all Nested (Normalize (N es)))"
  unfolding X_def C_def N_def
  by (intro conjI; simp add: algebra_ops product_assoc product_unit_cross product_unit_right length_concat comp_def
      length_products products_fields; simp add: products_nested disj_imp)

text \<open>
  Drilling keeps a spec valid: drilling a validated spec into a child level that is
  itself a dimension gives a spec that still meets the allow-list, with its sort keys, and
  in which the drilled field is no longer used as a dimension.  (The field's name holds no
  parenthesis, as the key of an aggregated measure does.)
\<close>

lemma Drill_keeps_valid:
  assumes "validate L spec0 (Some m) = Inr spec" "CubeFields cube = Some m" "Drill spec cube field = Inr spec'"
    and "\<And>child f. \<lbrakk>childOf (Hierarchies cube) field = Some child; Lookup m child = Some f\<rbrakk> \<Longrightarrow> Role f \<noteq> RoleMeasure"
    and "CHR ''('' \<notin> set field"
  shows "spec_ok m spec' \<and> (childOf (Hierarchies cube) field \<noteq> Some field \<longrightarrow> field \<notin> set (dims (spec_refs spec')))"
proof -
  obtain fs child where fs: "CubeFields cube = Some fs" and c1: "childOf (Hierarchies cube) field = Some child"
      and l: "Lookup fs child \<noteq> None"
    and d: "Rows spec' = drillShelf (swap_ref field child) (Rows spec)"
      "Columns spec' = drillShelf (swap_ref field child) (Columns spec)"
      "Detail spec' = map (swap_ref field child) (Detail spec)"
      "Encodings_Fields (SpecEncodings spec') = map (swap_ref field child) (Encodings_Fields (SpecEncodings spec))"
      "SpecSort spec' = map (\<lambda>od. if SortField od = field then od\<lparr>SortField := child\<rparr> else od) (SpecSort spec)"
    by (rule drill_refs [OF assms(3)])
  obtain f where c: "childOf (Hierarchies cube) field = Some child" "Lookup m child = Some f"
    using fs c1 l assms(2) by auto
  have ok: "spec_ok m spec"
    using assms(1) compileFilter_shape [of L spec0 m spec] by (auto simp: validate_iff spec_ok_def spec_refs_def)
  note sw = swap_ref_ok [OF c(2) assms(4) [OF c], of _ field]
  have refs: "spec_refs spec' = map (swap_ref field child) (spec_refs spec)" by (rule spec_refs_drill [OF d(1-4)])
  have "Key ` set (spec_refs spec') = (\<lambda>k. if k = field then child else k) ` Key ` set (spec_refs spec)"
    unfolding refs by (simp only: set_map image_image swap_ref_key [OF assms(5)])
  then have "list_all (\<lambda>od. SortField od \<in> Key ` set (spec_refs spec')) (SpecSort spec')"
    using ok by (auto simp: d(5) spec_ok_def list_all_iff)
  moreover have "shelf_ok m MaxShelfDepth (Rows spec')" "shelf_ok m MaxShelfDepth (Columns spec')"
    using ok shelf_ok_drill [OF _ sw] by (simp_all add: spec_ok_def d)
  moreover have "list_all (dimension_ok m) (Detail spec')" "list_all (ref_ok m) (Encodings_Fields (SpecEncodings spec'))"
    using ok sw by (auto simp: spec_ok_def d(3,4) list_all_iff dimension_ok_def)
  ultimately have "spec_ok m spec'" by (simp add: spec_ok_def)
  moreover have "field \<notin> set (dims (spec_refs spec'))" if "child \<noteq> field"
    unfolding refs using that by (auto simp: dims_def swap_ref_def)
  ultimately show ?thesis using c(1) by simp
qed


end
