(* ===== verification/Calendar.thy ===== *)
theory Calendar
  imports Main
begin

text \<open>
  The proleptic Gregorian calendar of package \<^verbatim>\<open>time\<close> in UTC: the civil date of a day, the
  normalizing \<^verbatim>\<open>time.Date\<close> and \<^verbatim>\<open>AddDate\<close>, with the lemmas that months tile the days.  A time is its
  instant in nanoseconds since the Unix epoch.
\<close>

section \<open>The calendar of package time\<close>

definition second :: int where "second = 1000000000"
definition minute :: int where "minute = 60 * second"
definition hour :: int where "hour = 60 * minute"
definition day :: int where "day = 24 * hour"

definition is_leap :: "int \<Rightarrow> bool" where
  "is_leap y = (y mod 4 = 0 \<and> (y mod 100 \<noteq> 0 \<or> y mod 400 = 0))"

text \<open>Days are counted from 1 January of year 1; the Unix epoch is day 719162.\<close>

definition epoch_day :: int where "epoch_day = 719162"

definition year_start :: "int \<Rightarrow> int" where
  "year_start y = 365 * (y - 1) + (y - 1) div 4 - (y - 1) div 100 + (y - 1) div 400"

text \<open>The year of a day and the day's number in it, by the cycles of 400, 100, 4 and 1 years.\<close>

definition year_of :: "int \<Rightarrow> int \<times> int" where
  "year_of d =
     (let a = d div 146097; r = d mod 146097;
          b = min 3 (r div 36524); r = r - 36524 * b;
          c = r div 1461; r = r mod 1461;
          e = min 3 (r div 365)
      in (400 * a + 100 * b + 4 * c + e + 1, r - 365 * e))"

text \<open>The first day of month \<open>m\<close> (counted from 0) within its year; 12 is the year's end.\<close>

definition month_offset :: "bool \<Rightarrow> int \<Rightarrow> int" where
  "month_offset leap m =
     [0, 31, 59, 90, 120, 151, 181, 212, 243, 273, 304, 334, 365] ! nat m + (if leap \<and> 2 \<le> m then 1 else 0)"

fun month_search :: "bool \<Rightarrow> int \<Rightarrow> nat \<Rightarrow> int" where
  "month_search leap yd 0 = 0"
| "month_search leap yd (Suc m) = (if month_offset leap (int (Suc m)) \<le> yd then int (Suc m) else month_search leap yd m)"

text \<open>Year, month (from 0) and day of the month (from 0) of a day.\<close>

definition civil :: "int \<Rightarrow> int \<times> int \<times> int" where
  "civil d =
     (let (y, yd) = year_of d; m = month_search (is_leap y) yd 11
      in (y, m, yd - month_offset (is_leap y) m))"

text \<open>\<^verbatim>\<open>time.Date\<close> in UTC: an out-of-range month carries into the year, a day into the next month.\<close>

definition date_day :: "int \<Rightarrow> int \<Rightarrow> int \<Rightarrow> int" where
  "date_day y m dy =
     (let y' = y + m div 12; m' = m mod 12 in year_start y' + month_offset (is_leap y') m' + dy)"

definition day_of :: "int \<Rightarrow> int" where
  "day_of t = t div day + epoch_day"

definition at_day :: "int \<Rightarrow> int" where
  "at_day d = (d - epoch_day) * day"

definition AddDate :: "int \<Rightarrow> int \<Rightarrow> int \<Rightarrow> int" where
  "AddDate t months days =
     (let (y, m, dy) = civil (day_of t) in at_day (date_day y (m + months) (dy + days)) + t mod day)"

section \<open>Lemmas\<close>

lemma time_units: "minute = 60000000000" "hour = 3600000000000" "day = 86400000000000"
  by (simp_all add: second_def minute_def hour_def day_def)

lemma div_step:
  fixes k y :: int assumes "0 < k"
  shows "y div k = (y - 1) div k + (if y mod k = 0 then 1 else 0)"
proof (cases "y mod k = 0")
  case True
  have "y = k * (y div k)" using True mult_div_mod_eq [of k y] by simp
  then have "y - 1 = k * (y div k - 1) + (k - 1)" by (simp add: algebra_simps)
  from int_div_pos_eq [OF this] show ?thesis using assms True by simp
next
  case False
  then have m: "1 \<le> y mod k" using assms pos_mod_sign [of k y] by linarith
  have "y - 1 = k * (y div k) + (y mod k - 1)" using mult_div_mod_eq [of k y] by simp
  moreover have "y mod k - 1 < k" using pos_mod_bound [OF assms, of y] by simp
  ultimately have "(y - 1) div k = y div k" using m int_div_pos_eq by (metis diff_ge_0_iff_ge)
  then show ?thesis using False by simp
qed

lemma year_start_step: "year_start (y + 1) = year_start y + (if is_leap y then 366 else 365)"
proof -
  define i where "i = (\<lambda>k. if y mod k = 0 then 1 else 0 :: int)"
  have "y div 4 = (y - 1) div 4 + i 4" "y div 100 = (y - 1) div 100 + i 100" "y div 400 = (y - 1) div 400 + i 400"
    unfolding i_def by (rule div_step, simp)+
  then have "year_start (y + 1) = year_start y + 365 + i 4 - i 100 + i 400" by (simp add: year_start_def)
  moreover have "y mod 100 = 0 \<Longrightarrow> y mod 4 = 0" "y mod 400 = 0 \<Longrightarrow> y mod 100 = 0"
    using mod_mod_cancel [of 4 100 y] mod_mod_cancel [of 100 400 y] by simp_all
  then have "i 4 - i 100 + i 400 = (if is_leap y then 1 else 0)"
    unfolding i_def is_leap_def by (cases "y mod 4 = 0"; cases "y mod 100 = 0"; cases "y mod 400 = 0") simp_all
  ultimately show ?thesis by (cases "is_leap y") simp_all
qed

lemma year_start_cycles:
  assumes "0 \<le> b" "b \<le> 3" "0 \<le> c" "c \<le> 24" "0 \<le> e" "e \<le> 3"
  shows "year_start (400 * a + 100 * b + 4 * c + e + 1) = 146097 * a + 36524 * b + 1461 * c + 365 * e"
proof -
  let ?y = "400 * a + 100 * b + 4 * c + e"
  have "?y div 4 = 100 * a + 25 * b + c" by (rule int_div_pos_eq [of _ _ _ e]) (use assms in auto)
  moreover have "?y div 100 = 4 * a + b" by (rule int_div_pos_eq [of _ _ _ "4 * c + e"]) (use assms in auto)
  moreover have "?y div 400 = a" by (rule int_div_pos_eq [of _ _ _ "100 * b + 4 * c + e"]) (use assms in auto)
  ultimately show ?thesis by (simp add: year_start_def)
qed

lemma cycles_leap:
  assumes "0 \<le> b" "b \<le> 3" "0 \<le> c" "c \<le> 24" "c < 24 \<or> b = 3"
  shows "is_leap (400 * a + 100 * b + 4 * c + 3 + 1)"
proof -
  let ?y = "400 * a + 100 * b + 4 * c + 4"
  have "?y mod 4 = 0" by (rule int_mod_pos_eq [of _ _ "100 * a + 25 * b + c + 1"]) simp_all
  moreover have "?y mod 100 \<noteq> 0" if "c < 24"
  proof -
    have "?y mod 100 = 4 * c + 4" by (rule int_mod_pos_eq [of _ _ "4 * a + b"]) (use that assms in simp_all)
    then show ?thesis using assms by simp
  qed
  moreover have "?y mod 400 = 0" if "c = 24" "b = 3"
    by (rule int_mod_pos_eq [of _ _ "a + 1"]) (use that in simp_all)
  ultimately have "is_leap ?y" using assms(4,5) unfolding is_leap_def by linarith
  then show ?thesis by (simp add: add.assoc)
qed

lemma clamp:
  fixes r k n :: int
  assumes "0 \<le> r" "0 < k" "0 \<le> n"
  shows "0 \<le> min n (r div k)" "min n (r div k) \<le> n" "0 \<le> r - k * min n (r div k)"
    "min n (r div k) < n \<longrightarrow> r - k * min n (r div k) < k"
    "r < k * n + l \<Longrightarrow> k \<le> l \<Longrightarrow> r - k * min n (r div k) < l"
proof -
  have q: "r = k * (r div k) + r mod k" "0 \<le> r mod k" "r mod k < k" "0 \<le> r div k"
    using assms by (simp_all add: pos_imp_zdiv_nonneg_iff)
  have d: "r - k * (r div k) = r mod k" by (simp add: minus_mult_div_eq_mod)
  show "0 \<le> min n (r div k)" "min n (r div k) \<le> n" using assms q by simp_all
  show s: "min n (r div k) < n \<longrightarrow> r - k * min n (r div k) < k" using q d by (auto simp: min_def)
  have le: "k * (r div k) \<le> r" using d q(2) by linarith
  have n: "k * n \<le> k * (r div k)" if "n \<le> r div k" using that assms by simp
  show "0 \<le> r - k * min n (r div k)"
  proof (cases "n \<le> r div k")
    case True
    then show ?thesis using n le by (simp add: min_def)
  qed (use le in \<open>simp add: min_def\<close>)
  show "r - k * min n (r div k) < l" if "r < k * n + l" "k \<le> l"
  proof (cases "n \<le> r div k")
    case True
    then show ?thesis using that by (simp add: min_def)
  qed (use that s in \<open>simp add: min_def\<close>)
qed

lemma year_of_correct:
  assumes "year_of d = (y, yd)"
  shows "d = year_start y + yd \<and> 0 \<le> yd \<and> yd < (if is_leap y then 366 else 365)"
proof -
  define a where "a = d div 146097"
  define r1 where "r1 = d mod 146097"
  define b where "b = min 3 (r1 div 36524)"
  define r2 where "r2 = r1 - 36524 * b"
  define c where "c = r2 div 1461"
  define r3 where "r3 = r2 mod 1461"
  define e where "e = min 3 (r3 div 365)"
  have y: "y = 400 * a + 100 * b + 4 * c + e + 1" "yd = r3 - 365 * e"
    using assms unfolding year_of_def Let_def a_def [symmetric] r1_def [symmetric] b_def [symmetric]
      r2_def [symmetric] c_def [symmetric] r3_def [symmetric] e_def [symmetric] by simp_all
  have r1: "0 \<le> r1" "r1 < 146097" by (simp_all add: r1_def)
  have b: "0 \<le> b" "b \<le> 3" "0 \<le> r2" "r2 \<le> 36524" "b < 3 \<longrightarrow> r2 < 36524"
    using clamp(1-4) [OF r1(1), of 36524 3] clamp(5) [OF r1(1), of 36524 3 36525] r1 unfolding b_def r2_def by linarith+
  have r3: "0 \<le> r3" "r3 < 1461" by (simp_all add: r3_def)
  have r23: "r2 = 1461 * c + r3" by (simp add: c_def r3_def)
  have c: "0 \<le> c" "c \<le> 24" using b(3,4) r3 r23 by linarith+
  have e: "0 \<le> e" "e \<le> 3" "0 \<le> yd" "e < 3 \<longrightarrow> yd < 365" "yd \<le> 365"
    using clamp(1-4) [OF r3(1), of 365 3] clamp(5) [OF r3(1), of 365 3 366] r3 unfolding y(2) e_def by linarith+
  have "d = 146097 * a + r1" by (simp add: a_def r1_def)
  then have "d = year_start y + yd"
    using year_start_cycles [OF b(1,2) c e(1,2), of a] y r23 by (simp add: r2_def)
  moreover have "yd < 365" if "\<not> (e = 3 \<and> (c < 24 \<or> b = 3))"
  proof (cases "e < 3")
    case False
    then have "b < 3" "c = 24" "e = 3" using that b c e by auto
    then show ?thesis using b(5) r23 y(2) by simp
  qed (use e in simp)
  moreover have "is_leap y" if "e = 3" "c < 24 \<or> b = 3"
    using cycles_leap [OF b(1,2) c that(2), of a] that(1) y(1) by simp
  ultimately show ?thesis using e by (cases "e = 3 \<and> (c < 24 \<or> b = 3)") auto
qed

lemma month_search_bounds:
  "0 \<le> yd \<Longrightarrow> 0 \<le> month_search leap yd n \<and> month_search leap yd n \<le> int n
     \<and> month_offset leap (month_search leap yd n) \<le> yd
     \<and> (\<forall>k. month_search leap yd n < k \<and> k \<le> int n \<longrightarrow> yd < month_offset leap k)"
proof (induction n)
  case (Suc n)
  show ?case
  proof (cases "month_offset leap (int (Suc n)) \<le> yd")
    case False
    have "yd < month_offset leap k" if "month_search leap yd n < k" "k \<le> int (Suc n)" for k
    proof (cases "k = int (Suc n)")
      case True
      then show ?thesis using False by simp
    next
      case False
      then show ?thesis using Suc that by auto
    qed
    then show ?thesis using False Suc by auto
  qed simp
qed (simp add: month_offset_def)

definition year_length :: "int \<Rightarrow> int" where
  "year_length y = (if is_leap y then 366 else 365)"

lemma month_search_correct:
  assumes "0 \<le> yd" "yd < year_length y"
  defines "m \<equiv> month_search (is_leap y) yd 11"
  shows "0 \<le> m" "m \<le> 11" "month_offset (is_leap y) m \<le> yd" "yd < month_offset (is_leap y) (m + 1)"
proof -
  note b = month_search_bounds [OF assms(1), of "is_leap y" 11, folded m_def]
  show "0 \<le> m" "m \<le> 11" "month_offset (is_leap y) m \<le> yd" using b by auto
  show "yd < month_offset (is_leap y) (m + 1)"
  proof (cases "m = 11")
    case True
    then show ?thesis using assms(2) by (cases "is_leap y") (simp_all add: month_offset_def year_length_def)
  qed (use b in auto)
qed

lemma month_offset_mono:
  assumes "0 \<le> m" "m \<le> 11" shows "month_offset leap m < month_offset leap (m + 1)"
proof -
  have "m = 0 \<or> m = 1 \<or> m = 2 \<or> m = 3 \<or> m = 4 \<or> m = 5 \<or> m = 6 \<or> m = 7 \<or> m = 8 \<or> m = 9 \<or> m = 10 \<or> m = 11"
    using assms by arith
  then show ?thesis by (elim disjE) (simp_all add: month_offset_def)
qed

text \<open>Months counted from year 0: the day each one starts at.\<close>

definition month_start :: "int \<Rightarrow> int" where
  "month_start n = year_start (n div 12) + month_offset (is_leap (n div 12)) (n mod 12)"

lemma month_start_split: "0 \<le> m \<Longrightarrow> m \<le> 11 \<Longrightarrow> month_start (12 * y + m) = year_start y + month_offset (is_leap y) m"
  by (simp add: month_start_def)

lemma date_day_month: "date_day y m dy = month_start (12 * y + m) + dy"
  by (simp add: date_day_def month_start_def Let_def)

lemma month_start_next:
  assumes "0 \<le> m" "m \<le> 11"
  shows "month_start (12 * y + m + 1) = year_start y + month_offset (is_leap y) (m + 1)"
proof (cases "m = 11")
  case True
  have "month_start (12 * (y + 1) + 0) = year_start (y + 1) + month_offset (is_leap (y + 1)) 0"
    by (rule month_start_split) simp_all
  then show ?thesis using True year_start_step [of y] by (simp add: month_offset_def algebra_simps)
next
  case False
  then show ?thesis using assms month_start_split [of "m + 1" y] by (simp add: add.assoc)
qed

lemma month_start_step: "month_start n < month_start (n + 1)"
proof -
  have n: "n = 12 * (n div 12) + n mod 12" "0 \<le> n mod 12" "n mod 12 \<le> 11" by simp_all
  have "month_start n = year_start (n div 12) + month_offset (is_leap (n div 12)) (n mod 12)"
    by (simp add: month_start_def)
  moreover have "month_start (n + 1) = year_start (n div 12) + month_offset (is_leap (n div 12)) (n mod 12 + 1)"
    using month_start_next [OF n(2,3), of "n div 12"] n(1) by metis
  ultimately show ?thesis using month_offset_mono [OF n(2,3)] by simp
qed

definition month_index :: "int \<Rightarrow> int" where
  "month_index d = (let (y, m, dy) = civil d in 12 * y + m)"

lemma civil_correct:
  assumes "civil d = (y, m, dy)"
  shows "month_start (12 * y + m) + dy = d" "month_index d = 12 * y + m" "0 \<le> dy"
    "d < month_start (12 * y + m + 1)"
proof -
  obtain yd where yd: "year_of d = (y, yd)" "m = month_search (is_leap y) yd 11" "dy = yd - month_offset (is_leap y) m"
    using assms by (auto simp: civil_def Let_def split: prod.splits)
  have d: "d = year_start y + yd" "0 \<le> yd" "yd < year_length y"
    using year_of_correct [OF yd(1)] by (auto simp: year_length_def)
  note m = month_search_correct [OF d(2,3), folded yd(2)]
  show "month_start (12 * y + m) + dy = d" "0 \<le> dy" "d < month_start (12 * y + m + 1)"
    using m month_start_split [OF m(1,2), of y] month_start_next [OF m(1,2), of y] yd(3) d(1) by simp_all
  show "month_index d = 12 * y + m" by (simp add: month_index_def assms)
qed

lemma month_index_bounds: "month_start (month_index d) \<le> d" "d < month_start (month_index d + 1)"
  using civil_correct [of d] by (cases "civil d"; force)+

lemma int_strict_mono:
  fixes f :: "int \<Rightarrow> int"
  assumes "\<And>n. f n < f (n + 1)" "n < m" shows "f n < f m"
proof -
  have "f n < f (n + int (Suc j))" for j
  proof (induction j)
    case (Suc j)
    then show ?case using assms(1) [of "n + int (Suc j)"] by (simp add: algebra_simps)
  qed (use assms in simp)
  from this [of "nat (m - n - 1)"] assms(2) show ?thesis by simp
qed

lemma day_of_at_day [simp]: "day_of (at_day d) = d"
  by (simp add: day_of_def at_day_def time_units)

lemma at_day_mod [simp]: "at_day d mod day = 0"
  by (simp add: at_day_def)

lemma at_day_mono: "a < b \<Longrightarrow> at_day a < at_day b"
  by (simp add: at_day_def time_units)

lemma multiple_covers:
  fixes u t :: int assumes "0 < u"
  shows "t div u * u \<le> t" "t < (t div u + 1) * u"
proof -
  have "t div u * u = t - t mod u" by (simp add: minus_mod_eq_div_mult [symmetric])
  moreover have "(t div u + 1) * u = t div u * u + u" by (simp add: distrib_right)
  ultimately show "t div u * u \<le> t" "t < (t div u + 1) * u"
    using pos_mod_sign [OF assms, of t] pos_mod_bound [OF assms, of t] by linarith+
qed

lemma at_day_of: "at_day (day_of t) \<le> t" "t < at_day (day_of t + 1)"
  using multiple_covers [of day t] by (simp_all add: at_day_def day_of_def time_units)

lemma civil_day: "civil d = (y, m, dy) \<Longrightarrow> date_day y m dy = d"
  using civil_correct(1) [of d y m dy] by (simp add: date_day_month)

end
