(* ===== verification/Viz_Time.thy ===== *)
theory Viz_Time
  imports Viz_Spec Calendar
begin

text \<open>
  The time grains of the analytics cubes (\<^verbatim>\<open>foundation/vizql/codec.go\<close>): truncation to a
  minute, hour, UTC day or UTC month and the start of the next period, and the enumeration of the partition buckets of
  \<^verbatim>\<open>clients/analytics/cassandra/store.go\<close>.  A time is its instant in nanoseconds since the Unix
  epoch, in UTC.
\<close>

section \<open>Grains (codec.go)\<close>

definition Truncate :: "int \<Rightarrow> string \<Rightarrow> int" where
  "Truncate t g =
     (if g = GrainMinute then t div minute * minute
      else if g = GrainHour then t div hour * hour
      else if g = GrainDay then (let (y, m, dy) = civil (day_of t) in at_day (date_day y m dy))
      else if g = GrainMonth then (let (y, m, dy) = civil (day_of t) in at_day (date_day y m 0))
      else t)"

definition Next :: "int \<Rightarrow> string \<Rightarrow> int" where
  "Next start g =
     (if g = GrainMinute then start + minute
      else if g = GrainHour then start + hour
      else if g = GrainDay then AddDate start 0 1
      else if g = GrainMonth then AddDate start 1 0
      else start)"

section \<open>Buckets (store.go)\<close>

text \<open>The loop of \<^verbatim>\<open>Aggregate\<close> that lists the buckets from \<open>b\<close> up to \<open>hi\<close>; \<open>None\<close> is a loop that never ends.\<close>

partial_function (option) bucket_loop :: "string \<Rightarrow> int \<Rightarrow> int \<Rightarrow> int list option" where
  "bucket_loop width hi b =
     (if b < hi then Option.bind (bucket_loop width hi (Next b width)) (\<lambda>bs. Some (b # bs)) else Some [])"

definition buckets_of :: "string \<Rightarrow> int \<Rightarrow> int \<Rightarrow> int list option" where
  "buckets_of width lo hi = bucket_loop width hi (Truncate lo width)"

definition coarsest :: "string list \<Rightarrow> string" where
  "coarsest grains =
     (case find (\<lambda>g. g \<in> set grains) [GrainMonth, GrainDay, GrainHour, GrainMinute] of
        Some g \<Rightarrow> g
      | None \<Rightarrow> hd grains)"

definition measureNames :: "MeasureRef list \<Rightarrow> string list" where
  "measureNames ms = foldl (\<lambda>out mr. if MeasureName mr \<in> set out then out else out @ [MeasureName mr]) [] ms"

definition TableName :: "string \<Rightarrow> string \<Rightarrow> string" where
  "TableName cube grain = cube @ ''_'' @ grain"

section \<open>Periods\<close>

text \<open>
  What every known grain provides: an increasing sequence of period starts that covers the
  time line, with truncation to the start of a time's period and the step to the next one.
\<close>

locale grain_periods =
  fixes g :: string and start index :: "int \<Rightarrow> int"
  assumes start_step: "start n < start (n + 1)"
    and covers: "start (index t) \<le> t" "t < start (index t + 1)"
    and Truncate_start: "Truncate t g = start (index t)"
    and Next_start: "Next (start n) g = start (n + 1)"
begin

lemma start_less: "n < m \<Longrightarrow> start n < start m"
  using int_strict_mono [of start] start_step by blast

lemma start_less_iff: "(start n < start m) = (n < m)"
  using start_less by (metis less_asym less_irrefl not_less_iff_gr_or_eq)

lemma start_le_iff: "(start n \<le> start m) = (n \<le> m)"
  using start_less_iff [of m n] by (simp add: not_less [symmetric])

lemma index_unique: "start n \<le> t \<Longrightarrow> t < start (n + 1) \<Longrightarrow> index t = n"
  using covers [of t] start_less_iff [of "index t" "n + 1"] start_less_iff [of n "index t + 1"] by linarith

lemma index_start [simp]: "index (start n) = n"
  by (rule index_unique) (simp_all add: start_step)

lemma period:
  "Truncate t g \<le> t" "t < Next (Truncate t g) g" "Truncate (Truncate t g) g = Truncate t g"
  "Truncate (Next (Truncate t g) g) g = Next (Truncate t g) g"
  "Truncate t g \<le> u \<Longrightarrow> u < Next (Truncate t g) g \<Longrightarrow> Truncate u g = Truncate t g"
  using covers [of t] index_unique [of "index t" u] by (simp_all add: Truncate_start Next_start)

lemma Truncate_mono: "t \<le> u \<Longrightarrow> Truncate t g \<le> Truncate u g"
proof -
  assume "t \<le> u"
  then have "index t < index u + 1" using covers(1) [of t] covers(2) [of u] start_less_iff [of "index t" "index u + 1"] by linarith
  then show ?thesis by (simp add: Truncate_start start_le_iff)
qed

lemma aligned_le: "Truncate b g = b \<Longrightarrow> b \<le> t \<Longrightarrow> b \<le> Truncate t g"
  using Truncate_mono [of b t] by simp

lemma bucket_loop_start:
  "\<exists>bs. bucket_loop g hi (start n) = Some bs \<and> sorted_wrt (<) bs \<and> set bs = {start k |k. n \<le> k \<and> start k < hi}"
proof (induction "nat (hi - start n)" arbitrary: n rule: less_induct)
  case less
  show ?case
  proof (cases "start n < hi")
    case True
    have "nat (hi - start (n + 1)) < nat (hi - start n)" using True start_step [of n] by simp
    from less [OF this] obtain bs where
      bs: "bucket_loop g hi (start (n + 1)) = Some bs" "sorted_wrt (<) bs" "set bs = {start k |k. n + 1 \<le> k \<and> start k < hi}"
      by blast
    have "bucket_loop g hi (start n) = Some (start n # bs)"
      by (subst bucket_loop.simps) (simp add: True Next_start bs(1))
    moreover have "sorted_wrt (<) (start n # bs)" using bs(2,3) start_less by auto
    moreover have "set (start n # bs) = {start k |k. n \<le> k \<and> start k < hi}"
    proof -
      have "n \<le> k \<longleftrightarrow> k = n \<or> n + 1 \<le> k" for k by linarith
      then show ?thesis using True bs(3) by (simp only: list.set) blast
    qed
    ultimately show ?thesis by blast
  next
    case False
    have "bucket_loop g hi (start n) = Some []" by (subst bucket_loop.simps) (simp add: False)
    moreover have "{start k |k. n \<le> k \<and> start k < hi} = {}"
    proof -
      have "\<not> start k < hi" if "n \<le> k" for k using False that start_le_iff [of n k] by linarith
      then show ?thesis by blast
    qed
    ultimately show ?thesis by simp
  qed
qed

lemma buckets:
  obtains bs where "buckets_of g lo hi = Some bs" "sorted_wrt (<) bs"
    "\<And>b. (b \<in> set bs) = (Truncate b g = b \<and> Truncate lo g \<le> b \<and> b < hi)"
proof -
  obtain bs where bs: "buckets_of g lo hi = Some bs" "sorted_wrt (<) bs"
      "set bs = {start k |k. index lo \<le> k \<and> start k < hi}"
    using bucket_loop_start [of hi "index lo"] by (auto simp: buckets_of_def Truncate_start)
  have "(b \<in> set bs) = (Truncate b g = b \<and> Truncate lo g \<le> b \<and> b < hi)" for b
  proof
    assume "b \<in> set bs"
    then show "Truncate b g = b \<and> Truncate lo g \<le> b \<and> b < hi" unfolding bs(3) Truncate_start by (auto simp: start_le_iff)
  next
    assume b: "Truncate b g = b \<and> Truncate lo g \<le> b \<and> b < hi"
    then have "start (index b) = b" "start (index lo) \<le> start (index b)" by (simp_all add: Truncate_start)
    moreover from this(2) have "index lo \<le> index b" by (simp only: start_le_iff)
    ultimately show "b \<in> set bs" unfolding bs(3) using b by (auto intro!: exI [of _ "index b"])
  qed
  then show ?thesis using that bs by blast
qed

end

section \<open>The known grains\<close>

lemma grain_distinct [simp]:
  "GrainHour \<noteq> GrainMinute" "GrainDay \<noteq> GrainMinute" "GrainMonth \<noteq> GrainMinute"
  "GrainDay \<noteq> GrainHour" "GrainMonth \<noteq> GrainHour" "GrainMonth \<noteq> GrainDay"
  by (simp_all add: grains)

lemma Truncate_day: "Truncate t GrainDay = at_day (day_of t)"
  by (auto simp: Truncate_def civil_day split: prod.splits)

lemma Truncate_month: "Truncate t GrainMonth = at_day (month_start (month_index (day_of t)))"
  by (auto simp: Truncate_def date_day_month civil_correct(2) split: prod.splits)

interpretation minutes: grain_periods GrainMinute "\<lambda>n. n * minute" "\<lambda>t. t div minute"
proof unfold_locales
  have u: "0 < minute" by (simp add: time_units)
  show "n * minute < (n + 1) * minute" for n using u by (simp add: distrib_right)
  show "t div minute * minute \<le> t" "t < (t div minute + 1) * minute" for t by (rule multiple_covers [OF u])+
  show "Truncate t GrainMinute = t div minute * minute" for t by (simp add: Truncate_def)
  show "Next (n * minute) GrainMinute = (n + 1) * minute" for n by (simp add: Next_def distrib_right)
qed

interpretation hours: grain_periods GrainHour "\<lambda>n. n * hour" "\<lambda>t. t div hour"
proof unfold_locales
  have u: "0 < hour" by (simp add: time_units)
  show "n * hour < (n + 1) * hour" for n using u by (simp add: distrib_right)
  show "t div hour * hour \<le> t" "t < (t div hour + 1) * hour" for t by (rule multiple_covers [OF u])+
  show "Truncate t GrainHour = t div hour * hour" for t by (simp add: Truncate_def)
  show "Next (n * hour) GrainHour = (n + 1) * hour" for n by (simp add: Next_def distrib_right)
qed

interpretation days: grain_periods GrainDay at_day day_of
proof unfold_locales
  show "Next (at_day n) GrainDay = at_day (n + 1)" for n
  proof -
    obtain y m dy where c: "civil n = (y, m, dy)" by (cases "civil n")
    have "date_day y (m + 0) (dy + 1) = n + 1" using civil_day [OF c] by (simp add: date_day_month)
    then show ?thesis by (simp add: Next_def AddDate_def c)
  qed
qed (simp_all add: at_day_mono at_day_of Truncate_day)

lemma civil_month_start: "\<exists>y m. civil (month_start n) = (y, m, 0) \<and> n = 12 * y + m"
proof -
  obtain y m dy where c: "civil (month_start n) = (y, m, dy)" by (cases "civil (month_start n)")
  note b = civil_correct [OF c]
  note mono = int_strict_mono [of month_start, OF month_start_step]
  have "\<not> n < 12 * y + m" using mono [of n "12 * y + m"] b(1,3) by linarith
  moreover have "\<not> 12 * y + m + 1 \<le> n"
    using mono [of "12 * y + m + 1" n] b(4) by (cases "12 * y + m + 1 = n") auto
  ultimately have "n = 12 * y + m" by linarith
  then show ?thesis using b(1) c by auto
qed

interpretation months: grain_periods GrainMonth "\<lambda>n. at_day (month_start n)" "\<lambda>t. month_index (day_of t)"
proof unfold_locales
  show "Next (at_day (month_start n)) GrainMonth = at_day (month_start (n + 1))" for n
  proof -
    obtain y m where c: "civil (month_start n) = (y, m, 0)" "n = 12 * y + m" using civil_month_start by blast
    then show ?thesis by (simp add: Next_def AddDate_def date_day_month add.assoc)
  qed
  show "at_day (month_start n) < at_day (month_start (n + 1))" for n
    by (rule at_day_mono [OF month_start_step])
  show "at_day (month_start (month_index (day_of t))) \<le> t" for t
    using month_index_bounds(1) [of "day_of t"] at_day_of(1) [of t]
      at_day_mono [of "month_start (month_index (day_of t))" "day_of t"]
    by (cases "month_start (month_index (day_of t)) = day_of t") auto
  show "t < at_day (month_start (month_index (day_of t) + 1))" for t
    using month_index_bounds(2) [of "day_of t"] at_day_of(2) [of t]
      at_day_mono [of "day_of t + 1" "month_start (month_index (day_of t) + 1)"]
    by (cases "day_of t + 1 = month_start (month_index (day_of t) + 1)") auto
qed (simp add: Truncate_month)

lemma ValidGrain_cases:
  assumes "ValidGrain g"
  obtains "g = GrainMinute" | "g = GrainHour" | "g = GrainDay" | "g = GrainMonth"
  using assms by (auto simp: ValidGrain_def)

text \<open>Every valid grain is one of the four systems of periods.\<close>

lemma grain_start: "ValidGrain g \<Longrightarrow> \<exists>start index. grain_periods g start index"
  using minutes.grain_periods_axioms hours.grain_periods_axioms days.grain_periods_axioms months.grain_periods_axioms
  by (elim ValidGrain_cases) blast+

text \<open>The order of the grains, from fine to coarse: the starts of a coarser one are starts of a finer one.\<close>

definition grain_rank :: "string \<Rightarrow> nat" where
  "grain_rank g = (if g = GrainMinute then 0 else if g = GrainHour then 1 else if g = GrainDay then 2 else 3)"

lemma dvd_days: "minute dvd at_day d" "hour dvd at_day d" "minute dvd n * hour"
  unfolding at_day_def by (rule dvd_mult, simp add: time_units)+

lemma aligned_multiple:
  "minute dvd t \<Longrightarrow> Truncate t GrainMinute = t" "hour dvd t \<Longrightarrow> Truncate t GrainHour = t"
  by (simp_all add: Truncate_def)

lemma aligned_day: "Truncate (at_day d) GrainDay = at_day d"
  by (simp add: Truncate_day)

lemma coarser_aligned:
  assumes "ValidGrain g" "ValidGrain w" "grain_rank g \<le> grain_rank w"
  shows "Truncate (Truncate t w) g = Truncate t w"
proof (cases "g = w")
  case True
  then show ?thesis using grain_start [OF assms(1)] grain_periods.period(3) by blast
next
  case False
  have h: "Truncate t GrainHour = t div hour * hour" by (simp add: Truncate_def)
  show ?thesis
    using assms False
    by (elim ValidGrain_cases) (simp_all add: grain_rank_def h Truncate_day Truncate_month aligned_multiple dvd_days)
qed

lemma coarser_Truncate:
  assumes "ValidGrain g" "ValidGrain w" "grain_rank g \<le> grain_rank w"
  shows "Truncate t w \<le> Truncate t g" "Truncate (Truncate t g) w = Truncate t w"
proof -
  obtain sg ig sw iw where g: "grain_periods g sg ig" and w: "grain_periods w sw iw"
    using grain_start assms(1,2) by blast
  show le: "Truncate t w \<le> Truncate t g"
    using grain_periods.aligned_le [OF g coarser_aligned [OF assms]] grain_periods.period(1) [OF w] by blast
  show "Truncate (Truncate t g) w = Truncate t w"
  proof (rule grain_periods.period(5) [OF w le])
    show "Truncate t g < Next (Truncate t w) w"
      using grain_periods.period(1) [OF g, of t] grain_periods.period(2) [OF w, of t] by linarith
  qed
qed

section \<open>Properties\<close>

text \<open>
  C21. Every known grain partitions the time line, leap years and month lengths included:
  a time lies in the period from its truncation up to the next start, truncating again or
  truncating the next start changes nothing, and two times of one period truncate alike.
\<close>

theorem grain_partition:
  assumes "ValidGrain g"
  shows "Truncate t g \<le> t \<and> t < Next (Truncate t g) g \<and> Truncate (Truncate t g) g = Truncate t g
    \<and> Truncate (Next (Truncate t g) g) g = Next (Truncate t g) g
    \<and> (\<forall>u. Truncate t g \<le> u \<and> u < Next (Truncate t g) g \<longrightarrow> Truncate u g = Truncate t g)"
proof -
  obtain start index where p: "grain_periods g start index" using grain_start [OF assms] by blast
  have "\<forall>u. Truncate t g \<le> u \<and> u < Next (Truncate t g) g \<longrightarrow> Truncate u g = Truncate t g"
    using grain_periods.period(5) [OF p, of t] by blast
  then show ?thesis using grain_periods.period(1-4) [OF p, of t] by (intro conjI)
qed

theorem grain_partition_witness:
  "Truncate 1709164800000000000 GrainMonth \<le> 1709164800000000000
     \<and> 1709164800000000000 < Next (Truncate 1709164800000000000 GrainMonth) GrainMonth"
proof -
  have "ValidGrain GrainMonth" by (simp add: ValidGrain_def)
  from grain_partition [OF this, of 1709164800000000000] show ?thesis by (elim conjE) (intro conjI)
qed



end
