(* ===== verification/Outbox_Relay.thy ===== *)
theory Outbox_Relay
  imports App_Errors
begin

text \<open>
  The transactional outbox: records and statistics (\<^verbatim>\<open>core/types/outbox.go\<close>), the reference SQL
  store of the conformance suite (\<^verbatim>\<open>tests/fixtures/outboxtest/sqlstore.go\<close>), the jitter of
  \<^verbatim>\<open>foundation/resilience/retry\<close> and the relay \<^verbatim>\<open>services/outbox/relay.go\<close>.  The store is an interface
  of the relay: the relay's definitions take its operations as a record, with the contract
  of \<^verbatim>\<open>interfaces.OutboxStore\<close> as a locale that the SQL store satisfies.  The sink, the clock, the
  random numbers and the moments at which the context ends are arguments.
\<close>

section \<open>Records (outbox.go)\<close>

record OutboxRecord =
  CreatedAt :: int
  Attributes :: "string \<rightharpoonup> string"
  Tenant :: string
  Lane :: string
  RecordKey :: string
  RecordPayload :: string
  Attempts :: int
  RecordID :: string

record OutboxStats =
  OldestPending :: "int option"
  Pending :: nat
  Parked :: nat

section \<open>The store interface\<close>

record 's outbox_store =
  st_Claim :: "'s \<Rightarrow> string \<Rightarrow> int \<Rightarrow> 's \<times> (error + OutboxRecord list)"
  st_MarkSent :: "'s \<Rightarrow> string \<Rightarrow> 's \<times> error option"
  st_Retry :: "'s \<Rightarrow> string \<Rightarrow> int \<Rightarrow> string \<Rightarrow> 's \<times> error option"
  st_Park :: "'s \<Rightarrow> string \<Rightarrow> string \<Rightarrow> 's \<times> error option"

section \<open>The reference SQL store (sqlstore.go)\<close>

datatype row_state = RowPending | RowSent | RowParked

record row =
  row_rec :: OutboxRecord
  row_state :: row_state
  last_error :: string
  next_attempt_at :: int

type_synonym table = "row list"

definition row_id :: "row \<Rightarrow> string" where
  "row_id r = RecordID (row_rec r)"

text \<open>An \<^verbatim>\<open>INSERT\<close> with the primary key \<^verbatim>\<open>id\<close>; the other columns take their defaults.\<close>

definition Enqueue :: "int \<Rightarrow> table \<Rightarrow> OutboxRecord \<Rightarrow> table \<times> error option" where
  "Enqueue now tab r =
     (if RecordID r \<in> row_id ` set tab
      then (tab, Some (AppError CodeInternal ''outboxtest: enqueue'' [] (Some (Foreign ''pq: duplicate key'' []))))
      else (tab @ [\<lparr>row_rec = r\<lparr>Attempts := 0\<rparr>, row_state = RowPending, last_error = [], next_attempt_at = now\<rparr>], None))"

definition due :: "int \<Rightarrow> string \<Rightarrow> row \<Rightarrow> bool" where
  "due now lane r = (Lane (row_rec r) = lane \<and> row_state r = RowPending \<and> next_attempt_at r \<le> now)"

text \<open>The subquery of \<^verbatim>\<open>claimSQL\<close>: the ids of the oldest due rows, up to the limit.\<close>

definition claim_ids :: "int \<Rightarrow> table \<Rightarrow> string \<Rightarrow> int \<Rightarrow> string list" where
  "claim_ids now tab lane limit =
     map row_id (take (nat limit) (sort_key (\<lambda>r. CreatedAt (row_rec r))
       (sort_key row_id (filter (due now lane) tab))))"

definition lease_row :: "int \<Rightarrow> int \<Rightarrow> row \<Rightarrow> row" where
  "lease_row now lease r =
     r\<lparr>row_rec := (row_rec r)\<lparr>Attempts := Attempts (row_rec r) + 1\<rparr>, next_attempt_at := now + lease\<rparr>"

text \<open>The statement is atomic; the rows it returns come in table order.\<close>

definition sql_Claim :: "int \<Rightarrow> int \<Rightarrow> table \<Rightarrow> string \<Rightarrow> int \<Rightarrow> table \<times> (error + OutboxRecord list)" where
  "sql_Claim now lease tab lane limit =
     (let ids = set (claim_ids now tab lane limit);
          tab' = map (\<lambda>r. if row_id r \<in> ids then lease_row now lease r else r) tab
      in (tab', Inr (map row_rec (filter (\<lambda>r. row_id r \<in> ids) tab'))))"

definition sql_exec :: "string \<Rightarrow> (row \<Rightarrow> bool) \<Rightarrow> (row \<Rightarrow> row) \<Rightarrow> table \<Rightarrow> table \<times> error option" where
  "sql_exec op P f tab =
     (if list_ex P tab then (map (\<lambda>r. if P r then f r else r) tab, None)
      else (tab, Some (New CodeNotFound (''outboxtest: '' @ op @ '': no such pending row''))))"

definition sql_MarkSent :: "table \<Rightarrow> string \<Rightarrow> table \<times> error option" where
  "sql_MarkSent tab i =
     sql_exec ''mark sent'' (\<lambda>r. row_id r = i) (\<lambda>r. r\<lparr>row_state := RowSent, last_error := []\<rparr>) tab"

definition sql_Retry :: "table \<Rightarrow> string \<Rightarrow> int \<Rightarrow> string \<Rightarrow> table \<times> error option" where
  "sql_Retry tab i next_at lastErr =
     sql_exec ''retry'' (\<lambda>r. row_id r = i \<and> row_state r = RowPending)
       (\<lambda>r. r\<lparr>next_attempt_at := next_at, last_error := lastErr\<rparr>) tab"

definition sql_Park :: "table \<Rightarrow> string \<Rightarrow> string \<Rightarrow> table \<times> error option" where
  "sql_Park tab i lastErr =
     sql_exec ''park'' (\<lambda>r. row_id r = i) (\<lambda>r. r\<lparr>row_state := RowParked, last_error := lastErr\<rparr>) tab"

definition sql_Stats :: "table \<Rightarrow> string \<Rightarrow> OutboxStats" where
  "sql_Stats tab lane =
     (let rows = filter (\<lambda>r. Lane (row_rec r) = lane) tab;
          pend = filter (\<lambda>r. row_state r = RowPending) rows
      in \<lparr>OldestPending = (if pend = [] then None else Some (Min (set (map (\<lambda>r. CreatedAt (row_rec r)) pend)))),
          Pending = length pend, Parked = length (filter (\<lambda>r. row_state r = RowParked) rows)\<rparr>)"

text \<open>The store at database time \<open>now\<close> with a lease.\<close>

definition sql_store :: "int \<Rightarrow> int \<Rightarrow> table outbox_store" where
  "sql_store now lease =
     \<lparr>st_Claim = sql_Claim now lease, st_MarkSent = sql_MarkSent, st_Retry = sql_Retry, st_Park = sql_Park\<rparr>"

section \<open>Jitter (retry/jitter.go)\<close>

text \<open>\<open>Int64\<close> and \<open>Int64N n\<close> are the draws of \<^verbatim>\<open>math/rand/v2\<close>.\<close>

record random =
  Int64 :: int
  Int64N :: "int \<Rightarrow> int"

definition upTo :: "random \<Rightarrow> int \<Rightarrow> int" where
  "upTo R n = (if n = MaxInt64 then Int64 R else Int64N R (int64 (n + 1)))"

definition EqualJitter :: "random \<Rightarrow> int \<Rightarrow> int" where
  "EqualJitter R d = (if d \<le> 0 then d else (let half = d div 2 in int64 (half + upTo R half)))"

definition FullJitter :: "random \<Rightarrow> int \<Rightarrow> int" where
  "FullJitter R d = (if d \<le> 0 then d else upTo R d)"

text \<open>What \<^verbatim>\<open>math/rand/v2\<close> documents: uniform draws from \<open>[0, n)\<close>, and from all non-negative integers.\<close>

definition random_ok :: "random \<Rightarrow> bool" where
  "random_ok R = (0 \<le> Int64 R \<and> Int64 R \<le> MaxInt64 \<and> (\<forall>n>0. 0 \<le> Int64N R n \<and> Int64N R n < n))"

section \<open>The relay (relay.go)\<close>

record RelayConfig =
  cfg_Lane :: string
  BatchSize :: int
  SendBatch :: int
  Concurrency :: int
  MaxAttempts :: int
  BaseBackoff :: int
  MaxBackoff :: int
  ParkOnPermanent :: bool

definition DefaultRelayConfig :: "string \<Rightarrow> RelayConfig" where
  "DefaultRelayConfig lane =
     \<lparr>cfg_Lane = lane, BatchSize = 100, SendBatch = 10, Concurrency = 4, MaxAttempts = 10,
      BaseBackoff = 1000000000, MaxBackoff = 300000000000, ParkOnPermanent = False\<rparr>"

definition relay_Validate :: "RelayConfig \<Rightarrow> error option" where
  "relay_Validate c =
     (if cfg_Lane c = [] then Some (New CodeInvalidInput ''outbox relay: lane is required'')
      else if BatchSize c \<le> 0 \<or> SendBatch c \<le> 0 \<or> Concurrency c \<le> 0 \<or> MaxAttempts c \<le> 0
      then Some (New CodeInvalidInput
        ''outbox relay: batch_size, send_batch, concurrency and max_attempts must be positive'')
      else if BaseBackoff c \<le> 0 \<or> MaxBackoff c < BaseBackoff c
      then Some (New CodeInvalidInput
        ''outbox relay: base_backoff must be positive and max_backoff at least base_backoff'')
      else None)"

text \<open>
  The loader's section: absent, or what \<^verbatim>\<open>UnmarshalKey\<close> makes of the defaults.
\<close>

definition LoadRelayConfig ::
  "(RelayConfig \<Rightarrow> error + RelayConfig) option \<Rightarrow> string \<Rightarrow> string \<Rightarrow> error + RelayConfig" where
  "LoadRelayConfig section_of key lane =
     bind_result
       (case section_of of
          None \<Rightarrow> Inr (DefaultRelayConfig lane)
        | Some unmarshal \<Rightarrow>
            (case unmarshal (DefaultRelayConfig lane) of
               Inl e \<Rightarrow> Inl (AppError CodeInvalidInput (''load outbox relay config '' @ key) [] (Some e))
             | Inr cfg \<Rightarrow> Inr cfg))
       (\<lambda>cfg. case relay_Validate cfg of Some e \<Rightarrow> Inl e | None \<Rightarrow> Inr cfg)"

text \<open>Go's integer division truncates towards zero.\<close>

definition go_half :: "int \<Rightarrow> int" where
  "go_half n = (if n < 0 then - (- n div 2) else n div 2)"

fun backoff_loop :: "RelayConfig \<Rightarrow> int \<Rightarrow> nat \<Rightarrow> int" where
  "backoff_loop c d 0 = min d (MaxBackoff c)"
| "backoff_loop c d (Suc n) =
     (if go_half (MaxBackoff c) \<le> d then MaxBackoff c else backoff_loop c (int64 (d * 2)) n)"

definition relay_backoff :: "RelayConfig \<Rightarrow> int \<Rightarrow> int" where
  "relay_backoff c attempts = backoff_loop c (BaseBackoff c) (nat attempts)"

text \<open>
  What one run of the relay is given besides the store: the sink, the clock, the jitter,
  and for each record whether the context had ended when its result was looked at.
\<close>

record relay_env =
  Send :: "OutboxRecord list \<Rightarrow> error option list"
  clock :: int
  jitter :: "int \<Rightarrow> int"
  ctx_ended :: "string \<Rightarrow> bool"

definition interrupted :: "bool \<Rightarrow> error option \<Rightarrow> bool" where
  "interrupted ended sendErr =
     (sendErr \<noteq> None \<and> ended \<and> (StdIs sendErr ContextCanceled \<or> StdIs sendErr DeadlineExceeded))"

definition finalize ::
  "'s outbox_store \<Rightarrow> RelayConfig \<Rightarrow> relay_env \<Rightarrow> 's \<Rightarrow> OutboxRecord \<Rightarrow> error option \<Rightarrow> 's \<times> error option" where
  "finalize st c E s r sendErr =
     (let (s', err) =
        (case sendErr of
           None \<Rightarrow> st_MarkSent st s (RecordID r)
         | Some e \<Rightarrow>
             if MaxAttempts c \<le> Attempts r \<or> ParkOnPermanent c \<and> IsPermanent (Some e)
             then st_Park st s (RecordID r) (error_text e)
             else st_Retry st s (RecordID r) (clock E + jitter E (relay_backoff c (Attempts r))) (error_text e))
      in (s', Wrap err (CodeOr err CodeUnavailable) (''outbox relay: finalize '' @ RecordID r)))"

definition mismatch :: "nat \<Rightarrow> nat \<Rightarrow> error" where
  "mismatch results records =
     New CodeInternal (''outbox relay: sink returned '' @ Itoa (int results) @ '' results for '' @
       Itoa (int records) @ '' records'')"

definition send_results :: "relay_env \<Rightarrow> OutboxRecord list \<Rightarrow> error option list" where
  "send_results E chunk =
     (let results = Send E chunk in
      if length results \<noteq> length chunk
      then replicate (length chunk) (Some (mismatch (length results) (length chunk)))
      else results)"

fun finalize_all ::
  "'s outbox_store \<Rightarrow> RelayConfig \<Rightarrow> relay_env \<Rightarrow> 's \<Rightarrow> (OutboxRecord \<times> error option) list \<Rightarrow> 's \<times> error list" where
  "finalize_all st c E s [] = (s, [])"
| "finalize_all st c E s ((r, res) # rs) =
     (if interrupted (ctx_ended E (RecordID r)) res then finalize_all st c E s rs
      else let (s', err) = finalize st c E s r res; (s'', errs) = finalize_all st c E s' rs
           in (s'', (case err of Some e \<Rightarrow> e # errs | None \<Rightarrow> errs)))"

definition deliver ::
  "'s outbox_store \<Rightarrow> RelayConfig \<Rightarrow> relay_env \<Rightarrow> 's \<Rightarrow> OutboxRecord list \<Rightarrow> 's \<times> error list" where
  "deliver st c E s chunk = finalize_all st c E s (zip chunk (send_results E chunk))"

fun chunks :: "nat \<Rightarrow> 'a list \<Rightarrow> 'a list list" where
  "chunks n xs = (if xs = [] \<or> n = 0 then [] else take n xs # chunks n (drop n xs))"

declare chunks.simps [simp del]

text \<open>
  The workers run concurrently and touch disjoint rows; here they run one after the other,
  in the order \<open>order\<close> puts the chunks in.  The first error kept is the first to occur.
\<close>

fun deliver_all ::
  "'s outbox_store \<Rightarrow> RelayConfig \<Rightarrow> relay_env \<Rightarrow> 's \<Rightarrow> OutboxRecord list list \<Rightarrow> 's \<times> error list" where
  "deliver_all st c E s [] = (s, [])"
| "deliver_all st c E s (chunk # cs) =
     (let (s', errs) = deliver st c E s chunk; (s'', errs') = deliver_all st c E s' cs in (s'', errs @ errs'))"

definition runOnce ::
  "'s outbox_store \<Rightarrow> RelayConfig \<Rightarrow> relay_env \<Rightarrow> (OutboxRecord list list \<Rightarrow> OutboxRecord list list) \<Rightarrow> 's \<Rightarrow>
   's \<times> error option" where
  "runOnce st c E order s =
     (case st_Claim st s (cfg_Lane c) (BatchSize c) of
        (s', Inl e) \<Rightarrow> (s', Wrap (Some e) (CodeOr (Some e) CodeUnavailable) ''outbox relay: claim'')
      | (s', Inr recs) \<Rightarrow>
          (case deliver_all st c E s' (order (chunks (nat (SendBatch c)) recs)) of
             (s'', errs) \<Rightarrow> (s'', case errs of [] \<Rightarrow> None | e # _ \<Rightarrow> Some e)))"

section \<open>Chunks\<close>

lemma concat_chunks: "0 < n \<Longrightarrow> concat (chunks n xs) = xs"
  by (induction n xs rule: chunks.induct) (subst chunks.simps, simp)

lemma length_chunks: "chunk \<in> set (chunks n xs) \<Longrightarrow> length chunk \<le> n"
proof (induction n xs rule: chunks.induct)
  case (1 n xs)
  from "1.prems" "1.IH" show ?case by (subst (asm) chunks.simps) (auto split: if_splits)
qed

section \<open>What a run does to a row\<close>

text \<open>The row after its result has been finalized.\<close>

definition settle :: "RelayConfig \<Rightarrow> relay_env \<Rightarrow> row \<Rightarrow> error option \<Rightarrow> row" where
  "settle c E r res =
     (if interrupted (ctx_ended E (row_id r)) res then r
      else case res of
        None \<Rightarrow> r\<lparr>row_state := RowSent, last_error := []\<rparr>
      | Some e \<Rightarrow>
          if MaxAttempts c \<le> Attempts (row_rec r) \<or> ParkOnPermanent c \<and> IsPermanent (Some e)
          then r\<lparr>row_state := RowParked, last_error := error_text e\<rparr>
          else r\<lparr>next_attempt_at := clock E + jitter E (relay_backoff c (Attempts (row_rec r))),
                 last_error := error_text e\<rparr>)"

definition sent_pairs :: "relay_env \<Rightarrow> OutboxRecord list list \<Rightarrow> (OutboxRecord \<times> error option) list" where
  "sent_pairs E cs = concat (map (\<lambda>chunk. zip chunk (send_results E chunk)) cs)"

text \<open>
  The contract the relay relies on.  \<open>rows s i\<close> is the row with id \<open>i\<close>; a claim leases pending
  rows (\<open>lease\<close> counts the attempt and hides the row), no more than asked for, each once; the
  three finalizing operations change the one row they name.
\<close>

locale outbox_contract =
  fixes st :: "'s outbox_store" and inv :: "'s \<Rightarrow> bool" and rows :: "'s \<Rightarrow> string \<Rightarrow> row option"
    and lease :: "row \<Rightarrow> row"
  assumes rows_id: "inv s \<Longrightarrow> rows s i = Some r \<Longrightarrow> row_id r = i"
    and claim: "inv s \<Longrightarrow> 0 < n \<Longrightarrow> \<exists>s' recs. st_Claim st s lane n = (s', Inr recs) \<and> inv s'
      \<and> int (length recs) \<le> n \<and> distinct (map RecordID recs)
      \<and> (\<forall>rec \<in> set recs. \<exists>r. rows s (RecordID rec) = Some r \<and> row_state r = RowPending \<and> Lane (row_rec r) = lane
            \<and> rows s' (RecordID rec) = Some (lease r) \<and> row_rec (lease r) = rec \<and> row_state (lease r) = RowPending)
      \<and> (\<forall>i. i \<notin> RecordID ` set recs \<longrightarrow> rows s' i = rows s i)"
    and mark_sent: "inv s \<Longrightarrow> rows s i = Some r \<Longrightarrow>
      \<exists>s'. st_MarkSent st s i = (s', None) \<and> inv s' \<and> rows s' = (rows s)(i \<mapsto> r\<lparr>row_state := RowSent, last_error := []\<rparr>)"
    and retry: "inv s \<Longrightarrow> rows s i = Some r \<Longrightarrow> row_state r = RowPending \<Longrightarrow>
      \<exists>s'. st_Retry st s i t e = (s', None) \<and> inv s' \<and> rows s' = (rows s)(i \<mapsto> r\<lparr>next_attempt_at := t, last_error := e\<rparr>)"
    and park: "inv s \<Longrightarrow> rows s i = Some r \<Longrightarrow>
      \<exists>s'. st_Park st s i e = (s', None) \<and> inv s' \<and> rows s' = (rows s)(i \<mapsto> r\<lparr>row_state := RowParked, last_error := e\<rparr>)"
begin

lemma finalize_settles:
  assumes "inv s" "rows s (RecordID rec) = Some r" "row_rec r = rec" "row_state r = RowPending"
    "\<not> interrupted (ctx_ended E (RecordID rec)) res"
  shows "\<exists>s'. finalize st c E s rec res = (s', None) \<and> inv s' \<and> rows s' = (rows s)(RecordID rec \<mapsto> settle c E r res)"
proof -
  have i: "row_id r = RecordID rec" using assms(3) by (simp add: row_id_def)
  show ?thesis
  proof (cases res)
    case None
    then show ?thesis using mark_sent [OF assms(1,2)] assms(3,5) i by (auto simp: finalize_def settle_def Wrap_def)
  next
    case (Some e)
    then show ?thesis using park [OF assms(1,2), of "error_text e"]
        retry [OF assms(1,2,4), of "clock E + jitter E (relay_backoff c (Attempts rec))" "error_text e"] assms(3,5) i
      by (cases "MaxAttempts c \<le> Attempts rec \<or> ParkOnPermanent c \<and> IsPermanent (Some e)")
        (auto simp: finalize_def settle_def Wrap_def)
  qed
qed

lemma finalize_all_settles:
  assumes "inv s" "distinct (map (RecordID \<circ> fst) ps)"
    "\<forall>x \<in> set ps. \<exists>r. rows s (RecordID (fst x)) = Some r \<and> row_rec r = fst x \<and> row_state r = RowPending"
  shows "\<exists>s'. finalize_all st c E s ps = (s', []) \<and> inv s' \<and>
    (\<forall>rec res r. (rec, res) \<in> set ps \<longrightarrow> rows s (RecordID rec) = Some r \<longrightarrow>
       rows s' (RecordID rec) = Some (settle c E r res)) \<and>
    (\<forall>i. i \<notin> RecordID ` fst ` set ps \<longrightarrow> rows s' i = rows s i)"
  using assms
proof (induction ps arbitrary: s)
  case (Cons p ps)
  obtain rec res where p: "p = (rec, res)" by (cases p)
  obtain r where r: "rows s (RecordID rec) = Some r" "row_rec r = rec" "row_state r = RowPending"
    using Cons.prems(3) p by auto
  have new: "RecordID rec \<notin> RecordID ` fst ` set ps" using Cons.prems(2) p by (auto simp: comp_def)
  obtain s1 where s1: "inv s1" "rows s1 = (rows s)(RecordID rec \<mapsto> settle c E r res)"
    "finalize_all st c E s (p # ps) = finalize_all st c E s1 ps"
  proof (cases "interrupted (ctx_ended E (RecordID rec)) res")
    case True
    have "settle c E r res = r" using True r(2) by (simp add: settle_def row_id_def)
    then have "rows s = (rows s)(RecordID rec \<mapsto> settle c E r res)" using r(1) by auto
    then show ?thesis using that [of s] Cons.prems(1) True p by simp
  next
    case False
    from finalize_settles [OF Cons.prems(1) r False, of c] obtain s1 where
      s1: "finalize st c E s rec res = (s1, None)" "inv s1" "rows s1 = (rows s)(RecordID rec \<mapsto> settle c E r res)"
      by blast
    then show ?thesis using that [of s1] False p by (simp add: case_prod_unfold)
  qed
  have pend: "\<forall>x \<in> set ps. \<exists>r. rows s1 (RecordID (fst x)) = Some r \<and> row_rec r = fst x \<and> row_state r = RowPending"
  proof
    fix x assume x: "x \<in> set ps"
    then have "RecordID (fst x) \<noteq> RecordID rec" using new by (metis image_eqI)
    then show "\<exists>r. rows s1 (RecordID (fst x)) = Some r \<and> row_rec r = fst x \<and> row_state r = RowPending"
      using Cons.prems(3) x s1(2) by simp
  qed
  have "distinct (map (RecordID \<circ> fst) ps)" using Cons.prems(2) by (simp add: comp_def)
  from Cons.IH [OF s1(1) this pend] obtain s' where
    s': "finalize_all st c E s1 ps = (s', [])" "inv s'"
    "\<And>rec' res' r'. (rec', res') \<in> set ps \<Longrightarrow> rows s1 (RecordID rec') = Some r' \<Longrightarrow>
       rows s' (RecordID rec') = Some (settle c E r' res')"
    "\<And>i. i \<notin> RecordID ` fst ` set ps \<Longrightarrow> rows s' i = rows s1 i" by blast
  have "rows s' (RecordID rec') = Some (settle c E r' res')"
    if "(rec', res') \<in> set (p # ps)" "rows s (RecordID rec') = Some r'" for rec' res' r'
  proof (cases "RecordID rec' = RecordID rec")
    case True
    have "(rec', res') \<notin> set ps" using True new by (metis fst_conv image_eqI)
    then have "(rec', res') = (rec, res)" using that(1) p by simp
    then show ?thesis using s'(4) [OF new] s1(2) r(1) that(2) by simp
  next
    case False
    then show ?thesis using that s'(3) [of rec' res' r'] s1(2) p by auto
  qed
  moreover have "rows s' i = rows s i" if "i \<notin> RecordID ` fst ` set (p # ps)" for i
    using that s'(4) [of i] s1(2) p by auto
  ultimately show ?case using s' s1(3) by auto
qed simp

lemma finalize_all_append:
  "finalize_all st c E s (ps @ qs) =
     (let (s', errs) = finalize_all st c E s ps; (s'', errs') = finalize_all st c E s' qs in (s'', errs @ errs'))"
  by (induction ps arbitrary: s) (auto simp: case_prod_unfold Let_def split: option.splits)

lemma deliver_all_pairs: "deliver_all st c E s cs = finalize_all st c E s (sent_pairs E cs)"
  by (induction cs arbitrary: s) (simp_all add: sent_pairs_def deliver_def finalize_all_append case_prod_unfold Let_def)

lemma sent_pairs_fst: "map fst (sent_pairs E cs) = concat cs"
  by (induction cs) (simp_all add: sent_pairs_def send_results_def Let_def)

text \<open>One run: every claimed row is settled by its own result, no other row changes, no error is returned.\<close>

lemma runOnce_settles:
  assumes "inv s" "0 < BatchSize c" "0 < SendBatch c" "\<And>cs. mset (order cs) = mset cs"
  obtains s' recs s1 ps where
    "st_Claim st s (cfg_Lane c) (BatchSize c) = (s1, Inr recs)" "runOnce st c E order s = (s', None)" "inv s'"
    "int (length recs) \<le> BatchSize c" "distinct (map RecordID recs)"
    "ps = sent_pairs E (chunks (nat (SendBatch c)) recs)" "set (map fst ps) = set recs"
    "\<And>rec. rec \<in> set recs \<Longrightarrow> \<exists>r. rows s (RecordID rec) = Some r \<and> row_state r = RowPending \<and>
       Lane (row_rec r) = cfg_Lane c \<and> row_rec (lease r) = rec"
    "\<And>rec res r. (rec, res) \<in> set ps \<Longrightarrow> rows s (RecordID rec) = Some r \<Longrightarrow>
       rows s' (RecordID rec) = Some (settle c E (lease r) res)"
    "\<And>i. i \<notin> RecordID ` set recs \<Longrightarrow> rows s' i = rows s i"
proof -
  from claim [OF assms(1,2), of "cfg_Lane c"] obtain s1 recs where
    c: "st_Claim st s (cfg_Lane c) (BatchSize c) = (s1, Inr recs)" "inv s1" "int (length recs) \<le> BatchSize c"
    "distinct (map RecordID recs)"
    "\<And>rec. rec \<in> set recs \<Longrightarrow> \<exists>r. rows s (RecordID rec) = Some r \<and> row_state r = RowPending \<and>
       Lane (row_rec r) = cfg_Lane c \<and>
       rows s1 (RecordID rec) = Some (lease r) \<and> row_rec (lease r) = rec \<and> row_state (lease r) = RowPending"
    "\<And>i. i \<notin> RecordID ` set recs \<Longrightarrow> rows s1 i = rows s i" by blast
  let ?cs = "chunks (nat (SendBatch c)) recs"
  let ?ps = "sent_pairs E ?cs" and ?qs = "sent_pairs E (order ?cs)"
  have cs: "concat ?cs = recs" by (rule concat_chunks) (use assms(3) in simp)
  have m: "mset ?qs = mset ?ps" unfolding sent_pairs_def by (rule mset_concat_perm) (simp add: assms(4))
  then have set_qs: "set ?qs = set ?ps" by (metis set_mset_mset)
  have "mset (map (RecordID \<circ> fst) ?qs) = mset (map RecordID recs)"
    using m cs sent_pairs_fst [of E ?cs] by (metis map_map mset_map)
  then have d: "distinct (map (RecordID \<circ> fst) ?qs)" using c(4) by (metis mset_eq_imp_distinct_iff)
  have fsts: "set (map fst ?ps) = set recs" using sent_pairs_fst [of E ?cs] cs by simp
  have pend: "\<forall>x \<in> set ?qs. \<exists>r. rows s1 (RecordID (fst x)) = Some r \<and> row_rec r = fst x \<and> row_state r = RowPending"
  proof
    fix x assume "x \<in> set ?qs"
    then have "fst x \<in> set recs" using fsts set_qs by auto
    then show "\<exists>r. rows s1 (RecordID (fst x)) = Some r \<and> row_rec r = fst x \<and> row_state r = RowPending"
      using c(5) by blast
  qed
  from finalize_all_settles [OF c(2) d pend, of c] obtain s' where
    s': "finalize_all st c E s1 ?qs = (s', [])" "inv s'"
    "\<And>rec res r. (rec, res) \<in> set ?qs \<Longrightarrow> rows s1 (RecordID rec) = Some r \<Longrightarrow>
       rows s' (RecordID rec) = Some (settle c E r res)"
    "\<And>i. i \<notin> RecordID ` fst ` set ?qs \<Longrightarrow> rows s' i = rows s1 i" by blast
  have run: "runOnce st c E order s = (s', None)" using c(1) s'(1) by (simp add: runOnce_def deliver_all_pairs)
  have fst_qs: "fst ` set ?qs = set recs" using fsts set_qs by simp
  have settled: "rows s' (RecordID rec) = Some (settle c E (lease r) res)"
    if "(rec, res) \<in> set ?ps" "rows s (RecordID rec) = Some r" for rec res r
  proof -
    have "rec \<in> set recs" using that(1) fst_qs set_qs by force
    then show ?thesis using c(5) [of rec] that s'(3) [of rec res "lease r"] set_qs by auto
  qed
  have other: "rows s' i = rows s i" if "i \<notin> RecordID ` set recs" for i
    using s'(4) [of i] c(6) [of i] fst_qs that by simp
  show ?thesis
    by (rule that [OF c(1) run s'(2) c(3,4) refl fsts _ settled other]) (use c(5) in blast)
qed

end

section \<open>The SQL store keeps the contract\<close>

definition sql_inv :: "table \<Rightarrow> bool" where
  "sql_inv tab = distinct (map row_id tab)"

definition sql_rows :: "table \<Rightarrow> string \<Rightarrow> row option" where
  "sql_rows tab i = find (\<lambda>r. row_id r = i) tab"

lemma sql_rows_iff: "sql_inv tab \<Longrightarrow> (sql_rows tab i = Some r) = (r \<in> set tab \<and> row_id r = i)"
  by (induction tab) (auto simp: sql_inv_def sql_rows_def)

lemma sql_rows_map: "(\<And>r. row_id (f r) = row_id r) \<Longrightarrow> sql_rows (map f tab) i = map_option f (sql_rows tab i)"
  by (induction tab) (auto simp: sql_rows_def)

lemma sql_inv_map: "(\<And>r. row_id (f r) = row_id r) \<Longrightarrow> sql_inv (map f tab) = sql_inv tab"
  by (simp add: sql_inv_def comp_def)

lemma row_id_upd [simp]:
  "row_id (r\<lparr>row_state := x\<rparr>) = row_id r" "row_id (r\<lparr>last_error := y\<rparr>) = row_id r"
  "row_id (r\<lparr>next_attempt_at := z\<rparr>) = row_id r" "row_id (lease_row now l r) = row_id r"
  by (simp_all add: row_id_def lease_row_def)

lemma sql_exec_one:
  assumes "sql_inv tab" "sql_rows tab i = Some r" "P r" "\<And>x. P x \<Longrightarrow> row_id x = i" "\<And>x. row_id (f x) = row_id x"
  shows "\<exists>tab'. sql_exec op P f tab = (tab', None) \<and> sql_inv tab' \<and> sql_rows tab' = (sql_rows tab)(i \<mapsto> f r)"
proof -
  let ?g = "\<lambda>x. if P x then f x else x"
  have r: "r \<in> set tab" "row_id r = i" using assms(1,2) by (simp_all add: sql_rows_iff)
  then have "list_ex P tab" using assms(3) by (auto simp: list_ex_iff)
  moreover have id: "row_id (?g x) = row_id x" for x using assms(5) by simp
  then have "sql_inv (map ?g tab)" using assms(1) by (simp only: sql_inv_map)
  moreover have "sql_rows (map ?g tab) = (sql_rows tab)(i \<mapsto> f r)"
  proof
    fix j
    have "sql_rows (map ?g tab) j = map_option ?g (sql_rows tab j)" by (rule sql_rows_map [OF id])
    also have "\<dots> = ((sql_rows tab)(i \<mapsto> f r)) j"
    proof (cases "j = i")
      case True
      then show ?thesis using assms(2,3) by simp
    next
      case False
      have "\<not> P a" if "sql_rows tab j = Some a" for a
        using that False assms(4) [of a] sql_rows_iff [OF assms(1), of j a] by auto
      then show ?thesis using False by (cases "sql_rows tab j") auto
    qed
    finally show "sql_rows (map ?g tab) j = ((sql_rows tab)(i \<mapsto> f r)) j" .
  qed
  ultimately show ?thesis by (simp add: sql_exec_def)
qed

lemma claim_ids_due:
  "i \<in> set (claim_ids now tab lane n) \<Longrightarrow> \<exists>r \<in> set tab. row_id r = i \<and> due now lane r"
  unfolding claim_ids_def by (auto dest!: in_set_takeD)

lemma length_claim_ids: "length (claim_ids now tab lane n) \<le> nat n"
  by (simp add: claim_ids_def)

text \<open>The claimed rows and the records they are returned as.\<close>

definition claimed_ids :: "int \<Rightarrow> table \<Rightarrow> string \<Rightarrow> int \<Rightarrow> string set" where
  "claimed_ids now tab lane n = set (claim_ids now tab lane n)"

definition claim_row :: "int \<Rightarrow> int \<Rightarrow> string set \<Rightarrow> row \<Rightarrow> row" where
  "claim_row now l ids r = (if row_id r \<in> ids then lease_row now l r else r)"

lemma claim_row_id [simp]: "row_id (claim_row now l ids r) = row_id r"
  by (simp add: claim_row_def)

lemma sql_Claim_eq:
  "sql_Claim now l tab lane n =
     (let ids = claimed_ids now tab lane n; tab' = map (claim_row now l ids) tab
      in (tab', Inr (map row_rec (filter (\<lambda>r. row_id r \<in> ids) tab'))))"
  by (simp add: sql_Claim_def claimed_ids_def claim_row_def [abs_def] Let_def)

lemma claimed_due:
  assumes "sql_inv tab" "r \<in> set tab" "row_id r \<in> claimed_ids now tab lane n" shows "due now lane r"
proof -
  obtain r' where "r' \<in> set tab" "row_id r' = row_id r" "due now lane r'"
    using claim_ids_due [of "row_id r" now tab lane n] assms(3) by (auto simp: claimed_ids_def)
  moreover have "inj_on row_id (set tab)" using assms(1) by (simp add: sql_inv_def distinct_map)
  ultimately show ?thesis using assms(2) by (auto dest: inj_onD)
qed

lemma claimed_length:
  assumes "sql_inv tab" "0 < n"
  shows "int (length (filter (\<lambda>r. row_id r \<in> claimed_ids now tab lane n) (map (claim_row now l ids) tab))) \<le> n"
proof -
  let ?ids = "claimed_ids now tab lane n" and ?rs = "filter (\<lambda>r. row_id r \<in> claimed_ids now tab lane n) (map (claim_row now l ids) tab)"
  have "distinct (map row_id (map (claim_row now l ids) tab))" using assms(1) by (simp add: sql_inv_def comp_def)
  then have "distinct (map row_id ?rs)" by (rule distinct_map_filter)
  then have "length ?rs = card (row_id ` set ?rs)" using distinct_card by fastforce
  also have "\<dots> \<le> card ?ids" by (rule card_mono) (auto simp: claimed_ids_def)
  also have "\<dots> \<le> nat n"
    using card_length [of "claim_ids now tab lane n"] length_claim_ids [of now tab lane n] unfolding claimed_ids_def by linarith
  finally show ?thesis using assms(2) by simp
qed

lemma sql_claim:
  assumes "sql_inv tab" "0 < n"
  shows "\<exists>tab' recs. sql_Claim now l tab lane n = (tab', Inr recs) \<and> sql_inv tab'
    \<and> int (length recs) \<le> n \<and> distinct (map RecordID recs)
    \<and> (\<forall>rec \<in> set recs. \<exists>r. sql_rows tab (RecordID rec) = Some r \<and> row_state r = RowPending \<and> Lane (row_rec r) = lane
          \<and> sql_rows tab' (RecordID rec) = Some (lease_row now l r) \<and> row_rec (lease_row now l r) = rec
          \<and> row_state (lease_row now l r) = RowPending)
    \<and> (\<forall>i. i \<notin> RecordID ` set recs \<longrightarrow> sql_rows tab' i = sql_rows tab i)"
proof -
  define ids where "ids = claimed_ids now tab lane n"
  define tab' where "tab' = map (claim_row now l ids) tab"
  define rs where "rs = filter (\<lambda>r. row_id r \<in> ids) tab'"
  have inv: "sql_inv tab'" unfolding tab'_def using assms(1) by (simp add: sql_inv_map)
  have rows: "sql_rows tab' i = map_option (claim_row now l ids) (sql_rows tab i)" for i
    unfolding tab'_def by (rule sql_rows_map) simp
  have len: "int (length (map row_rec rs)) \<le> n"
    using claimed_length [OF assms, of now lane l ids] by (simp add: rs_def tab'_def ids_def)
  have rec_ids: "map RecordID (map row_rec rs) = map row_id rs" by (simp add: row_id_def comp_def)
  have "distinct (map row_id rs)" using inv unfolding sql_inv_def rs_def by (rule distinct_map_filter)
  then have dist: "distinct (map RecordID (map row_rec rs))" by (simp only: rec_ids)
  have claimed: "\<forall>rec \<in> set (map row_rec rs). \<exists>r. sql_rows tab (RecordID rec) = Some r \<and> row_state r = RowPending
      \<and> Lane (row_rec r) = lane \<and> sql_rows tab' (RecordID rec) = Some (lease_row now l r)
      \<and> row_rec (lease_row now l r) = rec \<and> row_state (lease_row now l r) = RowPending"
  proof
    fix rec assume "rec \<in> set (map row_rec rs)"
    then obtain r where r: "r \<in> set tab" "row_id r \<in> ids" "rec = row_rec (claim_row now l ids r)"
      unfolding rs_def tab'_def by auto
    then have rid: "RecordID rec = row_id r" by (simp add: claim_row_def lease_row_def row_id_def)
    have look: "sql_rows tab (row_id r) = Some r" using r(1) assms(1) by (simp add: sql_rows_iff)
    have "due now lane r" using claimed_due [OF assms(1) r(1)] r(2) by (simp add: ids_def)
    then show "\<exists>r. sql_rows tab (RecordID rec) = Some r \<and> row_state r = RowPending \<and> Lane (row_rec r) = lane
        \<and> sql_rows tab' (RecordID rec) = Some (lease_row now l r) \<and> row_rec (lease_row now l r) = rec
        \<and> row_state (lease_row now l r) = RowPending"
      using r(2,3) look rid rows [of "row_id r"] by (simp add: claim_row_def due_def) (simp add: lease_row_def)
  qed
  have other: "\<forall>i. i \<notin> RecordID ` set (map row_rec rs) \<longrightarrow> sql_rows tab' i = sql_rows tab i"
  proof (intro allI impI)
    fix i assume i: "i \<notin> RecordID ` set (map row_rec rs)"
    have "RecordID ` set (map row_rec rs) = row_id ` set rs" using rec_ids by (metis list.set_map)
    moreover have "set rs = claim_row now l ids ` {r \<in> set tab. row_id r \<in> ids}" by (auto simp: rs_def tab'_def)
    then have "row_id ` set rs = row_id ` {r \<in> set tab. row_id r \<in> ids}" by (simp add: image_image)
    ultimately have "i \<notin> row_id ` {r \<in> set tab. row_id r \<in> ids}" using i by simp
    then have "claim_row now l ids r = r" if "sql_rows tab i = Some r" for r
      using that assms(1) by (auto simp: sql_rows_iff claim_row_def)
    then show "sql_rows tab' i = sql_rows tab i" by (cases "sql_rows tab i") (simp_all add: rows)
  qed
  have "sql_Claim now l tab lane n = (tab', Inr (map row_rec rs))"
    by (simp add: sql_Claim_eq Let_def ids_def tab'_def rs_def)
  then show ?thesis using inv len dist claimed other by blast
qed

interpretation sql: outbox_contract "sql_store now l" sql_inv sql_rows "lease_row now l" for now l
proof unfold_locales
  show "\<exists>s' recs. st_Claim (sql_store now l) s lane n = (s', Inr recs) \<and> sql_inv s'
      \<and> int (length recs) \<le> n \<and> distinct (map RecordID recs)
      \<and> (\<forall>rec \<in> set recs. \<exists>r. sql_rows s (RecordID rec) = Some r \<and> row_state r = RowPending \<and> Lane (row_rec r) = lane
            \<and> sql_rows s' (RecordID rec) = Some (lease_row now l r) \<and> row_rec (lease_row now l r) = rec
            \<and> row_state (lease_row now l r) = RowPending)
      \<and> (\<forall>i. i \<notin> RecordID ` set recs \<longrightarrow> sql_rows s' i = sql_rows s i)"
    if "sql_inv s" "0 < n" for s n lane
    using sql_claim [OF that] by (simp only: sql_store_def outbox_store.simps)
  show "\<exists>s'. st_MarkSent (sql_store now l) s i = (s', None) \<and> sql_inv s' \<and>
      sql_rows s' = (sql_rows s)(i \<mapsto> r\<lparr>row_state := RowSent, last_error := []\<rparr>)"
    if "sql_inv s" "sql_rows s i = Some r" for s i r
    unfolding sql_store_def sql_MarkSent_def outbox_store.simps
    by (rule sql_exec_one [OF that]) (use that sql_rows_iff in auto)
  show "\<exists>s'. st_Retry (sql_store now l) s i t e = (s', None) \<and> sql_inv s' \<and>
      sql_rows s' = (sql_rows s)(i \<mapsto> r\<lparr>next_attempt_at := t, last_error := e\<rparr>)"
    if "sql_inv s" "sql_rows s i = Some r" "row_state r = RowPending" for s i r t e
    unfolding sql_store_def sql_Retry_def outbox_store.simps
    by (rule sql_exec_one [OF that(1,2)]) (use that sql_rows_iff in auto)
  show "\<exists>s'. st_Park (sql_store now l) s i e = (s', None) \<and> sql_inv s' \<and>
      sql_rows s' = (sql_rows s)(i \<mapsto> r\<lparr>row_state := RowParked, last_error := e\<rparr>)"
    if "sql_inv s" "sql_rows s i = Some r" for s i r e
    unfolding sql_store_def sql_Park_def outbox_store.simps
    by (rule sql_exec_one [OF that]) (use that sql_rows_iff in auto)
qed (simp add: sql_rows_iff)

section \<open>Attempts left\<close>

text \<open>The attempts a pending row of the relay's lane has left, and those of a whole table.\<close>

definition attempts_left :: "RelayConfig \<Rightarrow> row option \<Rightarrow> nat" where
  "attempts_left c ro =
     (case ro of
        None \<Rightarrow> 0
      | Some r \<Rightarrow> if row_state r = RowPending \<and> Lane (row_rec r) = cfg_Lane c then nat (MaxAttempts c - Attempts (row_rec r)) else 0)"

definition remaining :: "RelayConfig \<Rightarrow> table \<Rightarrow> nat" where
  "remaining c tab = (\<Sum>i \<in> row_id ` set tab. attempts_left c (sql_rows tab i))"

definition attempts_ok :: "RelayConfig \<Rightarrow> table \<Rightarrow> bool" where
  "attempts_ok c tab =
     list_all (\<lambda>r. row_state r = RowPending \<and> Lane (row_rec r) = cfg_Lane c \<longrightarrow>
       0 \<le> Attempts (row_rec r) \<and> Attempts (row_rec r) < MaxAttempts c) tab"

text \<open>A sequence of runs at given times and environments: the final table and the number of records sent.\<close>

fun relay_runs ::
  "RelayConfig \<Rightarrow> int \<Rightarrow> table \<Rightarrow> (int \<times> relay_env \<times> (OutboxRecord list list \<Rightarrow> OutboxRecord list list)) list \<Rightarrow>
   table \<times> nat" where
  "relay_runs c l tab [] = (tab, 0)"
| "relay_runs c l tab ((now, E, order) # rest) =
     (let sent = (case snd (sql_Claim now l tab (cfg_Lane c) (BatchSize c)) of Inr recs \<Rightarrow> length recs | Inl _ \<Rightarrow> 0);
          (tab', n) = relay_runs c l (fst (runOnce (sql_store now l) c E order tab)) rest
      in (tab', sent + n))"

lemma sql_rows_dom: "sql_inv tab \<Longrightarrow> row_id ` set tab = {i. sql_rows tab i \<noteq> None}"
  by (auto simp: sql_rows_iff image_iff)

lemma attempts_ok_rows:
  "sql_inv tab \<Longrightarrow> attempts_ok c tab =
     (\<forall>i r. sql_rows tab i = Some r \<longrightarrow> row_state r = RowPending \<longrightarrow> Lane (row_rec r) = cfg_Lane c \<longrightarrow>
        0 \<le> Attempts (row_rec r) \<and> Attempts (row_rec r) < MaxAttempts c)"
  by (auto simp: attempts_ok_def list_all_iff sql_rows_iff)

lemma settle_attempts:
  assumes "\<not> ctx_ended E (row_id r)" "row_state r = RowPending" "0 \<le> Attempts (row_rec r)"
    "Attempts (row_rec r) < MaxAttempts c" "Lane (row_rec r) = cfg_Lane c"
  shows "attempts_left c (Some (settle c E (lease_row now l r) res)) + 1 \<le> attempts_left c (Some r)"
    "row_state (settle c E (lease_row now l r) res) = RowPending \<Longrightarrow>
       Attempts (row_rec (settle c E (lease_row now l r) res)) = Attempts (row_rec r) + 1
       \<and> Attempts (row_rec r) + 1 < MaxAttempts c"
  using assms by (auto simp: settle_def attempts_left_def interrupted_def lease_row_def row_id_def split: option.splits if_splits)

lemma run_decreases:
  assumes "sql_inv tab" "attempts_ok c tab" "relay_Validate c = None" "\<And>cs. mset (order cs) = mset cs"
    "\<And>i. \<not> ctx_ended E i"
  obtains tab' recs tab1 where "runOnce (sql_store now l) c E order tab = (tab', None)"
    "sql_Claim now l tab (cfg_Lane c) (BatchSize c) = (tab1, Inr recs)"
    "sql_inv tab'" "attempts_ok c tab'" "remaining c tab' + length recs \<le> remaining c tab"
proof -
  have pos: "0 < BatchSize c" "0 < SendBatch c" using assms(3) by (auto simp: relay_Validate_def split: if_splits)
  obtain tab' recs tab1 ps where
    r1: "st_Claim (sql_store now l) tab (cfg_Lane c) (BatchSize c) = (tab1, Inr recs)" and
    r2: "runOnce (sql_store now l) c E order tab = (tab', None)" and r3: "sql_inv tab'" and
    "int (length recs) \<le> BatchSize c" and r4: "distinct (map RecordID recs)" and
    "ps = sent_pairs E (chunks (nat (SendBatch c)) recs)" and r5: "set (map fst ps) = set recs" and
    claimed: "\<And>rec. rec \<in> set recs \<Longrightarrow> \<exists>r. sql_rows tab (RecordID rec) = Some r \<and> row_state r = RowPending \<and>
      Lane (row_rec r) = cfg_Lane c \<and> row_rec (lease_row now l r) = rec" and
    settled: "\<And>rec res r. (rec, res) \<in> set ps \<Longrightarrow> sql_rows tab (RecordID rec) = Some r \<Longrightarrow>
      sql_rows tab' (RecordID rec) = Some (settle c E (lease_row now l r) res)" and
    other: "\<And>i. i \<notin> RecordID ` set recs \<Longrightarrow> sql_rows tab' i = sql_rows tab i"
    by (rule sql.runOnce_settles [OF assms(1) pos assms(4), of now l E]) (rule that; assumption)
  note run = r1 [unfolded sql_store_def outbox_store.simps] r2 r3 r4 r5
  let ?A = "RecordID ` set recs" and ?S = "row_id ` set tab"
  have row: "\<exists>r res. sql_rows tab i = Some r \<and> row_state r = RowPending \<and> Lane (row_rec r) = cfg_Lane c \<and> row_id r = i \<and>
      sql_rows tab' i = Some (settle c E (lease_row now l r) res)" if "i \<in> ?A" for i
  proof -
    obtain rec where rec: "rec \<in> set recs" "i = RecordID rec" using \<open>i \<in> ?A\<close> by blast
    then obtain res where "(rec, res) \<in> set ps" using run(5) by force
    then show ?thesis using claimed [OF rec(1)] settled rec(2) sql_rows_iff [OF assms(1)] by blast
  qed
  have ok: "0 \<le> Attempts (row_rec r) \<and> Attempts (row_rec r) < MaxAttempts c"
    if "sql_rows tab i = Some r" "row_state r = RowPending" "Lane (row_rec r) = cfg_Lane c" for i r
    using that assms(1,2) by (auto simp: attempts_ok_rows)
  have S: "row_id ` set tab' = ?S"
    unfolding sql_rows_dom [OF assms(1)] sql_rows_dom [OF run(3)] using row other
    by (metis (mono_tags, lifting) option.distinct(1))
  have "attempts_ok c tab'"
    unfolding attempts_ok_rows [OF run(3)]
  proof (intro allI impI)
    fix i r assume r: "sql_rows tab' i = Some r" "row_state r = RowPending" "Lane (row_rec r) = cfg_Lane c"
    show "0 \<le> Attempts (row_rec r) \<and> Attempts (row_rec r) < MaxAttempts c"
    proof (cases "i \<in> ?A")
      case True
      then obtain r0 res where "sql_rows tab i = Some r0" "row_state r0 = RowPending" "Lane (row_rec r0) = cfg_Lane c"
        "r = settle c E (lease_row now l r0) res" using row [of i] r(1) by auto
      then show ?thesis using settle_attempts(2) [of E r0 c now l res] ok [of i r0] assms(5) r(2) by auto
    qed (use other [of i] r ok [of i r] in auto)
  qed
  moreover have "remaining c tab' + length recs \<le> remaining c tab"
  proof -
    have le: "attempts_left c (sql_rows tab' i) + (if i \<in> ?A then 1 else 0) \<le> attempts_left c (sql_rows tab i)" for i
    proof (cases "i \<in> ?A")
      case True
      then obtain r res where "sql_rows tab i = Some r" "row_state r = RowPending" "Lane (row_rec r) = cfg_Lane c"
        "sql_rows tab' i = Some (settle c E (lease_row now l r) res)" using row [of i] by blast
      then show ?thesis using settle_attempts(1) [of E r c now l res] ok [of i r] assms(5) True by auto
    qed (use other in simp)
    have "?A \<subseteq> ?S" using row sql_rows_dom [OF assms(1)] by auto
    then have "(\<Sum>i\<in>?S. if i \<in> ?A then 1 else 0 :: nat) = card ?A" by (simp add: sum.If_cases Int_absorb1)
    also have "\<dots> = length recs" using run(4) by (metis distinct_card length_map list.set_map)
    finally have "remaining c tab' + length recs = (\<Sum>i\<in>?S. attempts_left c (sql_rows tab' i) + (if i \<in> ?A then 1 else 0))"
      by (simp add: remaining_def S sum.distrib)
    also have "\<dots> \<le> remaining c tab" unfolding remaining_def by (rule sum_mono) (rule le)
    finally show ?thesis .
  qed
  ultimately show ?thesis using that run by blast
qed

lemma backoff_loop_bounds:
  assumes "0 < d" "d \<le> MaxBackoff c" "MaxBackoff c \<le> MaxInt64"
  shows "backoff_loop c d n \<le> MaxBackoff c \<and> min (d * 2 ^ n) (MaxBackoff c) \<le> backoff_loop c d n
    \<and> (even (MaxBackoff c) \<longrightarrow> backoff_loop c d n = min (d * 2 ^ n) (MaxBackoff c))"
  using assms
proof (induction n arbitrary: d)
  case (Suc n)
  have half: "go_half (MaxBackoff c) = MaxBackoff c div 2" using Suc.prems by (simp add: go_half_def)
  show ?case
  proof (cases "go_half (MaxBackoff c) \<le> d")
    case True
    have "MaxBackoff c \<le> d * 2 ^ Suc n" if "even (MaxBackoff c)"
    proof -
      have "MaxBackoff c \<le> d * 2" using that True half by auto
      also have "\<dots> \<le> d * 2 ^ Suc n" using Suc.prems(1) by simp
      finally show ?thesis .
    qed
    then show ?thesis using True by simp
  next
    case False
    then have d: "0 < d * 2" "d * 2 \<le> MaxBackoff c" using half Suc.prems by linarith+
    then have "int64 (d * 2) = d * 2" using Suc.prems(3) by (intro int64_id) (auto simp: MinInt64_def)
    then show ?thesis using Suc.IH [OF d Suc.prems(3)] False by (simp add: mult.assoc)
  qed
qed simp

lemma upTo_bounds: "random_ok R \<Longrightarrow> 0 \<le> n \<Longrightarrow> n \<le> MaxInt64 \<Longrightarrow> 0 \<le> upTo R n \<and> upTo R n \<le> n"
proof (cases "n = MaxInt64")
  case False
  assume a: "random_ok R" "0 \<le> n" "n \<le> MaxInt64"
  then have "int64 (n + 1) = n + 1" using False by (intro int64_id) (auto simp: MinInt64_def)
  moreover have "0 < n + 1" using a(2) by simp
  then have "0 \<le> Int64N R (n + 1) \<and> Int64N R (n + 1) < n + 1" using a(1) unfolding random_ok_def by blast
  ultimately show ?thesis using False by (simp add: upTo_def)
qed (simp add: upTo_def random_ok_def)

lemma relay_config_ok:
  assumes "relay_Validate c = None"
  shows "0 < BatchSize c" "0 < SendBatch c" "0 < MaxAttempts c" "0 < BaseBackoff c" "BaseBackoff c \<le> MaxBackoff c"
  using assms by (auto simp: relay_Validate_def split: if_splits)

section \<open>Demonstration table\<close>

definition demo_record :: OutboxRecord where
  "demo_record = \<lparr>CreatedAt = 0, Attributes = Map.empty, Tenant = ''org'', Lane = ''mail'', RecordKey = [],
     RecordPayload = ''hi'', Attempts = 0, RecordID = ''r1''\<rparr>"

definition demo_table :: table where
  "demo_table = fst (Enqueue 0 [] demo_record)"

definition demo_env :: relay_env where
  "demo_env = \<lparr>Send = map (\<lambda>_. Some (New CodeUnavailable ''down'')), clock = 5, jitter = (\<lambda>d. d), ctx_ended = (\<lambda>_. False)\<rparr>"

lemma demo_ok:
  "relay_Validate (DefaultRelayConfig ''mail'') = None" "sql_inv demo_table" "attempts_ok (DefaultRelayConfig ''mail'') demo_table"
  "\<not> ctx_ended demo_env i"
  by (simp_all add: relay_Validate_def DefaultRelayConfig_def demo_table_def Enqueue_def sql_inv_def attempts_ok_def
      demo_record_def demo_env_def)

section \<open>Properties\<close>





text \<open>
  The backoff is what it says, without overflow: for a valid configuration in the
  range of a duration, the delay after \<open>n\<close> attempts is at least \<open>min(Base * 2^n, Max)\<close> and at
  most \<open>Max\<close>, exactly that minimum when \<open>Max\<close> is even, and full jitter stays between zero
  and the delay.
\<close>

lemma relay_backoff_bounds:
  assumes "relay_Validate c = None" "MaxBackoff c \<le> MaxInt64" "random_ok R" "0 \<le> n"
  shows "min (BaseBackoff c * 2 ^ nat n) (MaxBackoff c) \<le> relay_backoff c n \<and> relay_backoff c n \<le> MaxBackoff c
    \<and> (even (MaxBackoff c) \<longrightarrow> relay_backoff c n = min (BaseBackoff c * 2 ^ nat n) (MaxBackoff c))
    \<and> 0 \<le> FullJitter R (relay_backoff c n) \<and> FullJitter R (relay_backoff c n) \<le> relay_backoff c n"
proof -
  note cfg = relay_config_ok [OF assms(1)]
  note b = backoff_loop_bounds [OF cfg(4,5) assms(2), of "nat n"]
  have "0 < min (BaseBackoff c * 2 ^ nat n) (MaxBackoff c)" using cfg(4,5) by simp
  then have "0 < relay_backoff c n" "relay_backoff c n \<le> MaxInt64"
    using b assms(2) by (auto simp: relay_backoff_def)
  then show ?thesis using b upTo_bounds [OF assms(3), of "relay_backoff c n"]
    by (auto simp: relay_backoff_def FullJitter_def)
qed


text \<open>
  An odd maximum shows the difference: from a delay of three out of seven the relay waits
  seven, where doubling would give six.
\<close>

lemma relay_backoff_odd_max:
  "relay_backoff ((DefaultRelayConfig ''mail'')\<lparr>BaseBackoff := 3, MaxBackoff := 7\<rparr>) 1 = 7"
  by (simp add: relay_backoff_def go_half_def)

end
