(* ===== verification/Outbox_Sink.thy ===== *)
theory Outbox_Sink
  imports Outbox_Relay Calendar Encoding
begin

text \<open>
  The sinks of the outbox: SQS (\<^verbatim>\<open>clients/outbox/sqs/sink.go\<close>), S3 (\<^verbatim>\<open>clients/outbox/s3/sink.go\<close>), the
  stub and the selection of one (\<^verbatim>\<open>clients/outbox/outbox.go\<close>).  The AWS clients are parameters: a
  record of the calls the sink makes.  So are SHA-256 and \<^verbatim>\<open>strconv.Quote\<close> (used in a message only).
  Batches go out concurrently in the code; here in an order that is an argument.
\<close>

section \<open>The SQS sink\<close>

definition maxBatch :: nat where "maxBatch = 10"
definition fifoSuffix :: string where "fifoSuffix = ''.fifo''"
definition OutboxRouteAttribute :: string where "OutboxRouteAttribute = ''route''"

record MessageAttributeValue =
  DataType :: string
  StringValue :: string

record sqs_entry =
  entry_Id :: string
  MessageBody :: string
  MessageAttributes :: "string \<rightharpoonup> MessageAttributeValue"
  MessageGroupId :: "string option"
  MessageDeduplicationId :: "string option"

record sqs_failed =
  failed_Id :: "string option"
  SenderFault :: bool
  failed_Code :: "string option"
  failed_Message :: "string option"

record sqs_output =
  Successful :: "string option list"
  Failed :: "sqs_failed list"

record sqs_API =
  GetQueueUrl :: "string \<Rightarrow> error + string option"
  SendMessageBatch :: "string \<Rightarrow> sqs_entry list \<Rightarrow> error + sqs_output"

record sqs_Sink =
  routes :: "string \<rightharpoonup> string"
  urls :: "string \<rightharpoonup> string"
  queue :: string

text \<open>\<^verbatim>\<open>aws.ToString\<close>: a nil pointer reads as the empty string; so does a missing map key.\<close>

definition ToString :: "string option \<Rightarrow> string" where
  "ToString p = (case p of None \<Rightarrow> [] | Some v \<Rightarrow> v)"

fun sqs_New_routes :: "(string \<times> string) list \<Rightarrow> (string \<rightharpoonup> string) \<Rightarrow> error + (string \<rightharpoonup> string)" where
  "sqs_New_routes [] m = Inr m"
| "sqs_New_routes ((r, q) # rs) m =
     (if r = [] \<or> q = []
      then Inl (New CodeInvalidInput (''outbox sqs sink: route '' @ r @ '' needs a non-empty name and queue''))
      else sqs_New_routes rs (m(r \<mapsto> q)))"

text \<open>The configured routes come as the pairs of the map in the order of its iteration.\<close>

definition sqs_New :: "sqs_API option \<Rightarrow> (string \<times> string) list \<Rightarrow> string \<Rightarrow> error + sqs_Sink" where
  "sqs_New api rs q =
     (if Option.is_none api \<or> q = [] \<and> rs = []
      then Inl (New CodeInvalidInput ''outbox sqs sink: api and a queue or routes are required'')
      else bind_result (sqs_New_routes rs Map.empty)
             (\<lambda>m. Inr \<lparr>routes = m, urls = Map.empty, queue = q\<rparr>))"

definition route :: "(string \<Rightarrow> string) \<Rightarrow> sqs_Sink \<Rightarrow> OutboxRecord \<Rightarrow> error + string" where
  "route Quote s rec =
     (let r = ToString (Attributes rec OutboxRouteAttribute)
      in if r = [] \<and> queue s \<noteq> [] then Inr (queue s)
         else case routes s r of
                Some q \<Rightarrow> Inr q
              | None \<Rightarrow> Inl (New CodeInvalidInput (''outbox sqs sink: no queue for route '' @ Quote r)))"

definition entryIndex :: "string option \<Rightarrow> nat \<Rightarrow> nat option" where
  "entryIndex i n =
     (case Atoi (ToString i) of
        None \<Rightarrow> None
      | Some k \<Rightarrow> if 0 \<le> k \<and> k < int n then Some (nat k) else None)"

definition groupID :: "OutboxRecord \<Rightarrow> string" where
  "groupID rec =
     (if RecordKey rec \<noteq> [] then RecordKey rec else if Tenant rec \<noteq> [] then Tenant rec else Lane rec)"

definition stringAttr :: "string \<Rightarrow> MessageAttributeValue" where
  "stringAttr v = \<lparr>DataType = ''String'', StringValue = v\<rparr>"

definition messageAttributes :: "OutboxRecord \<Rightarrow> string \<rightharpoonup> MessageAttributeValue" where
  "messageAttributes rec =
     (let a = [''outbox_id'' \<mapsto> stringAttr (RecordID rec)];
          a = (if Tenant rec \<noteq> [] then a(''tenant'' \<mapsto> stringAttr (Tenant rec)) else a)
      in if Lane rec \<noteq> [] then a(''lane'' \<mapsto> stringAttr (Lane rec)) else a)"

definition batch_entry :: "bool \<Rightarrow> nat \<Rightarrow> OutboxRecord \<Rightarrow> sqs_entry" where
  "batch_entry fifo i rec =
     \<lparr>entry_Id = Itoa (int i), MessageBody = RecordPayload rec, MessageAttributes = messageAttributes rec,
      MessageGroupId = (if fifo then Some (groupID rec) else None),
      MessageDeduplicationId = (if fifo then Some (RecordID rec) else None)\<rparr>"

fun mark_successful :: "string option list \<Rightarrow> error option list \<Rightarrow> error option list" where
  "mark_successful [] res = res"
| "mark_successful (i # is) res =
     mark_successful is (case entryIndex i (length res) of Some k \<Rightarrow> res[k := None] | None \<Rightarrow> res)"

definition failed_error :: "sqs_failed \<Rightarrow> error" where
  "failed_error f =
     New (if SenderFault f then CodeInvalidInput else CodeUnavailable)
       (''outbox sqs sink: '' @ ToString (failed_Code f) @ '': '' @ ToString (failed_Message f))"

fun mark_failed :: "sqs_failed list \<Rightarrow> error option list \<Rightarrow> error option list" where
  "mark_failed [] res = res"
| "mark_failed (f # fs) res =
     mark_failed fs
       (case entryIndex (failed_Id f) (length res) of Some k \<Rightarrow> res[k := Some (failed_error f)] | None \<Rightarrow> res)"

definition fill :: "nat \<Rightarrow> error option \<Rightarrow> error option list" where
  "fill n e = replicate n e"

definition sendBatch :: "sqs_API \<Rightarrow> string \<Rightarrow> bool \<Rightarrow> OutboxRecord list \<Rightarrow> error option list" where
  "sendBatch api url fifo recs =
     (case SendMessageBatch api url (map (\<lambda>(i, rec). batch_entry fifo i rec) (enumerate 0 recs)) of
        Inl e \<Rightarrow> fill (length recs) (Wrap (Some e) (CodeOr (Some e) CodeUnavailable) ''outbox sqs sink: send batch'')
      | Inr out \<Rightarrow>
          mark_failed (Failed out)
            (mark_successful (Successful out)
              (fill (length recs) (Some (New CodeInternal ''outbox sqs sink: no result for entry'')))))"

definition queueURL :: "sqs_API \<Rightarrow> sqs_Sink \<Rightarrow> string \<Rightarrow> sqs_Sink \<times> (error option + string)" where
  "queueURL api s q =
     (case urls s q of
        Some url \<Rightarrow> (s, Inr url)
      | None \<Rightarrow>
          (case GetQueueUrl api q of
             Inl e \<Rightarrow> (s, Inl (Wrap (Some e) (CodeOr (Some e) CodeUnavailable) (''outbox sqs sink: resolve queue '' @ q)))
           | Inr p \<Rightarrow> (s\<lparr>urls := (urls s)(q \<mapsto> ToString p)\<rparr>, Inr (ToString p))))"

text \<open>The writes \<^verbatim>\<open>results[i] = err\<close> of one queue, in order.\<close>

definition sendQueue ::
  "sqs_API \<Rightarrow> sqs_Sink \<Rightarrow> OutboxRecord list \<Rightarrow> string \<Rightarrow> nat list \<Rightarrow> sqs_Sink \<times> (nat \<times> error option) list" where
  "sendQueue api s recs q idx =
     (case queueURL api s q of
        (s', Inl e) \<Rightarrow> (s', map (\<lambda>i. (i, e)) idx)
      | (s', Inr url) \<Rightarrow>
          (s', concat (map (\<lambda>part. zip part (sendBatch api url (HasSuffix q fifoSuffix) (map ((!) recs) part)))
                 (chunks maxBatch idx))))"

fun write_results :: "(nat \<times> error option) list \<Rightarrow> error option list \<Rightarrow> error option list" where
  "write_results [] res = res"
| "write_results ((i, e) # ws) res = write_results ws (res[i := e])"

fun add_group :: "string \<Rightarrow> nat \<Rightarrow> (string \<times> nat list) list \<Rightarrow> (string \<times> nat list) list" where
  "add_group q i [] = [(q, [i])]"
| "add_group q i ((k, idx) # gs) = (if k = q then (k, idx @ [i]) # gs else (k, idx) # add_group q i gs)"

fun group_records ::
  "(string \<Rightarrow> string) \<Rightarrow> sqs_Sink \<Rightarrow> (nat \<times> OutboxRecord) list \<Rightarrow> error option list \<Rightarrow> (string \<times> nat list) list
     \<Rightarrow> error option list \<times> (string \<times> nat list) list" where
  "group_records Quote s [] res gs = (res, gs)"
| "group_records Quote s ((i, rec) # rs) res gs =
     (case route Quote s rec of
        Inl e \<Rightarrow> group_records Quote s rs (res[i := Some e]) gs
      | Inr q \<Rightarrow> group_records Quote s rs res (add_group q i gs))"

fun send_groups ::
  "sqs_API \<Rightarrow> OutboxRecord list \<Rightarrow> (string \<times> nat list) list \<Rightarrow> sqs_Sink \<Rightarrow> error option list \<Rightarrow> sqs_Sink \<times> error option list" where
  "send_groups api recs [] s res = (s, res)"
| "send_groups api recs ((q, idx) # gs) s res =
     (case sendQueue api s recs q idx of (s', ws) \<Rightarrow> send_groups api recs gs s' (write_results ws res))"

definition sqs_Send ::
  "(string \<Rightarrow> string) \<Rightarrow> sqs_API \<Rightarrow> ((string \<times> nat list) list \<Rightarrow> (string \<times> nat list) list)
     \<Rightarrow> sqs_Sink \<Rightarrow> OutboxRecord list \<Rightarrow> sqs_Sink \<times> error option list" where
  "sqs_Send Quote api order s recs =
     (case group_records Quote s (enumerate 0 recs) (replicate (length recs) None) [] of
        (res, gs) \<Rightarrow> send_groups api recs (order gs) s res)"

section \<open>The S3 sink\<close>

definition DefaultKeyTemplate :: string where
  "DefaultKeyTemplate = ''{tenant}/{yyyy}/{mm}/{dd}/{id}''"

definition KMSKeyAttribute :: string where "KMSKeyAttribute = ''kms_key_id''"

record PutObjectInput =
  put_Bucket :: string
  put_Key :: string
  put_Body :: string
  ChecksumAlgorithm :: string
  ChecksumSHA256 :: string
  ServerSideEncryption :: string
  SSEKMSKeyId :: "string option"

record s3_Sink =
  bucket :: string
  template :: string

definition s3_New :: "bool \<Rightarrow> string \<Rightarrow> string \<Rightarrow> error + s3_Sink" where
  "s3_New has_api b key_template =
     (let tmpl = (if key_template = [] then DefaultKeyTemplate else key_template)
      in if \<not> has_api \<or> b = [] then Inl (New CodeInvalidInput ''outbox s3 sink: api and bucket are required'')
         else if \<not> Contains tmpl ''{id}'' then Inl (New CodeInvalidInput ''outbox s3 sink: key template must contain {id}'')
         else Inr \<lparr>bucket = b, template = tmpl\<rparr>)"

text \<open>
  \<^verbatim>\<open>strings.Replacer.Replace\<close>: left to right, no match is replaced twice.  At each position the
  first old string that matches is taken; the old strings are non-empty.
\<close>

function Replace :: "(string \<times> string) list \<Rightarrow> string \<Rightarrow> string" where
  "Replace ps [] = []"
| "Replace ps (c # cs) =
     (case find (\<lambda>(old, new). HasPrefix (c # cs) old) ps of
        Some (old, new) \<Rightarrow> new @ Replace ps (drop (length old - 1) cs)
      | None \<Rightarrow> c # Replace ps cs)"
  by pat_completeness auto
termination by (relation "measure (\<lambda>(ps, s). length s)") auto

text \<open>\<^verbatim>\<open>time.Format\<close> of a year, a month or a day: at least the given number of digits.\<close>

definition appendInt :: "int \<Rightarrow> nat \<Rightarrow> string" where
  "appendInt x w =
     (let ds = Itoa \<bar>x\<bar> in (if x < 0 then ''-'' else []) @ replicate (w - length ds) (CHR ''0'') @ ds)"

definition s3_key :: "s3_Sink \<Rightarrow> OutboxRecord \<Rightarrow> string" where
  "s3_key s rec =
     (case civil (day_of (CreatedAt rec)) of (y, m, dy) \<Rightarrow>
        Replace [(''{tenant}'', Tenant rec), (''{key}'', RecordKey rec), (''{yyyy}'', appendInt y 4),
          (''{mm}'', appendInt (m + 1) 2), (''{dd}'', appendInt (dy + 1) 2), (''{id}'', RecordID rec)] (template s))"

definition s3_input :: "(string \<Rightarrow> string) \<Rightarrow> s3_Sink \<Rightarrow> OutboxRecord \<Rightarrow> PutObjectInput" where
  "s3_input sha256 s rec =
     (let kms = ToString (Attributes rec KMSKeyAttribute);
          inp = \<lparr>put_Bucket = bucket s, put_Key = s3_key s rec, put_Body = RecordPayload rec,
                 ChecksumAlgorithm = ''SHA256'', ChecksumSHA256 = StdEncode (sha256 (RecordPayload rec)),
                 ServerSideEncryption = [], SSEKMSKeyId = None\<rparr>
      in if kms \<noteq> [] then inp\<lparr>ServerSideEncryption := ''aws:kms'', SSEKMSKeyId := Some kms\<rparr> else inp)"

text \<open>\<open>put\<close> is \<^verbatim>\<open>PutObject\<close> of the S3 client on its own state.\<close>

fun s3_Send ::
  "(string \<Rightarrow> string) \<Rightarrow> ('s \<Rightarrow> PutObjectInput \<Rightarrow> 's \<times> error option) \<Rightarrow> s3_Sink \<Rightarrow> 's \<Rightarrow> OutboxRecord list
     \<Rightarrow> 's \<times> error option list" where
  "s3_Send sha256 put s st [] = (st, [])"
| "s3_Send sha256 put s st (rec # recs) =
     (case put st (s3_input sha256 s rec) of (st', e) \<Rightarrow>
        (case s3_Send sha256 put s st' recs of (st'', res) \<Rightarrow>
           (st'', (if e = None then None
                   else Wrap e (CodeOr e CodeUnavailable) (''outbox s3 sink: put '' @ RecordID rec)) # res)))"

section \<open>The stub and the classification of SDK errors\<close>

definition stub_Send :: "OutboxRecord list \<Rightarrow> error option list" where
  "stub_Send recs = replicate (length recs) None"

text \<open>
  \<open>api_error\<close> is \<^verbatim>\<open>errors.As\<close> to \<^verbatim>\<open>smithy.APIError\<close>: whether the fault is the client's, and the error code.
\<close>

definition classify :: "(error \<Rightarrow> (bool \<times> string) option) \<Rightarrow> error option \<Rightarrow> error option" where
  "classify api_error err =
     (if err = None \<or> Code err \<noteq> CodeUnknown \<or> StdIs err ContextCanceled \<or> StdIs err DeadlineExceeded then err
      else case api_error (the err) of
        None \<Rightarrow> Wrap err CodeUnavailable ''aws call failed''
      | Some (client, name) \<Rightarrow>
          if \<not> client then Wrap err CodeUnavailable ''aws call failed''
          else if Contains name ''Throttl'' \<or> name = ''SlowDown'' \<or> name = ''RequestTimeout''
            then Wrap err CodeUnavailable ''aws call throttled''
          else if HasPrefix name ''AccessDenied'' then Wrap err CodeForbidden ''aws call denied''
          else Wrap err CodeInvalidInput ''aws call rejected'')"

section \<open>One batch\<close>

text \<open>SQS acknowledged the entry at \<open>j\<close>: it is among the successful ones and not among the failed ones.\<close>

definition acknowledged :: "sqs_output \<Rightarrow> nat \<Rightarrow> nat \<Rightarrow> bool" where
  "acknowledged out n j \<longleftrightarrow>
     (\<exists>i \<in> set (Successful out). entryIndex i n = Some j) \<and> (\<forall>f \<in> set (Failed out). entryIndex (failed_Id f) n \<noteq> Some j)"

lemma entryIndex_less: "entryIndex i n = Some j \<Longrightarrow> j < n"
  by (auto simp: entryIndex_def split: option.splits if_splits)

lemma length_mark_successful [simp]: "length (mark_successful is res) = length res"
  by (induction "is" res rule: mark_successful.induct) (auto split: option.splits)

lemma length_mark_failed [simp]: "length (mark_failed fs res) = length res"
  by (induction fs res rule: mark_failed.induct) (auto split: option.splits)

lemma mark_successful_nth:
  "j < length res \<Longrightarrow>
     mark_successful is res ! j = (if \<exists>i \<in> set is. entryIndex i (length res) = Some j then None else res ! j)"
  by (induction "is" res rule: mark_successful.induct) (auto simp: nth_list_update split: option.splits)

lemma mark_failed_nth:
  "j < length res \<Longrightarrow>
     mark_failed fs res ! j = None \<longleftrightarrow> res ! j = None \<and> (\<forall>f \<in> set fs. entryIndex (failed_Id f) (length res) \<noteq> Some j)"
proof (induction fs res rule: mark_failed.induct)
  case (2 f fs res)
  show ?case
  proof (cases "entryIndex (failed_Id f) (length res)")
    case (Some k)
    then show ?thesis using 2 by (cases "k = j") auto
  qed (use 2 in simp)
qed simp

lemma length_sendBatch [simp]: "length (sendBatch api url fifo recs) = length recs"
  by (auto simp: sendBatch_def fill_def split: sum.splits)

lemma sendBatch_nil_iff:
  assumes "j < length recs"
  shows "sendBatch api url fifo recs ! j = None \<longleftrightarrow>
    (\<exists>out. SendMessageBatch api url (map (\<lambda>(i, rec). batch_entry fifo i rec) (enumerate 0 recs)) = Inr out
      \<and> acknowledged out (length recs) j)"
  using assms
  by (auto simp: sendBatch_def fill_def acknowledged_def mark_failed_nth mark_successful_nth Wrap_def split: sum.splits if_splits)

section \<open>Grouping by queue\<close>

definition idx_of :: "(string \<times> nat list) list \<Rightarrow> string \<Rightarrow> nat list" where
  "idx_of gs q = (case map_of gs q of None \<Rightarrow> [] | Some idx \<Rightarrow> idx)"

lemma idx_of_add [simp]: "idx_of (add_group q i gs) p = (if p = q then idx_of gs q @ [i] else idx_of gs p)"
  by (induction q i gs rule: add_group.induct) (auto simp: idx_of_def)

lemma keys_add_group [simp]: "fst ` set (add_group q i gs) = insert q (fst ` set gs)"
  by (induction q i gs rule: add_group.induct) auto

lemma distinct_add_group: "distinct (map fst gs) \<Longrightarrow> distinct (map fst (add_group q i gs))"
proof (induction q i gs rule: add_group.induct)
  case (2 q i k idx gs)
  then show ?case using keys_add_group [of q i gs] by auto
qed simp

lemma group_records_groups:
  assumes "group_records Quote s irs res gs = (res', gs')" "distinct (map fst gs)"
  shows "distinct (map fst gs') \<and> idx_of gs' q = idx_of gs q @ map fst (filter (\<lambda>(i, r). route Quote s r = Inr q) irs)
    \<and> fst ` set gs' = fst ` set gs \<union> {q. \<exists>ir \<in> set irs. route Quote s (snd ir) = Inr q}"
  using assms
  by (induction Quote s irs res gs rule: group_records.induct) (auto simp: distinct_add_group split: sum.splits)

lemma group_records_results:
  assumes "group_records Quote s irs res gs = (res', gs')" "distinct (map fst irs)" "\<forall>ir \<in> set irs. fst ir < length res"
  shows "length res' = length res
    \<and> (\<forall>(i, r) \<in> set irs. res' ! i = (case route Quote s r of Inl e \<Rightarrow> Some e | Inr _ \<Rightarrow> res ! i))
    \<and> (\<forall>i. i \<notin> fst ` set irs \<longrightarrow> res' ! i = res ! i)"
  using assms
proof (induction Quote s irs res gs rule: group_records.induct)
  case (2 Quote s i rec rs res gs)
  have notin: "(i, r) \<notin> set rs" for r using "2.prems"(2) by force
  show ?case
  proof (cases "route Quote s rec")
    case (Inl e)
    then have "length res' = length (res[i := Some e])
      \<and> (\<forall>(k, r) \<in> set rs. res' ! k = (case route Quote s r of Inl e \<Rightarrow> Some e | Inr _ \<Rightarrow> res[i := Some e] ! k))
      \<and> (\<forall>k. k \<notin> fst ` set rs \<longrightarrow> res' ! k = res[i := Some e] ! k)"
      using "2.prems" by (intro "2.IH"(1)) auto
    then have IH: "length res' = length res" "\<And>k r. (k, r) \<in> set rs \<Longrightarrow>
        res' ! k = (case route Quote s r of Inl e \<Rightarrow> Some e | Inr _ \<Rightarrow> res[i := Some e] ! k)"
      "\<And>k. k \<notin> fst ` set rs \<Longrightarrow> res' ! k = res[i := Some e] ! k" by auto
    have "res' ! i = Some e" using IH(3) [of i] "2.prems" by simp
    moreover have "res' ! k = (case route Quote s r of Inl e \<Rightarrow> Some e | Inr _ \<Rightarrow> res ! k)" if "(k, r) \<in> set rs" for k r
      using IH(2) [OF that] notin [of r] that by (cases "k = i") (auto split: sum.splits)
    moreover have "res' ! k = res ! k" if "k \<notin> fst ` set rs" "k \<noteq> i" for k using IH(3) [OF that(1)] that(2) by simp
    ultimately show ?thesis using Inl IH(1) by auto
  next
    case (Inr q)
    then have "length res' = length res
      \<and> (\<forall>(k, r) \<in> set rs. res' ! k = (case route Quote s r of Inl e \<Rightarrow> Some e | Inr _ \<Rightarrow> res ! k))
      \<and> (\<forall>k. k \<notin> fst ` set rs \<longrightarrow> res' ! k = res ! k)"
      using "2.prems" by (intro "2.IH"(2)) auto
    then show ?thesis using Inr "2.prems" by auto
  qed
qed auto

section \<open>The writes of a queue\<close>

lemma length_write_results [simp]: "length (write_results ws res) = length res"
  by (induction ws res rule: write_results.induct) auto

lemma write_results_other: "i \<notin> fst ` set ws \<Longrightarrow> write_results ws res ! i = res ! i"
  by (induction ws res rule: write_results.induct) auto

lemma write_results_nth:
  "distinct (map fst ws) \<Longrightarrow> \<forall>i \<in> fst ` set ws. i < length res \<Longrightarrow>
     map ((!) (write_results ws res)) (map fst ws) = map snd ws"
proof (induction ws res rule: write_results.induct)
  case (2 i e ws res)
  then show ?case by (simp add: write_results_other)
qed simp

lemma chunks_map: "chunks n (map f xs) = map (map f) (chunks n xs)"
proof (induction n xs rule: chunks.induct)
  case (1 n xs)
  then show ?case by (subst (1 2) chunks.simps) (simp add: take_map drop_map)
qed

lemma map_zip_parts:
  assumes "\<And>p. length (f p) = length p"
  shows "map fst (concat (map (\<lambda>p. zip p (f p)) ps)) = concat ps" "map snd (concat (map (\<lambda>p. zip p (f p)) ps)) = concat (map f ps)"
  by (induction ps) (simp_all add: assms)

lemma sendQueue_writes:
  assumes "sendQueue api s recs q idx = (s', ws)"
  shows "map fst ws = idx" "snd (queueURL api s q) = Inl e \<Longrightarrow> map snd ws = map (\<lambda>_. e) idx"
    "snd (queueURL api s q) = Inr url \<Longrightarrow>
       map snd ws = concat (map (sendBatch api url (HasSuffix q fifoSuffix)) (chunks maxBatch (map ((!) recs) idx)))"
    "p \<noteq> q \<Longrightarrow> urls s' p = urls s p"
proof -
  let ?f = "\<lambda>url part. sendBatch api url (HasSuffix q fifoSuffix) (map ((!) recs) part)"
  have len: "length (?f url part) = length part" for url part by simp
  have idx: "concat (chunks maxBatch idx) = idx" by (rule concat_chunks) (simp add: maxBatch_def)
  show "map fst ws = idx"
    using assms map_zip_parts(1) [of "?f _", OF len] idx
    by (auto simp: sendQueue_def comp_def split: prod.splits sum.splits)
  show "snd (queueURL api s q) = Inl e \<Longrightarrow> map snd ws = map (\<lambda>_. e) idx"
    using assms by (auto simp: sendQueue_def split: prod.splits)
  show "snd (queueURL api s q) = Inr url \<Longrightarrow>
       map snd ws = concat (map (sendBatch api url (HasSuffix q fifoSuffix)) (chunks maxBatch (map ((!) recs) idx)))"
    using assms map_zip_parts(2) [of "?f url", OF len]
    by (auto simp: sendQueue_def chunks_map comp_def split: prod.splits)
  show "p \<noteq> q \<Longrightarrow> urls s' p = urls s p"
    using assms by (auto simp: sendQueue_def queueURL_def split: prod.splits sum.splits option.splits)
qed

lemma queueURL_cong: "urls s q = urls t q \<Longrightarrow> snd (queueURL api s q) = snd (queueURL api t q)"
  by (simp add: queueURL_def split: option.splits sum.splits)

lemma sendQueue_cong: "urls s q = urls t q \<Longrightarrow> snd (sendQueue api s recs q idx) = snd (sendQueue api t recs q idx)"
  using queueURL_cong [of s q t api]
  by (cases "queueURL api s q"; cases "queueURL api t q") (auto simp: sendQueue_def split: sum.splits)

section \<open>All queues\<close>

text \<open>The positions of the records that go to queue \<open>q\<close>.\<close>

definition positions :: "(string \<Rightarrow> string) \<Rightarrow> sqs_Sink \<Rightarrow> OutboxRecord list \<Rightarrow> string \<Rightarrow> nat list" where
  "positions Quote s recs q = map fst (filter (\<lambda>(i, r). route Quote s r = Inr q) (enumerate 0 recs))"

lemma zip_nths: "length ys = length xs \<Longrightarrow> zip xs ys = map (\<lambda>i. (xs ! i, ys ! i)) [0..<length xs]"
  by (rule nth_equalityI) auto

lemma positions_alt: "positions Quote s recs q = filter (\<lambda>i. route Quote s (recs ! i) = Inr q) [0..<length recs]"
proof -
  have "enumerate 0 recs = map (\<lambda>i. (i, recs ! i)) [0..<length recs]" by (simp add: enumerate_eq_zip zip_nths)
  then show ?thesis by (simp add: positions_def filter_map comp_def)
qed

lemma set_positions: "i \<in> set (positions Quote s recs q) \<longleftrightarrow> i < length recs \<and> route Quote s (recs ! i) = Inr q"
  by (auto simp: positions_alt)

lemma distinct_positions: "distinct (positions Quote s recs q)"
  by (simp add: positions_alt)

lemma pick_positions:
  assumes "length xs = length recs"
  shows "map ((!) xs) (positions Quote s recs q) = map snd (filter (\<lambda>(r, x). route Quote s r = Inr q) (zip recs xs))"
  using assms by (simp add: positions_alt zip_nths filter_map comp_def)

lemma records_at_positions: "map ((!) recs) (positions Quote s recs q) = filter (\<lambda>r. route Quote s r = Inr q) recs"
proof -
  have "filter P recs = map ((!) recs) (filter (\<lambda>i. P (recs ! i)) [0..<length recs])" for P
    by (metis (no_types, lifting) filter_cong filter_map map_nth comp_def)
  then show ?thesis by (simp add: positions_alt)
qed

lemma send_groups_results:
  assumes "distinct (map fst gs)" "\<forall>(q, idx) \<in> set gs. idx = positions Quote s0 recs q \<and> urls s q = urls s0 q"
    "length res = length recs"
  shows "length (snd (send_groups api recs gs s res)) = length recs
    \<and> (\<forall>(q, idx) \<in> set gs. map ((!) (snd (send_groups api recs gs s res))) idx = map snd (snd (sendQueue api s0 recs q idx)))
    \<and> (\<forall>i. (\<forall>q \<in> fst ` set gs. route Quote s0 (recs ! i) \<noteq> Inr q) \<longrightarrow> snd (send_groups api recs gs s res) ! i = res ! i)"
  using assms
proof (induction api recs gs s res rule: send_groups.induct)
  case (2 api recs q idx gs s res)
  obtain s' ws where sq: "sendQueue api s recs q idx = (s', ws)" by (cases "sendQueue api s recs q idx")
  note w = sendQueue_writes [OF sq]
  have idx: "idx = positions Quote s0 recs q" "urls s q = urls s0 q" using "2.prems"(2) by auto
  have ws: "map snd ws = map snd (snd (sendQueue api s0 recs q idx))"
    using sendQueue_cong [OF idx(2), of api recs idx] sq by simp
  have fst_ws: "fst ` set ws = set idx" using w(1) by (metis set_map)
  let ?out = "snd (send_groups api recs gs s' (write_results ws res))"
  have "length ?out = length recs
    \<and> (\<forall>(q, idx) \<in> set gs. map ((!) ?out) idx = map snd (snd (sendQueue api s0 recs q idx)))
    \<and> (\<forall>i. (\<forall>q \<in> fst ` set gs. route Quote s0 (recs ! i) \<noteq> Inr q) \<longrightarrow> ?out ! i = write_results ws res ! i)"
  proof (rule "2.IH" [OF sq [symmetric]])
    show "distinct (map fst gs)" using "2.prems"(1) by simp
    show "length (write_results ws res) = length recs" using "2.prems"(3) by simp
    show "\<forall>(p, idx) \<in> set gs. idx = positions Quote s0 recs p \<and> urls s' p = urls s0 p"
    proof safe
      fix p xs assume p: "(p, xs) \<in> set gs"
      then have "p \<noteq> q" using "2.prems"(1) by force
      then show "urls s' p = urls s0 p" using w(4) [of p] "2.prems"(2) p by auto
      show "xs = positions Quote s0 recs p" using "2.prems"(2) p by auto
    qed
  qed
  then have IH: "length ?out = length recs" "\<And>p xs. (p, xs) \<in> set gs \<Longrightarrow> map ((!) ?out) xs = map snd (snd (sendQueue api s0 recs p xs))"
    "\<And>i. \<forall>p \<in> fst ` set gs. route Quote s0 (recs ! i) \<noteq> Inr p \<Longrightarrow> ?out ! i = write_results ws res ! i" by blast+
  have own: "?out ! i = write_results ws res ! i" if "i \<in> set idx" for i
    using IH(3) [of i] that "2.prems"(1) by (auto simp: idx(1) set_positions)
  have "map ((!) ?out) idx = map ((!) (write_results ws res)) (map fst ws)" using own w(1) by simp
  also have "\<dots> = map snd ws"
  proof (rule write_results_nth)
    show "distinct (map fst ws)" unfolding w(1) idx(1) by (rule distinct_positions)
    show "\<forall>i \<in> fst ` set ws. i < length res" unfolding fst_ws idx(1) using "2.prems"(3) by (simp add: set_positions)
  qed
  finally have here: "map ((!) ?out) idx = map snd (snd (sendQueue api s0 recs q idx))" using ws by simp
  have rest: "?out ! i = res ! i" if "\<forall>p \<in> fst ` set ((q, idx) # gs). route Quote s0 (recs ! i) \<noteq> Inr p" for i
    using IH(3) [of i] that write_results_other [of i ws res] fst_ws by (simp add: idx(1) set_positions)
  have "send_groups api recs ((q, idx) # gs) s res = send_groups api recs gs s' (write_results ws res)" using sq by simp
  then show ?case using IH(1,2) here rest by (simp only:) auto
qed auto

lemma zip_filter_snd: "zip (filter P xs) (map snd (filter (\<lambda>(x, y). P x) (zip xs ys))) = filter (\<lambda>(x, y). P x) (zip xs ys)"
  if "length ys = length xs"
  using that
proof (induction xs arbitrary: ys)
  case (Cons x xs)
  then show ?case by (cases ys) auto
qed simp

lemma zip_concat_parts:
  assumes "(r, x) \<in> set (zip (concat cs) (concat (map f cs)))" "\<And>c. length (f c) = length c"
  shows "\<exists>c \<in> set cs. \<exists>j < length c. c ! j = r \<and> f c ! j = x"
  using assms(1)
proof (induction cs)
  case (Cons c cs)
  then have "(r, x) \<in> set (zip c (f c)) \<or> (r, x) \<in> set (zip (concat cs) (concat (map f cs)))" by (simp add: assms(2))
  then show ?case using Cons.IH assms(2) by (auto simp: in_set_zip)
qed simp

lemma queueURL_error: "snd (queueURL api s q) = Inl e \<Longrightarrow> e \<noteq> None"
  by (auto simp: queueURL_def Wrap_def split: option.splits sum.splits)

lemma map_of_perm:
  assumes "mset gs' = mset gs" "distinct (map fst gs)"
  shows "distinct (map fst gs')" "set gs' = set gs"
proof -
  have "mset (map fst gs') = mset (map fst gs)" using assms(1) by simp
  then show "distinct (map fst gs')" using assms(2) mset_eq_imp_distinct_iff by blast
  show "set gs' = set gs" using assms(1) by (rule mset_eq_setD)
qed

lemma sqs_Send_queues:
  assumes "\<forall>gs. mset (order gs) = mset gs" "sqs_Send Quote api order s recs = (s', res)"
  shows "length res = length recs"
    "\<And>i e. i < length recs \<Longrightarrow> route Quote s (recs ! i) = Inl e \<Longrightarrow> res ! i = Some e"
    "map ((!) res) (positions Quote s recs q) = map snd (snd (sendQueue api s recs q (positions Quote s recs q)))"
proof -
  obtain res0 gs where g: "group_records Quote s (enumerate 0 recs) (replicate (length recs) None) [] = (res0, gs)" by fastforce
  have in_range: "\<forall>ir \<in> set (enumerate 0 recs). fst ir < length (replicate (length recs) (None :: error option))"
    by (auto simp: in_set_enumerate_eq)
  note gr = group_records_groups [OF g, simplified]
  note rr = group_records_results [OF g, simplified, OF in_range [simplified]]
  have out: "res = snd (send_groups api recs (order gs) s res0)" using assms(2) g by (simp add: sqs_Send_def)
  have idx: "idx = positions Quote s recs q" if "(q, idx) \<in> set gs" for q idx
  proof -
    have "map_of gs q = Some idx" by (rule map_of_is_SomeI) (use gr [of q] that in auto)
    then have "idx_of gs q = idx" by (simp add: idx_of_def)
    then show ?thesis using gr [of q] by (auto simp: positions_def idx_of_def [of "[]"])
  qed
  have ord: "distinct (map fst (order gs))" "set (order gs) = set gs"
    using map_of_perm [of "order gs" gs] assms(1) gr by auto
  have "length res = length recs
    \<and> (\<forall>(q, idx) \<in> set (order gs). map ((!) res) idx = map snd (snd (sendQueue api s recs q idx)))
    \<and> (\<forall>i. (\<forall>q \<in> fst ` set (order gs). route Quote s (recs ! i) \<noteq> Inr q) \<longrightarrow> res ! i = res0 ! i)"
    unfolding out by (rule send_groups_results) (use ord idx rr in auto)
  then have all: "length res = length recs" "\<And>q idx. (q, idx) \<in> set gs \<Longrightarrow> map ((!) res) idx = map snd (snd (sendQueue api s recs q idx))"
    "\<And>i. \<forall>q \<in> fst ` set gs. route Quote s (recs ! i) \<noteq> Inr q \<Longrightarrow> res ! i = res0 ! i" by (auto simp: ord(2))
  show "length res = length recs" by (rule all(1))
  show "res ! i = Some e" if "i < length recs" "route Quote s (recs ! i) = Inl e" for i e
  proof -
    have "(i, recs ! i) \<in> set (enumerate 0 recs)" using that(1) by (simp add: in_set_enumerate_eq)
    then have "res0 ! i = Some e" using rr that(2) by fastforce
    then show ?thesis using all(3) [of i] that(2) by simp
  qed
  show "map ((!) res) (positions Quote s recs q) = map snd (snd (sendQueue api s recs q (positions Quote s recs q)))"
  proof (cases "q \<in> fst ` set gs")
    case True
    then obtain idx where "(q, idx) \<in> set gs" by auto
    then show ?thesis using all(2) idx by blast
  next
    case False
    then have "positions Quote s recs q = []" using gr [of q] by (auto simp: positions_def filter_empty_conv)
    then show ?thesis using sendQueue_writes(1) [of api s recs q "[]"] by (cases "sendQueue api s recs q []") auto
  qed
qed

lemma sqs_Send_queue_results:
  assumes "\<forall>gs. mset (order gs) = mset gs" "sqs_Send Quote api order s recs = (s', res)"
  shows "\<And>q e i. i < length recs \<Longrightarrow> snd (queueURL api s q) = Inl e \<Longrightarrow> route Quote s (recs ! i) = Inr q \<Longrightarrow> res ! i = e"
    "\<And>q url. snd (queueURL api s q) = Inr url \<Longrightarrow>
      map snd (filter (\<lambda>(r, x). route Quote s r = Inr q) (zip recs res)) =
      concat (map (sendBatch api url (HasSuffix q fifoSuffix)) (chunks maxBatch (filter (\<lambda>r. route Quote s r = Inr q) recs)))"
proof -
  note S = sqs_Send_queues [OF assms]
  have W: "\<exists>s'' ws. sendQueue api s recs q idx = (s'', ws)" for q idx by fastforce
  fix q
  obtain s'' ws where sq: "sendQueue api s recs q (positions Quote s recs q) = (s'', ws)" using W by blast
  {
    fix e i assume that: "i < length recs" "snd (queueURL api s q) = Inl e" "route Quote s (recs ! i) = Inr q"
    have "map ((!) res) (positions Quote s recs q) = map (\<lambda>_. e) (positions Quote s recs q)"
      using S(3) [of q] sendQueue_writes(2) [OF sq that(2)] sq by simp
    moreover have "i \<in> set (positions Quote s recs q)" using that by (simp add: set_positions)
    ultimately show "res ! i = e" by simp
  next
    fix url assume "snd (queueURL api s q) = Inr url"
    from sendQueue_writes(3) [OF sq this] show "map snd (filter (\<lambda>(r, x). route Quote s r = Inr q) (zip recs res)) =
      concat (map (sendBatch api url (HasSuffix q fifoSuffix)) (chunks maxBatch (filter (\<lambda>r. route Quote s r = Inr q) recs)))"
      using S(3) [of q] pick_positions [OF S(1)] sq by (simp add: records_at_positions)
  }
qed

text \<open>The position of a record in its batch.\<close>

lemma batch_of_record:
  assumes "i < length recs" "length res = length recs" "route Quote s (recs ! i) = Inr q"
    and "map snd (filter (\<lambda>(r, x). route Quote s r = Inr q) (zip recs res)) =
      concat (map (sendBatch api url fifo) (chunks maxBatch (filter (\<lambda>r. route Quote s r = Inr q) recs)))"
  shows "\<exists>batch \<in> set (chunks maxBatch (filter (\<lambda>r. route Quote s r = Inr q) recs)). \<exists>j < length batch.
    batch ! j = recs ! i \<and> sendBatch api url fifo batch ! j = res ! i"
proof -
  let ?rs = "filter (\<lambda>r. route Quote s r = Inr q) recs"
  have "(recs ! i, res ! i) \<in> set (filter (\<lambda>(r, x). route Quote s r = Inr q) (zip recs res))"
    using assms(1-3) by (auto simp: in_set_zip)
  then have "(recs ! i, res ! i) \<in> set (zip ?rs (concat (map (sendBatch api url fifo) (chunks maxBatch ?rs))))"
    unfolding assms(4) [symmetric] zip_filter_snd [OF assms(2)] .
  then have "(recs ! i, res ! i) \<in> set (zip (concat (chunks maxBatch ?rs)) (concat (map (sendBatch api url fifo) (chunks maxBatch ?rs))))"
    by (simp add: concat_chunks maxBatch_def)
  then show ?thesis by (rule zip_concat_parts) simp
qed

section \<open>Object keys\<close>

lemma s3_key_default:
  "template s = DefaultKeyTemplate \<Longrightarrow> \<exists>dir. s3_key s rec = dir @ RecordID rec"
  by (simp add: s3_key_def DefaultKeyTemplate_def HasPrefix_def split: prod.splits)

text \<open>
  A template in which text of the client stands on both sides of the id does not keep keys
  apart: two ids that each occur as the other record's tenant or key give one object key.
\<close>

lemma s3_key_collision:
  assumes "Tenant r1 = RecordID r2" "RecordKey r1 = []" "Tenant r2 = []" "RecordKey r2 = RecordID r1"
  shows "s3_key \<lparr>bucket = b, template = ''{key}{id}{tenant}''\<rparr> r1 = s3_key \<lparr>bucket = b, template = ''{key}{id}{tenant}''\<rparr> r2"
  using assms by (simp add: s3_key_def HasPrefix_def split: prod.splits)

section \<open>Properties\<close>

text \<open>
  C23. A failing queue fails only its own records, and a record is reported as sent only when
  SQS acknowledged it.  In whatever order the queues are served, there is one result per
  record.  A record without a queue gets its routing error.  The records of a queue whose
  URL cannot be resolved get that error.  The results of the records of any other queue are
  exactly the results of its batches of at most ten, in the order of the records, whatever
  happens to other queues.  A nil result means that the request with the record at some
  position succeeded and SQS listed that position as successful and not as failed.
\<close>

theorem sqs_Send_results:
  assumes "\<forall>gs. mset (order gs) = mset gs" "sqs_Send Quote api order s recs = (s', res)"
  shows "length res = length recs
    \<and> (\<forall>i e. i < length recs \<longrightarrow> route Quote s (recs ! i) = Inl e \<longrightarrow> res ! i = Some e)
    \<and> (\<forall>q e i. i < length recs \<longrightarrow> snd (queueURL api s q) = Inl e \<longrightarrow> route Quote s (recs ! i) = Inr q \<longrightarrow> res ! i = e)
    \<and> (\<forall>q url. snd (queueURL api s q) = Inr url \<longrightarrow>
         map snd (filter (\<lambda>(r, x). route Quote s r = Inr q) (zip recs res)) =
         concat (map (sendBatch api url (HasSuffix q fifoSuffix)) (chunks maxBatch (filter (\<lambda>r. route Quote s r = Inr q) recs))))
    \<and> (\<forall>i < length recs. res ! i = None \<longrightarrow>
         (\<exists>q url batch j out. route Quote s (recs ! i) = Inr q \<and> snd (queueURL api s q) = Inr url
            \<and> j < length batch \<and> length batch \<le> 10 \<and> batch ! j = recs ! i \<and> acknowledged out (length batch) j
            \<and> SendMessageBatch api url (map (\<lambda>(i, rec). batch_entry (HasSuffix q fifoSuffix) i rec) (enumerate 0 batch)) = Inr out))"
proof -
  note S = sqs_Send_queues [OF assms] and R = sqs_Send_queue_results [OF assms]
  have ack: "\<exists>q url batch j out. route Quote s (recs ! i) = Inr q \<and> snd (queueURL api s q) = Inr url
      \<and> j < length batch \<and> length batch \<le> 10 \<and> batch ! j = recs ! i \<and> acknowledged out (length batch) j
      \<and> SendMessageBatch api url (map (\<lambda>(i, rec). batch_entry (HasSuffix q fifoSuffix) i rec) (enumerate 0 batch)) = Inr out"
    if i: "i < length recs" "res ! i = None" for i
  proof -
    obtain q where q: "route Quote s (recs ! i) = Inr q" using S(2) [OF i(1)] i(2) by (cases "route Quote s (recs ! i)") auto
    obtain url where url: "snd (queueURL api s q) = Inr url"
      using R(1) [OF i(1) _ q] queueURL_error [of api s q] i(2) by (cases "snd (queueURL api s q)") auto
    obtain batch j where b: "batch \<in> set (chunks maxBatch (filter (\<lambda>r. route Quote s r = Inr q) recs))" "j < length batch"
      "batch ! j = recs ! i" "sendBatch api url (HasSuffix q fifoSuffix) batch ! j = None"
      using batch_of_record [OF i(1) S(1) q R(2) [OF url]] i(2) by auto
    then show ?thesis using q url length_chunks [OF b(1)] sendBatch_nil_iff [OF b(2), of api url "HasSuffix q fifoSuffix"]
      unfolding maxBatch_def by blast
  qed
  show ?thesis using S(1,2) R ack by blast
qed

definition demo_api :: sqs_API where
  "demo_api = \<lparr>GetQueueUrl = \<lambda>q. Inr (Some q),
     SendMessageBatch = \<lambda>url es. Inr \<lparr>Successful = map (\<lambda>e. Some (entry_Id e)) es, Failed = []\<rparr>\<rparr>"

definition demo_sink :: sqs_Sink where
  "demo_sink = \<lparr>routes = Map.empty, urls = Map.empty, queue = ''mail''\<rparr>"

theorem sqs_Send_results_witness:
  "length (snd (sqs_Send (\<lambda>s. s) demo_api (\<lambda>gs. gs) demo_sink [demo_record])) = 1"
  using sqs_Send_results [of "\<lambda>gs. gs" "\<lambda>s. s" demo_api demo_sink "[demo_record]"]
  by (cases "sqs_Send (\<lambda>s. s) demo_api (\<lambda>gs. gs) demo_sink [demo_record]") auto

text \<open>
  Under the default template object keys are unique: a sink built without a template
  gives two records with different ids different keys, whatever their tenants and dates, so
  no record overwrites another's object.
\<close>

lemma s3_default_keys_unique:
  assumes "s3_New True b [] = Inr s" "length (RecordID r1) = 36" "length (RecordID r2) = 36" "RecordID r1 \<noteq> RecordID r2"
  shows "put_Key (s3_input sha256 s r1) \<noteq> put_Key (s3_input sha256 s r2)"
proof -
  have "template s = DefaultKeyTemplate" using assms(1) by (auto simp: s3_New_def split: if_splits)
  from s3_key_default [OF this, of r1] s3_key_default [OF this, of r2] obtain d1 d2
    where "s3_key s r1 = d1 @ RecordID r1" "s3_key s r2 = d2 @ RecordID r2" by blast
  then show ?thesis using assms(2-4) by (auto simp: s3_input_def Let_def)
qed

end
