(* ===== verification/Execution.thy ===== *)
theory Execution
  imports App_Errors
begin

text \<open>
  The execution engine: step results (\<^verbatim>\<open>core/types/step_result.go\<close>), fan-out, job groups and steps
  (\<^verbatim>\<open>execution/engine\<close>), jobs (\<^verbatim>\<open>execution/job\<close>) and gates (\<^verbatim>\<open>execution/gate/gate.go\<close>).  Commands, the
  discovery of work items and the clock are arguments.  What concurrency leaves open is an
  argument too: how many units get a worker before the context ends, the order of live
  deliveries, the order in which jobs finish and the interleaving of their observer calls.
  The result of a gate run is the trace of observer calls with the returned error.
\<close>

section \<open>Step results (step\_result.go)\<close>

datatype StepStatus = StatusPass | StatusFail | StatusSkip | StatusWarn

fun status_text :: "StepStatus \<Rightarrow> string" where
  "status_text StatusPass = ''PASS''"
| "status_text StatusFail = ''FAIL''"
| "status_text StatusSkip = ''SKIP''"
| "status_text StatusWarn = ''WARN''"

datatype StepResult =
  StepResult (step_Name: string) (step_Group: string) (step_Error: string) (step_Detail: string)
    (step_Children: "StepResult list") (step_Status: StepStatus) (step_Duration: int) (step_Tests: int)

fun with_status :: "StepStatus \<Rightarrow> StepResult \<Rightarrow> StepResult" where
  "with_status s (StepResult n g e d c _ t k) = StepResult n g e d c s t k"

fun with_duration :: "int \<Rightarrow> StepResult \<Rightarrow> StepResult" where
  "with_duration t (StepResult n g e d c s _ k) = StepResult n g e d c s t k"

definition HasFailures :: "StepResult list \<Rightarrow> bool" where
  "HasFailures rs = list_ex (\<lambda>r. step_Status r = StatusFail) rs"

definition AllPassed :: "StepResult list \<Rightarrow> bool" where
  "AllPassed rs = list_all (\<lambda>r. step_Status r = StatusPass) rs"

definition CountByStatus :: "StepResult list \<Rightarrow> StepStatus \<Rightarrow> nat" where
  "CountByStatus rs s = length (filter (\<lambda>r. step_Status r = s) rs)"

definition FailedNames :: "StepResult list \<Rightarrow> string list" where
  "FailedNames rs = map step_Name (filter (\<lambda>r. step_Status r = StatusFail) rs)"

section \<open>Steps (engine/step.go)\<close>

text \<open>\<open>fn\<close> is the step function: its error.  \<open>elapsed\<close> is the measured time.\<close>

definition funcStep_Execute :: "string \<Rightarrow> string \<Rightarrow> error option \<Rightarrow> int \<Rightarrow> StepResult" where
  "funcStep_Execute name grp err elapsed =
     (case err of
        None \<Rightarrow> StepResult name grp [] [] [] StatusPass elapsed 0
      | Some e \<Rightarrow>
          StepResult name grp
            (case as_app_error err of
               Some _ \<Rightarrow> error_text e
             | None \<Rightarrow> error_text (AppError CodeInternal (name @ '' failed'') [] (Some e)))
            [] [] StatusFail elapsed 0)"

definition downgrade :: "StepResult \<Rightarrow> StepResult" where
  "downgrade r = (if step_Status r = StatusFail then with_status StatusWarn r else r)"

definition NewStep :: "string \<Rightarrow> string \<Rightarrow> bool \<Rightarrow> error option \<Rightarrow> int \<Rightarrow> StepResult" where
  "NewStep name grp warn_only err elapsed =
     (let r = funcStep_Execute name grp err elapsed in if warn_only then downgrade r else r)"

section \<open>Fan-out (engine/fan\_out.go)\<close>

text \<open>
  \<open>ctx_cause\<close> is \<^verbatim>\<open>ctx.Err()\<close> once the context has ended, and \<open>spawned\<close> how many units held a worker
  slot before that (all of them when it does not end).  \<open>wait_ends n\<close> says that the context
  ends in the pause before attempt \<open>n\<close>.
\<close>

record exec_ctx =
  ctx_cause :: error
  spawned :: nat
  delivery :: "StepResult list \<Rightarrow> StepResult list"
  unit_elapsed :: "nat \<Rightarrow> int"
  wait_ends :: "nat \<Rightarrow> bool"
  debug_stack :: string

fun unit_result :: "exec_ctx \<Rightarrow> nat \<Rightarrow> StepResult outcome \<Rightarrow> StepResult" where
  "unit_result C i (Panic _) = StepResult [] [] ''panic recovered'' (debug_stack C) [] StatusFail (unit_elapsed C i) 0"
| "unit_result C i (Return r) = (if step_Duration r = 0 then with_duration (unit_elapsed C i) r else r)"

definition cancel_result :: "exec_ctx \<Rightarrow> StepResult" where
  "cancel_result C = StepResult [] [] (error_text (ctx_cause C)) [] [] StatusFail 0 0"

text \<open>The live deliveries and the results.\<close>

definition FanOut ::
  "exec_ctx \<Rightarrow> 'a list \<Rightarrow> ('a \<Rightarrow> StepResult outcome) \<Rightarrow> StepResult list \<times> StepResult list" where
  "FanOut C items fn =
     (let results = map (\<lambda>(i, it). if i < spawned C then unit_result C i (fn it) else cancel_result C) (enumerate 0 items)
      in (delivery C results, results))"

section \<open>Jobs (execution/job)\<close>

record JobMeta =
  meta_Name :: string
  meta_Group :: string
  meta_Tool :: string

record WorkUnit =
  wu_Name :: string
  wu_Dir :: string
  wu_Exe :: string
  wu_Args :: "string list"

text \<open>\<open>Run\<close> takes the number of the attempt, so that a command can fail and then succeed.\<close>

record CommandRunner =
  Run :: "string \<Rightarrow> string \<Rightarrow> string list \<Rightarrow> nat \<Rightarrow> error option outcome"
  RequireTool :: "string \<Rightarrow> string \<Rightarrow> error option"

record ToolSpec =
  Binary :: string
  InstallHint :: string

record JobConfig =
  Retry :: int
  RetryDelay :: int
  WarnOnly :: bool

record 't Job =
  discoverer :: "string \<Rightarrow> error + 't list"
  tool :: "ToolSpec option"
  mapper :: "string \<Rightarrow> 't \<Rightarrow> WorkUnit"
  job_name :: string
  job_group :: string
  job_config :: JobConfig

type_synonym job_run = "StepResult list \<times> (StepResult list \<times> error option) outcome"

record AnyJob =
  Meta :: JobMeta
  Execute :: "exec_ctx \<Rightarrow> CommandRunner \<Rightarrow> string \<Rightarrow> job_run"

fun retry_loop ::
  "(nat \<Rightarrow> error option outcome) \<Rightarrow> exec_ctx \<Rightarrow> int \<Rightarrow> int \<Rightarrow> nat \<Rightarrow> nat \<Rightarrow> error option \<Rightarrow> error option outcome" where
  "retry_loop fn C maxRetries delay 0 attempt last_err =
     Return (Wrap last_err CodeInternal (''failed after '' @ Itoa (maxRetries + 1) @ '' attempt(s)''))"
| "retry_loop fn C maxRetries delay (Suc n) attempt last_err =
     (if attempt > 0 \<and> delay > 0 \<and> wait_ends C attempt
      then Return (Wrap (Some (ctx_cause C)) (ContextCode (Some (ctx_cause C)) CodeCanceled) ''retry wait canceled'')
      else case fn attempt of
             Panic v \<Rightarrow> Panic v
           | Return None \<Rightarrow> Return None
           | Return (Some e) \<Rightarrow> retry_loop fn C maxRetries delay n (Suc attempt) (Some e))"

definition retryDo :: "exec_ctx \<Rightarrow> (nat \<Rightarrow> error option outcome) \<Rightarrow> int \<Rightarrow> int \<Rightarrow> error option outcome" where
  "retryDo C fn maxRetries delay = retry_loop fn C maxRetries delay (nat (maxRetries + 1)) 0 None"

definition job_Meta :: "'t Job \<Rightarrow> JobMeta" where
  "job_Meta j = \<lparr>meta_Name = job_name j, meta_Group = job_group j,
     meta_Tool = (case tool j of None \<Rightarrow> [] | Some t \<Rightarrow> Binary t)\<rparr>"

definition run_unit :: "exec_ctx \<Rightarrow> CommandRunner \<Rightarrow> JobConfig \<Rightarrow> WorkUnit \<Rightarrow> StepResult outcome" where
  "run_unit C runner cfg wu =
     (let once = Run runner (wu_Dir wu) (wu_Exe wu) (wu_Args wu)
      in case (if Retry cfg > 0 then retryDo C once (Retry cfg) (RetryDelay cfg) else once 0) of
           Panic v \<Rightarrow> Panic v
         | Return None \<Rightarrow> Return (StepResult (wu_Name wu) [] [] [] [] StatusPass 0 0)
         | Return (Some e) \<Rightarrow> Return (StepResult (wu_Name wu) [] (error_text e) [] [] StatusFail 0 0))"

definition skip_result :: "string \<Rightarrow> string \<Rightarrow> StepResult" where
  "skip_result name err = StepResult name [] err [] [] StatusSkip 0 0"

definition job_Execute :: "'t Job \<Rightarrow> exec_ctx \<Rightarrow> CommandRunner \<Rightarrow> string \<Rightarrow> job_run" where
  "job_Execute j C runner root =
     (case (case tool j of
              Some t \<Rightarrow> if Binary t \<noteq> [] then RequireTool runner (Binary t) (InstallHint t) else None
            | None \<Rightarrow> None) of
        Some err \<Rightarrow> ([], Return ([skip_result (job_name j) (error_text err)], None))
      | None \<Rightarrow>
          (case discoverer j root of
             Inl err \<Rightarrow> ([], Return ([], Some err))
           | Inr items \<Rightarrow>
               if items = [] then ([], Return ([skip_result (job_name j) []], None))
               else case FanOut C (map (mapper j root) items) (run_unit C runner (job_config j)) of
                 (live, results) \<Rightarrow>
                   (live, Return (if WarnOnly (job_config j) then map downgrade results else results, None))))"

definition job_Build :: "'t Job \<Rightarrow> AnyJob" where
  "job_Build j = \<lparr>Meta = job_Meta j, Execute = job_Execute j\<rparr>"

definition When :: "AnyJob \<Rightarrow> (string \<Rightarrow> bool) \<Rightarrow> AnyJob" where
  "When inner condition =
     \<lparr>Meta = Meta inner,
      Execute = (\<lambda>C runner root. if condition root then Execute inner C runner root
                  else ([], Return ([skip_result (meta_Name (Meta inner)) []], None)))\<rparr>"

text \<open>A \<^verbatim>\<open>Runnable\<close>: it delivers nothing live and takes no runner.\<close>

definition Adapt :: "JobMeta \<Rightarrow> (StepResult list \<times> error option) outcome \<Rightarrow> AnyJob" where
  "Adapt meta run = \<lparr>Meta = meta, Execute = (\<lambda>C runner root. ([], run))\<rparr>"

text \<open>\<open>Quote\<close> is the \<^verbatim>\<open>%q\<close> verb.\<close>

definition recoveryJob :: "(string \<Rightarrow> string) \<Rightarrow> AnyJob \<Rightarrow> AnyJob" where
  "recoveryJob Quote inner =
     \<lparr>Meta = Meta inner,
      Execute = (\<lambda>C runner root.
        case Execute inner C runner root of
          (live, Return r) \<Rightarrow> (live, Return r)
        | (live, Panic v) \<Rightarrow>
            (let err = New CodeInternal (''job '' @ Quote (meta_Name (Meta inner)) @ '' panicked: '' @ v)
             in (live, Return ([StepResult (meta_Name (Meta inner)) (meta_Group (Meta inner)) (error_text err) [] []
                                  StatusFail 0 0], Some err))))\<rparr>"

datatype LangTag = LangGo | LangPython | LangTS | LangInfra | LangOther string

fun FilterByLang :: "(LangTag \<times> 'j) list \<Rightarrow> bool \<Rightarrow> bool \<Rightarrow> bool \<Rightarrow> 'j list" where
  "FilterByLang [] goFlag pyFlag tsFlag = []"
| "FilterByLang ((lang, j) # js) goFlag pyFlag tsFlag =
     (if (case lang of LangGo \<Rightarrow> goFlag | LangPython \<Rightarrow> pyFlag | LangTS \<Rightarrow> tsFlag | LangInfra \<Rightarrow> True | LangOther _ \<Rightarrow> False)
      then j # FilterByLang js goFlag pyFlag tsFlag else FilterByLang js goFlag pyFlag tsFlag)"

section \<open>Job groups (engine/run.go)\<close>

datatype event =
    OnGateStart string "string list"
  | OnPhaseStart string "string list"
  | OnStepComplete StepResult
  | OnPhaseComplete string "StepResult list" int
  | OnGateComplete string "StepResult list" int

text \<open>
  The observer calls of concurrent jobs interleave: the schedule says whose call comes next;
  when it ends, the rest follow job by job.
\<close>

fun interleave :: "nat list \<Rightarrow> 'a list list \<Rightarrow> 'a list" where
  "interleave [] qs = concat qs"
| "interleave (i # is) qs =
     (if i < length qs then
        case qs ! i of [] \<Rightarrow> interleave is qs | x # xs \<Rightarrow> x # interleave is (qs[i := xs])
      else interleave is qs)"

text \<open>\<open>finish\<close> puts the results of the jobs in the order in which they are appended.\<close>

record group_env =
  job_ctx :: "nat \<Rightarrow> exec_ctx"
  job_elapsed :: "nat \<Rightarrow> int"
  finish :: "StepResult list list \<Rightarrow> StepResult list list"
  schedule :: "nat list"

definition stamp :: "int \<Rightarrow> StepResult \<Rightarrow> StepResult" where
  "stamp elapsed r = (if step_Duration r = 0 then with_duration elapsed r else r)"

text \<open>The results of one job and its observer calls: those delivered live, then the others.\<close>

definition run_job ::
  "group_env \<Rightarrow> CommandRunner \<Rightarrow> string \<Rightarrow> nat \<Rightarrow> AnyJob \<Rightarrow> (StepResult list \<times> StepResult list) outcome" where
  "run_job G runner root i job =
     (case Execute job (job_ctx G i) runner root of
        (live, Panic v) \<Rightarrow> Panic v
      | (live, Return (sr, err)) \<Rightarrow>
          (let sr = (case err of
                       None \<Rightarrow> sr
                     | Some e \<Rightarrow> [StepResult (meta_Name (Meta job)) [] (error_text e) [] [] StatusFail 0 0]);
               sr = map (stamp (job_elapsed G i)) sr
           in Return (sr, live @ (if length live < length sr then drop (length live) sr else []))))"

fun run_jobs ::
  "group_env \<Rightarrow> CommandRunner \<Rightarrow> string \<Rightarrow> (nat \<times> AnyJob) list \<Rightarrow> (StepResult list \<times> StepResult list) list outcome" where
  "run_jobs G runner root [] = Return []"
| "run_jobs G runner root ((i, job) # js) =
     (case run_job G runner root i job of
        Panic v \<Rightarrow> Panic v
      | Return x \<Rightarrow> (case run_jobs G runner root js of Panic v \<Rightarrow> Panic v | Return xs \<Rightarrow> Return (x # xs)))"

definition RunJobGroup ::
  "group_env \<Rightarrow> CommandRunner \<Rightarrow> string \<Rightarrow> AnyJob list \<Rightarrow> (event list \<times> StepResult list) outcome" where
  "RunJobGroup G runner root jobs =
     (case run_jobs G runner root (enumerate 0 jobs) of
        Panic v \<Rightarrow> Panic v
      | Return runs \<Rightarrow>
          Return (map OnStepComplete (interleave (schedule G) (map snd runs)), concat (finish G (map fst runs))))"

section \<open>Gates (gate.go)\<close>

record Phase =
  Phase_Name :: string
  Phase_Jobs :: "AnyJob list"
  parallel :: bool

record Gate =
  gate_name :: string
  gate_phases :: "Phase list"
  stopOnFailure :: bool

record gate_env =
  phase_env :: "nat \<Rightarrow> nat \<Rightarrow> group_env"
  phase_elapsed :: "nat \<Rightarrow> int"
  gate_elapsed :: int

definition NewGate :: "string \<Rightarrow> Gate" where
  "NewGate name = \<lparr>gate_name = name, gate_phases = [], stopOnFailure = False\<rparr>"

definition Parallel :: "string \<Rightarrow> AnyJob list \<Rightarrow> Gate \<Rightarrow> Gate" where
  "Parallel name jobs b = b\<lparr>gate_phases := gate_phases b @ [\<lparr>Phase_Name = name, Phase_Jobs = jobs, parallel = True\<rparr>]\<rparr>"

definition Serial :: "string \<Rightarrow> AnyJob list \<Rightarrow> Gate \<Rightarrow> Gate" where
  "Serial name jobs b = b\<lparr>gate_phases := gate_phases b @ [\<lparr>Phase_Name = name, Phase_Jobs = jobs, parallel = False\<rparr>]\<rparr>"

definition StopOnFailure :: "Gate \<Rightarrow> Gate" where
  "StopOnFailure b = b\<lparr>stopOnFailure := True\<rparr>"

fun run_serial ::
  "(nat \<Rightarrow> group_env) \<Rightarrow> CommandRunner \<Rightarrow> string \<Rightarrow> (nat \<times> AnyJob) list \<Rightarrow> (event list \<times> StepResult list) outcome" where
  "run_serial E runner root [] = Return ([], [])"
| "run_serial E runner root ((i, job) # js) =
     (case RunJobGroup (E i) runner root [job] of
        Panic v \<Rightarrow> Panic v
      | Return (evs, sr) \<Rightarrow>
          if HasFailures sr then Return (evs, sr)
          else case run_serial E runner root js of
                 Panic v \<Rightarrow> Panic v
               | Return (evs', sr') \<Rightarrow> Return (evs @ evs', sr @ sr'))"

definition runPhase ::
  "gate_env \<Rightarrow> CommandRunner \<Rightarrow> string \<Rightarrow> nat \<Rightarrow> Phase \<Rightarrow> (event list \<times> StepResult list) outcome" where
  "runPhase E runner root i phase =
     (case (if parallel phase then RunJobGroup (phase_env E i 0) runner root (Phase_Jobs phase)
            else run_serial (phase_env E i) runner root (enumerate 0 (Phase_Jobs phase))) of
        Panic v \<Rightarrow> Panic v
      | Return (evs, results) \<Rightarrow>
          Return (OnPhaseStart (Phase_Name phase) (map (\<lambda>j. meta_Name (Meta j)) (Phase_Jobs phase)) # evs
                    @ [OnPhaseComplete (Phase_Name phase) results (phase_elapsed E i)], results))"

definition phaseFailureError :: "string \<Rightarrow> StepResult list \<Rightarrow> error option" where
  "phaseFailureError phaseName results =
     (let errs = map (\<lambda>r. Some (New CodeQualityFailed (step_Name r @ '': '' @ step_Error r)))
                   (filter (\<lambda>r. step_Status r = StatusFail \<and> step_Error r \<noteq> []) results)
      in if errs = [] then Some (New CodeQualityFailed (''phase '' @ phaseName @ '' failed''))
         else Wrap (Join errs) CodeQualityFailed (''phase '' @ phaseName @ '' failed''))"

fun run_phases ::
  "gate_env \<Rightarrow> CommandRunner \<Rightarrow> string \<Rightarrow> bool \<Rightarrow> (nat \<times> Phase) list \<Rightarrow> StepResult list \<Rightarrow> error option
     \<Rightarrow> (event list \<times> StepResult list \<times> error option) outcome" where
  "run_phases E runner root stop [] all gateErr = Return ([], all, gateErr)"
| "run_phases E runner root stop ((i, phase) # ps) all gateErr =
     (case runPhase E runner root i phase of
        Panic v \<Rightarrow> Panic v
      | Return (evs, results) \<Rightarrow>
          (let all' = all @ results;
               gateErr' = (if HasFailures results
                           then Join [gateErr, phaseFailureError (Phase_Name phase) results] else gateErr)
           in if HasFailures results \<and> stop then Return (evs, all', gateErr')
              else case run_phases E runner root stop ps all' gateErr' of
                     Panic v \<Rightarrow> Panic v
                   | Return (evs', r) \<Rightarrow> Return (evs @ evs', r)))"

definition RunGate :: "gate_env \<Rightarrow> CommandRunner \<Rightarrow> string \<Rightarrow> Gate \<Rightarrow> (event list \<times> error option) outcome" where
  "RunGate E runner root g =
     (case run_phases E runner root (stopOnFailure g) (enumerate 0 (gate_phases g)) [] None of
        Panic v \<Rightarrow> Panic v
      | Return (evs, all, gateErr) \<Rightarrow>
          Return (OnGateStart (gate_name g) (map Phase_Name (gate_phases g)) # evs
                    @ [OnGateComplete (gate_name g) all (gate_elapsed E)],
                  Wrap gateErr CodeQualityFailed (''gate '' @ gate_name g @ '' failed'')))"


section \<open>Traces\<close>

text \<open>What an observer saw: the phases started, the phase reports, and the steps.\<close>

fun phase_starts :: "event list \<Rightarrow> string list" where
  "phase_starts [] = []"
| "phase_starts (OnPhaseStart n _ # es) = n # phase_starts es"
| "phase_starts (_ # es) = phase_starts es"

fun phase_reports :: "event list \<Rightarrow> (string \<times> StepResult list) list" where
  "phase_reports [] = []"
| "phase_reports (OnPhaseComplete n rs _ # es) = (n, rs) # phase_reports es"
| "phase_reports (_ # es) = phase_reports es"

fun observed_steps :: "event list \<Rightarrow> StepResult list" where
  "observed_steps [] = []"
| "observed_steps (OnStepComplete r # es) = r # observed_steps es"
| "observed_steps (_ # es) = observed_steps es"

lemma phase_starts_append [simp]: "phase_starts (xs @ ys) = phase_starts xs @ phase_starts ys"
  by (induction xs rule: phase_starts.induct) auto

lemma phase_reports_append [simp]: "phase_reports (xs @ ys) = phase_reports xs @ phase_reports ys"
  by (induction xs rule: phase_reports.induct) auto

lemma observed_steps_append [simp]: "observed_steps (xs @ ys) = observed_steps xs @ observed_steps ys"
  by (induction xs rule: observed_steps.induct) auto

lemma step_events [simp]:
  "phase_starts (map OnStepComplete rs) = []" "phase_reports (map OnStepComplete rs) = []"
  "observed_steps (map OnStepComplete rs) = rs"
  by (induction rs) auto

lemma HasFailures_append [simp]: "HasFailures (xs @ ys) \<longleftrightarrow> HasFailures xs \<or> HasFailures ys"
  by (simp add: HasFailures_def)

lemma HasFailures_Nil [simp]: "\<not> HasFailures []"
  by (simp add: HasFailures_def)

lemma RunJobGroup_trace:
  assumes "RunJobGroup G runner root jobs = Return (evs, rs)"
  shows "phase_starts evs = [] \<and> phase_reports evs = []"
  using assms by (auto simp: RunJobGroup_def split: outcome.splits)

lemma run_serial_trace:
  "run_serial E runner root js = Return (evs, rs) \<Longrightarrow> phase_starts evs = [] \<and> phase_reports evs = []"
proof (induction E runner root js arbitrary: evs rs rule: run_serial.induct)
  case (2 E runner root i job js)
  then show ?case by (auto dest!: RunJobGroup_trace split: outcome.splits prod.splits if_splits)
qed simp

lemma runPhase_trace:
  assumes "runPhase E runner root i phase = Return (evs, rs)"
  shows "phase_starts evs = [Phase_Name phase]" "phase_reports evs = [(Phase_Name phase, rs)]"
  using assms RunJobGroup_trace run_serial_trace
  by (fastforce simp: runPhase_def split: outcome.splits prod.splits if_splits)+

lemma Join_not_nil: "e \<noteq> None \<Longrightarrow> Join [d, e] \<noteq> None"
  by (cases d) (auto simp: Join_def List.map_filter_def)

lemma phaseFailureError_not_nil: "phaseFailureError n rs \<noteq> None"
  by (auto simp: phaseFailureError_def Wrap_def Join_def List.map_filter_def Let_def split: option.splits)

lemma run_phases_trace:
  assumes "run_phases E runner root stop ps all gateErr = Return (evs, all', err)"
  shows "phase_starts evs = map fst (phase_reports evs)
    \<and> map fst (phase_reports evs) = take (length (phase_reports evs)) (map (\<lambda>p. Phase_Name (snd p)) ps)
    \<and> all' = all @ concat (map snd (phase_reports evs))
    \<and> (err = None \<longleftrightarrow> gateErr = None \<and> \<not> HasFailures (concat (map snd (phase_reports evs))))
    \<and> (if stop \<and> HasFailures (concat (map snd (phase_reports evs)))
       then HasFailures (snd (last (phase_reports evs))) \<and> list_all (\<lambda>p. \<not> HasFailures (snd p)) (butlast (phase_reports evs))
       else length (phase_reports evs) = length ps)"
  using assms
proof (induction E runner root stop ps all gateErr arbitrary: evs rule: run_phases.induct)
  case (2 E runner root stop i phase ps all gateErr)
  obtain pe rs where ph: "runPhase E runner root i phase = Return (pe, rs)"
    using "2.prems" by (auto split: outcome.splits)
  note t = runPhase_trace [OF ph]
  define gateErr' where "gateErr' = (if HasFailures rs then Join [gateErr, phaseFailureError (Phase_Name phase) rs] else gateErr)"
  have nil: "gateErr' = None \<longleftrightarrow> gateErr = None \<and> \<not> HasFailures rs"
    using Join_not_nil [OF phaseFailureError_not_nil] by (simp add: gateErr'_def)
  show ?case
  proof (cases "HasFailures rs \<and> stop")
    case True
    then have "evs = pe" "all' = all @ rs" "err = gateErr'" using "2.prems" ph by (simp_all add: gateErr'_def Let_def)
    then show ?thesis using True t nil by simp
  next
    case False
    then obtain evs' where rest: "run_phases E runner root stop ps (all @ rs) gateErr' = Return (evs', all', err)" "evs = pe @ evs'"
      using "2.prems" ph by (auto simp: gateErr'_def Let_def split: outcome.splits if_splits)
    have IH: "phase_starts evs' = map fst (phase_reports evs')
      \<and> map fst (phase_reports evs') = take (length (phase_reports evs')) (map (\<lambda>p. Phase_Name (snd p)) ps)
      \<and> all' = (all @ rs) @ concat (map snd (phase_reports evs'))
      \<and> (err = None \<longleftrightarrow> gateErr' = None \<and> \<not> HasFailures (concat (map snd (phase_reports evs'))))
      \<and> (if stop \<and> HasFailures (concat (map snd (phase_reports evs')))
         then HasFailures (snd (last (phase_reports evs'))) \<and> list_all (\<lambda>p. \<not> HasFailures (snd p)) (butlast (phase_reports evs'))
         else length (phase_reports evs') = length ps)"
      by (rule "2.IH" [OF ph refl refl]) (use False rest(1) in \<open>auto simp: gateErr'_def\<close>)
    show ?thesis
    proof (cases "phase_reports evs'")
      case Nil
      then show ?thesis using IH False rest(2) t nil by auto
    next
      case (Cons p reps)
      then show ?thesis using IH False rest(2) t nil by auto
    qed
  qed
qed simp


section \<open>Live deliveries\<close>

text \<open>A result up to its duration, which the group stamps after a live delivery.\<close>

abbreviation timeless :: "StepResult \<Rightarrow> StepResult" where
  "timeless \<equiv> with_duration 0"

definition ctx_ok :: "exec_ctx \<Rightarrow> bool" where
  "ctx_ok C \<longleftrightarrow> (\<forall>rs. mset (delivery C rs) = mset rs)"

definition group_ok :: "group_env \<Rightarrow> bool" where
  "group_ok G \<longleftrightarrow> (\<forall>i. ctx_ok (job_ctx G i)) \<and> (\<forall>rss. mset (finish G rss) = mset rss)"

text \<open>The contract of a job: what it delivers live is what it returns, or it delivers nothing.\<close>

definition delivers_results :: "AnyJob \<Rightarrow> bool" where
  "delivers_results job \<longleftrightarrow> (\<forall>C runner root. ctx_ok C \<longrightarrow>
     (case Execute job C runner root of
        (live, Panic _) \<Rightarrow> True
      | (live, Return (sr, None)) \<Rightarrow> live = [] \<or> mset (map timeless live) = mset (map timeless sr)
      | (live, Return (_, Some _)) \<Rightarrow> live = []))"

lemma timeless_with_duration [simp]: "timeless (with_duration t r) = timeless r"
  by (cases r) simp

lemma timeless_stamp [simp]: "timeless (stamp t r) = timeless r"
  by (simp add: stamp_def)

lemma timeless_stamps [simp]: "timeless \<circ> stamp t = timeless"
  by (simp add: fun_eq_iff)

lemma job_delivers_results: "\<not> WarnOnly (job_config j) \<Longrightarrow> delivers_results (job_Build j)"
  by (auto simp: delivers_results_def job_Build_def job_Execute_def FanOut_def ctx_ok_def Let_def
      simp del: mset_map intro!: arg_cong [of _ _ "image_mset timeless"] simp add: mset_map split: option.splits sum.splits)

lemma When_delivers_results: "delivers_results job \<Longrightarrow> delivers_results (When job c)"
  by (simp add: delivers_results_def When_def)

lemma Adapt_delivers_results: "delivers_results (Adapt m r)"
  by (auto simp: delivers_results_def Adapt_def split: outcome.splits option.splits)

lemma mset_concat_update:
  "i < length qs \<Longrightarrow> qs ! i = x # xs \<Longrightarrow> mset (concat qs) = add_mset x (mset (concat (qs[i := xs])))"
proof (induction qs arbitrary: i)
  case (Cons q qs)
  then show ?case by (cases i) auto
qed simp

lemma mset_interleave: "mset (interleave is qs) = mset (concat qs)"
proof (induction "is" qs rule: interleave.induct)
  case (2 i "is" qs)
  show ?case
  proof (cases "i < length qs")
    case True
    show ?thesis
    proof (cases "qs ! i")
      case (Cons x xs)
      then show ?thesis using True 2 mset_concat_update [OF True Cons] by simp
    qed (use True 2 in simp)
  qed (use 2 in simp)
qed simp

lemma run_job_observed:
  assumes "run_job G runner root i job = Return (sr, evs)" "delivers_results job" "ctx_ok (job_ctx G i)"
  shows "mset (map timeless evs) = mset (map timeless sr)"
proof -
  obtain live out where ex: "Execute job (job_ctx G i) runner root = (live, out)" by fastforce
  then obtain rs err where out: "out = Return (rs, err)" using assms(1) by (cases out) (auto simp: run_job_def)
  have law: "live = [] \<or> err = None \<and> mset (map timeless live) = mset (map timeless rs)"
    using assms(2) [unfolded delivers_results_def, rule_format, OF assms(3), of runner root] ex out
    by (cases err) auto
  show ?thesis
  proof (cases "live = []")
    case True
    then show ?thesis using assms(1) ex out by (auto simp: run_job_def Let_def)
  next
    case False
    then have l: "err = None" "mset (map timeless live) = mset (map timeless rs)" using law by auto
    from mset_eq_length [OF l(2)] have "length live = length rs" by simp
    then show ?thesis using assms(1) ex out l by (auto simp: run_job_def Let_def image_mset.compositionality)
  qed
qed

lemma run_jobs_observed:
  "run_jobs G runner root js = Return runs \<Longrightarrow> \<forall>(i, job) \<in> set js. delivers_results job \<Longrightarrow> group_ok G \<Longrightarrow>
    mset (map timeless (concat (map snd runs))) = mset (map timeless (concat (map fst runs)))"
proof (induction G runner root js arbitrary: runs rule: run_jobs.induct)
  case (2 G runner root i job js)
  then obtain sr evs xs where r: "run_job G runner root i job = Return (sr, evs)" "run_jobs G runner root js = Return xs"
    "runs = (sr, evs) # xs" by (auto split: outcome.splits)
  have "mset (map timeless evs) = mset (map timeless sr)"
    by (rule run_job_observed [OF r(1)]) (use "2.prems" in \<open>auto simp: group_ok_def\<close>)
  moreover have "mset (map timeless (concat (map snd xs))) = mset (map timeless (concat (map fst xs)))"
    by (rule "2.IH" [OF r(1) r(2)]) (use "2.prems" in auto)
  ultimately show ?case using r(3) by simp
qed simp

lemma RunJobGroup_observed:
  assumes "RunJobGroup G runner root jobs = Return (evs, rs)" "\<forall>job \<in> set jobs. delivers_results job" "group_ok G"
  shows "mset (map timeless (observed_steps evs)) = mset (map timeless rs)"
proof -
  obtain runs where r: "run_jobs G runner root (enumerate 0 jobs) = Return runs"
    "evs = map OnStepComplete (interleave (schedule G) (map snd runs))" "rs = concat (finish G (map fst runs))"
    using assms(1) by (auto simp: RunJobGroup_def split: outcome.splits)
  have "mset (map timeless (concat (map snd runs))) = mset (map timeless (concat (map fst runs)))"
    by (rule run_jobs_observed [OF r(1)]) (use assms(2,3) in \<open>auto dest: in_set_zipE simp: enumerate_eq_zip\<close>)
  moreover have "mset (concat (finish G (map fst runs))) = mset (concat (map fst runs))"
    by (rule mset_concat_perm) (use assms(3) in \<open>simp add: group_ok_def\<close>)
  ultimately show ?thesis using r(2,3) by (simp add: mset_interleave)
qed

lemma run_serial_observed:
  "run_serial E runner root js = Return (evs, rs) \<Longrightarrow> \<forall>(i, job) \<in> set js. delivers_results job \<Longrightarrow> \<forall>i. group_ok (E i) \<Longrightarrow>
    mset (map timeless (observed_steps evs)) = mset (map timeless rs)"
proof (induction E runner root js arbitrary: evs rs rule: run_serial.induct)
  case (2 E runner root i job js)
  obtain e1 r1 where g: "RunJobGroup (E i) runner root [job] = Return (e1, r1)" using "2.prems"(1) by (auto split: outcome.splits)
  have first: "mset (map timeless (observed_steps e1)) = mset (map timeless r1)"
    by (rule RunJobGroup_observed [OF g]) (use "2.prems" in auto)
  show ?case
  proof (cases "HasFailures r1")
    case True
    then show ?thesis using "2.prems"(1) g first by simp
  next
    case False
    then obtain e2 r2 where s: "run_serial E runner root js = Return (e2, r2)" "evs = e1 @ e2" "rs = r1 @ r2"
      using "2.prems"(1) g by (auto split: outcome.splits)
    have "mset (map timeless (observed_steps e2)) = mset (map timeless r2)"
      by (rule "2.IH" [OF g refl False s(1)]) (use "2.prems" in auto)
    then show ?thesis using first s(2,3) by simp
  qed
qed simp

lemma runPhase_observed:
  assumes "runPhase E runner root i phase = Return (evs, rs)" "\<forall>job \<in> set (Phase_Jobs phase). delivers_results job"
    "\<forall>k. group_ok (phase_env E i k)"
  shows "mset (map timeless (observed_steps evs)) = mset (map timeless rs)"
proof -
  obtain e where e: "(if parallel phase then RunJobGroup (phase_env E i 0) runner root (Phase_Jobs phase)
      else run_serial (phase_env E i) runner root (enumerate 0 (Phase_Jobs phase))) = Return (e, rs)"
    "observed_steps evs = observed_steps e"
    using assms(1) by (auto simp: runPhase_def split: outcome.splits prod.splits)
  have "\<forall>(i, job) \<in> set (enumerate 0 (Phase_Jobs phase)). delivers_results job"
    using assms(2) by (auto dest: in_set_zipE simp: enumerate_eq_zip)
  then show ?thesis
    using e RunJobGroup_observed [OF _ assms(2), of "phase_env E i 0" runner root e rs]
      run_serial_observed [of "phase_env E i" runner root _ e rs] assms(3)
    by (cases "parallel phase") auto
qed

lemma run_phases_observed:
  "run_phases E runner root stop ps all gateErr = Return (evs, all', err) \<Longrightarrow>
   \<forall>(i, p) \<in> set ps. \<forall>job \<in> set (Phase_Jobs p). delivers_results job \<Longrightarrow> \<forall>i k. group_ok (phase_env E i k) \<Longrightarrow>
    mset (map timeless all') = mset (map timeless all) + mset (map timeless (observed_steps evs))"
proof (induction E runner root stop ps all gateErr arbitrary: evs rule: run_phases.induct)
  case (2 E runner root stop i phase ps all gateErr)
  obtain pe rs where ph: "runPhase E runner root i phase = Return (pe, rs)"
    using "2.prems" by (auto split: outcome.splits)
  have first: "mset (map timeless (observed_steps pe)) = mset (map timeless rs)"
    by (rule runPhase_observed [OF ph]) (use "2.prems" in auto)
  show ?case
  proof (cases "HasFailures rs \<and> stop")
    case True
    then show ?thesis using "2.prems"(1) ph first by (auto simp: Let_def)
  next
    case False
    let ?err = "if HasFailures rs then Join [gateErr, phaseFailureError (Phase_Name phase) rs] else gateErr"
    from False obtain evs' where rest: "run_phases E runner root stop ps (all @ rs) ?err = Return (evs', all', err)" "evs = pe @ evs'"
      using "2.prems"(1) ph by (auto simp: Let_def split: outcome.splits if_splits)
    have "mset (map timeless all') = mset (map timeless (all @ rs)) + mset (map timeless (observed_steps evs'))"
      by (rule "2.IH" [OF ph refl refl refl False rest(1)]) (use "2.prems" in auto)
    then show ?thesis using first rest(2) by simp
  qed
qed simp


section \<open>Retries and fan-out\<close>

lemma retry_loop_first_success:
  assumes "\<forall>k. attempt \<le> k \<and> k < m \<longrightarrow> (\<exists>e. fn k = Return (Some e))" "fn m = Return None" "attempt \<le> m" "m < attempt + n"
    "\<forall>k. \<not> wait_ends C k"
  shows "retry_loop fn C r d n attempt last_err = Return None"
  using assms
proof (induction n arbitrary: attempt last_err)
  case (Suc n)
  show ?case
  proof (cases "attempt = m")
    case False
    then obtain e where "fn attempt = Return (Some e)" using Suc.prems(1,3) by auto
    moreover have "retry_loop fn C r d n (Suc attempt) (Some e) = Return None"
      by (rule Suc.IH) (use Suc.prems False in auto)
    ultimately show ?thesis using Suc.prems(5) by simp
  qed (use Suc.prems in simp)
qed simp

lemma retry_loop_exhausted:
  assumes "\<forall>k. attempt \<le> k \<and> k < attempt + n \<longrightarrow> (\<exists>e. fn k = Return (Some e))" "\<forall>k. \<not> wait_ends C k"
    "n = 0 \<longrightarrow> last_err \<noteq> None"
  shows "\<exists>e. retry_loop fn C r d n attempt last_err =
    Return (Wrap (Some e) CodeInternal (''failed after '' @ Itoa (r + 1) @ '' attempt(s)''))"
  using assms
proof (induction n arbitrary: attempt last_err)
  case (Suc n)
  obtain e where e: "fn attempt = Return (Some e)" using Suc.prems(1) by auto
  have "\<exists>e'. retry_loop fn C r d n (Suc attempt) (Some e) =
    Return (Wrap (Some e') CodeInternal (''failed after '' @ Itoa (r + 1) @ '' attempt(s)''))"
    by (rule Suc.IH) (use Suc.prems in auto)
  then show ?case using e Suc.prems(2) by simp
qed auto

lemma FanOut_results:
  "length (snd (FanOut C items fn)) = length items"
  "i < length items \<Longrightarrow> snd (FanOut C items fn) ! i =
     (if i < spawned C then unit_result C i (fn (items ! i)) else cancel_result C)"
  by (simp_all add: FanOut_def Let_def nth_enumerate_eq)

section \<open>Properties\<close>

text \<open>
  C24. The verdict of a gate is the verdict of its steps.  When a gate run returns, the
  observer saw the gate start, then the phases in order, each started and reported once,
  then one report of the whole gate, whose results are those of the reported phases.  The
  run returns nil exactly when none of these results failed, and otherwise an error coded
  as a quality failure.  Without stop-on-failure every phase ran.  With it, every phase ran
  unless one failed, and then the failed one is the last that ran.
\<close>

theorem RunGate_verdict:
  assumes "RunGate E runner root g = Return (evs, err)"
  shows "\<exists>mid. let reports = phase_reports mid; all = concat (map snd reports); names = map Phase_Name (gate_phases g) in
    evs = OnGateStart (gate_name g) names # mid @ [OnGateComplete (gate_name g) all (gate_elapsed E)]
    \<and> phase_starts mid = map fst reports \<and> map fst reports = take (length reports) names
    \<and> (err = None \<longleftrightarrow> \<not> HasFailures all) \<and> (err = None \<or> Code err = CodeQualityFailed)
    \<and> (if stopOnFailure g \<and> HasFailures all
       then HasFailures (snd (last reports)) \<and> list_all (\<lambda>p. \<not> HasFailures (snd p)) (butlast reports)
       else length reports = length (gate_phases g))"
proof -
  obtain mid all gateErr where r: "run_phases E runner root (stopOnFailure g) (enumerate 0 (gate_phases g)) [] None =
      Return (mid, all, gateErr)"
    "evs = OnGateStart (gate_name g) (map Phase_Name (gate_phases g)) # mid @ [OnGateComplete (gate_name g) all (gate_elapsed E)]"
    "err = Wrap gateErr CodeQualityFailed (''gate '' @ gate_name g @ '' failed'')"
    using assms by (auto simp: RunGate_def split: outcome.splits)
  have names: "map (\<lambda>p. Phase_Name (snd p)) (enumerate 0 (gate_phases g)) = map Phase_Name (gate_phases g)"
    by (simp add: map_map [of Phase_Name snd, unfolded comp_def, symmetric])
  note t = run_phases_trace [OF r(1), unfolded names]
  have "err = None \<longleftrightarrow> gateErr = None" "err = None \<or> Code err = CodeQualityFailed"
    using r(3) by (auto simp: Wrap_def Code_def as_app_error_def split: option.splits)
  then show ?thesis using t r(2) by (intro exI [of _ mid]) (simp add: Let_def)
qed

definition demo_ctx :: exec_ctx where
  "demo_ctx = \<lparr>ctx_cause = ContextCanceled, spawned = 10, delivery = (\<lambda>rs. rs), unit_elapsed = (\<lambda>_. 1), wait_ends = (\<lambda>_. False),
     debug_stack = ''stack''\<rparr>"

definition demo_genv :: gate_env where
  "demo_genv = \<lparr>phase_env = (\<lambda>_ _. \<lparr>job_ctx = (\<lambda>_. demo_ctx), job_elapsed = (\<lambda>_. 2), finish = (\<lambda>rss. rss), schedule = [1, 0]\<rparr>),
     phase_elapsed = (\<lambda>_. 3), gate_elapsed = 4\<rparr>"

definition demo_commands :: CommandRunner where
  "demo_commands = \<lparr>Run = (\<lambda>dir exe args attempt. if exe = ''bad'' then Panic ''boom'' else Return None), RequireTool = (\<lambda>_ _. None)\<rparr>"

definition demo_job :: "string \<Rightarrow> bool \<Rightarrow> AnyJob" where
  "demo_job exe warn = job_Build \<lparr>discoverer = (\<lambda>_. Inr [exe]), tool = None,
     mapper = (\<lambda>_ it. \<lparr>wu_Name = it, wu_Dir = [], wu_Exe = it, wu_Args = []\<rparr>), job_name = ''demo'', job_group = [],
     job_config = \<lparr>Retry = 0, RetryDelay = 0, WarnOnly = warn\<rparr>\<rparr>"

definition demo_gate :: Gate where
  "demo_gate = StopOnFailure (Serial ''two'' [demo_job ''ok'' False]
     (Parallel ''one'' [demo_job ''bad'' False, demo_job ''ok'' False] (NewGate ''g'')))"

lemmas demo_defs = demo_gate_def demo_job_def demo_commands_def demo_genv_def demo_ctx_def StopOnFailure_def Serial_def Parallel_def
  NewGate_def RunGate_def runPhase_def RunJobGroup_def run_job_def job_Build_def job_Execute_def job_Meta_def run_unit_def
  FanOut_def stamp_def HasFailures_def Let_def

lemma demo_run: "\<exists>evs err. RunGate demo_genv demo_commands [] demo_gate = Return (evs, err)
    \<and> phase_starts evs = [''one''] \<and> err \<noteq> None"
  by (simp add: demo_defs Wrap_def Join_def phaseFailureError_def List.map_filter_def)

theorem RunGate_verdict_witness:
  "\<exists>evs err. RunGate demo_genv demo_commands [] demo_gate = Return (evs, err) \<and> Code err = CodeQualityFailed"
proof -
  obtain evs err where "RunGate demo_genv demo_commands [] demo_gate = Return (evs, err)" "err \<noteq> None" using demo_run by blast
  then show ?thesis using RunGate_verdict [of demo_genv demo_commands "[]" demo_gate evs err] by (auto simp: Let_def)
qed



text \<open>
  A warn-only job breaks the contract: the observer is told that the step failed, and the
  results say that it passed with a warning.
\<close>

lemma warn_only_observed_as_failure:
  "\<exists>r. run_job (phase_env demo_genv 0 0) demo_commands [] 0 (demo_job ''bad'' True) =
     Return ([with_status StatusWarn r], [with_status StatusFail r])"
  by (rule exI [of _ "StepResult [] [] ''panic recovered'' ''stack'' [] StatusFail 1 0"])
     (simp add: demo_defs downgrade_def)

text \<open>
  Retries do what the configuration says.  When the pauses are not cut short, a command
  with \<open>r\<close> retries succeeds as soon as one of its \<open>r + 1\<close> attempts does, and fails with an internal
  error that counts them when all of them fail.
\<close>

lemma retryDo_attempts:
  assumes "0 \<le> r" "\<forall>k. \<not> wait_ends C k" "\<forall>k. fn k \<noteq> Return None \<longrightarrow> (\<exists>e. fn k = Return (Some e))"
  shows "retryDo C fn r d = Return None \<longleftrightarrow> (\<exists>k \<le> nat r. fn k = Return None)"
proof (cases "\<exists>k \<le> nat r. fn k = Return None")
  case True
  define m where "m = (LEAST k. fn k = Return None)"
  have m: "fn m = Return None" "m \<le> nat r" unfolding m_def using True by (auto intro: LeastI2 Least_le order_trans)
  have before: "fn k \<noteq> Return None" if "k < m" for k using not_less_Least that unfolding m_def by blast
  have "retry_loop fn C r d (nat (r + 1)) 0 None = Return None"
    by (rule retry_loop_first_success [of 0 m]) (use before m assms in auto)
  then show ?thesis using True by (simp add: retryDo_def)
next
  case False
  have "\<exists>e. retry_loop fn C r d (nat (r + 1)) 0 None =
      Return (Wrap (Some e) CodeInternal (''failed after '' @ Itoa (r + 1) @ '' attempt(s)''))"
    by (rule retry_loop_exhausted) (use False assms in \<open>auto simp: nat_add_distrib\<close>)
  then show ?thesis using False by (auto simp: retryDo_def Wrap_def)
qed

end
