(* ===== verification/Read_Through.thy ===== *)
theory Read_Through
  imports Listquery_Token
begin

text \<open>
  The scoped read-through cache: cache keys (\<^verbatim>\<open>foundation/cache/keys.go\<close>), the versioned envelope
  (\<^verbatim>\<open>envelope.go\<close>) and the read-through primitive (\<^verbatim>\<open>readthrough.go\<close>).  SHA-256 and the JSON form of
  the cached type are parameters; so is the byte cache, an interface whose backends are
  outside the repository's Go code.  The single-flight group is an argument of each call: the
  result of the flight the call joins, or nothing when it starts its own.
\<close>

section \<open>Keys (keys.go)\<close>

definition hex_encode :: "string \<Rightarrow> string" where
  "hex_encode s = concat (map (\<lambda>b. [hex_digit (b div 16), hex_digit (b mod 16)]) (bytes_of s))"

definition keySeparator :: string where "keySeparator = [CHR 0x00]"

definition hashParts :: "golib \<Rightarrow> string list \<Rightarrow> string" where
  "hashParts L parts = hex_encode (sha256 L (join_with keySeparator parts))"

definition AccessFingerprint :: "golib \<Rightarrow> string list \<Rightarrow> string" where
  "AccessFingerprint L scope = hashParts L (sort scope)"

definition FilterHash :: "golib \<Rightarrow> Filter \<Rightarrow> string" where
  "FilterHash L f = hex_encode (Fingerprint L [] f)"

definition SuggestKey :: "golib \<Rightarrow> string \<Rightarrow> string \<Rightarrow> string \<Rightarrow> string \<Rightarrow> string \<Rightarrow> int \<Rightarrow> string" where
  "SuggestKey L tenant resource field accessFP pre limit =
     ''suggest:'' @ hashParts L [tenant, resource, field, accessFP, pre, Itoa limit]"

definition CountKey :: "golib \<Rightarrow> string \<Rightarrow> string \<Rightarrow> string \<Rightarrow> string \<Rightarrow> string \<Rightarrow> string" where
  "CountKey L tenant resource generation accessFP filterHash =
     ''count:'' @ hashParts L [tenant, resource, generation, accessFP, filterHash]"

definition CountGenKey :: "string \<Rightarrow> string \<Rightarrow> string" where
  "CountGenKey tenant resource = ''count:gen:'' @ tenant @ '':'' @ resource"

section \<open>Envelope (envelope.go)\<close>

text \<open>The JSON form of the cached type; \<open>dec_value old j\<close> decodes \<open>j\<close> into a variable that holds \<open>old\<close>.\<close>

record 'a codec =
  enc_value :: "'a \<Rightarrow> json option"
  dec_value :: "'a \<Rightarrow> json \<Rightarrow> 'a option"
  zero_value :: 'a

record 'a Envelope =
  EnvData :: 'a
  CachedAt :: "int \<times> int"
  EnvVersion :: int

definition Encode :: "golib \<Rightarrow> 'a codec \<Rightarrow> int \<times> int \<Rightarrow> 'a \<Rightarrow> int \<Rightarrow> error + string" where
  "Encode L C now value version =
     (case (enc_value C value, json_time L (fst now) (snd now)) of
        (Some d, Some t) \<Rightarrow>
          Inr (json_print (JObj [(''data'', d), (''cached_at'', JStr t), (''version'', JNum (Itoa version))]))
      | _ \<Rightarrow> Inl (AppError CodeInternal ''encode cache envelope'' [] (Some json_error)))"

definition envelope_member :: "golib \<Rightarrow> 'a codec \<Rightarrow> string \<times> json \<Rightarrow> 'a Envelope \<Rightarrow> 'a Envelope option" where
  "envelope_member L C kv e =
     (case kv of (name, v) \<Rightarrow>
        if EqualFold name ''data'' then map_option (\<lambda>d. e\<lparr>EnvData := d\<rparr>) (dec_value C (EnvData e) v)
        else if EqualFold name ''cached_at''
        then (case v of
                JNull \<Rightarrow> Some e
              | JStr s \<Rightarrow> map_option (\<lambda>t. e\<lparr>CachedAt := t\<rparr>) (parse_time L s)
              | _ \<Rightarrow> None)
        else if EqualFold name ''version''
        then (case v of
                JNull \<Rightarrow> Some e
              | JNum l \<Rightarrow> map_option (\<lambda>n. e\<lparr>EnvVersion := n\<rparr>) (Atoi l)
              | _ \<Rightarrow> None)
        else Some e)"

definition unmarshal_envelope :: "golib \<Rightarrow> 'a codec \<Rightarrow> json \<Rightarrow> 'a Envelope option" where
  "unmarshal_envelope L C j =
     (let e = \<lparr>EnvData = zero_value C, CachedAt = (0, 0), EnvVersion = 0\<rparr>
      in case j of JNull \<Rightarrow> Some e | JObj kvs \<Rightarrow> members (envelope_member L C) kvs e | _ \<Rightarrow> None)"

text \<open>\<open>Inr None\<close> is the miss of a version mismatch.\<close>

definition Decode :: "golib \<Rightarrow> 'a codec \<Rightarrow> string \<Rightarrow> int \<Rightarrow> error + 'a option" where
  "Decode L C data version =
     (case Option.bind (json_parse data) (unmarshal_envelope L C) of
        None \<Rightarrow> Inl (AppError CodeInternal ''decode cache envelope'' [] (Some json_error))
      | Some env \<Rightarrow> if EnvVersion env \<noteq> version then Inr None else Inr (Some (EnvData env)))"

section \<open>Read-through (readthrough.go)\<close>

record 's ByteCache =
  cache_Get :: "'s \<Rightarrow> string \<Rightarrow> string option"
  cache_Set :: "'s \<Rightarrow> string \<Rightarrow> string \<Rightarrow> int \<Rightarrow> 's"

text \<open>
  One call: the error of its context when it starts, the flight of another caller it joins,
  and the error of its context when that ends before the flight does.
\<close>

record 'a call =
  ctx_err :: "error option"
  joined :: "(error + 'a) option"
  wait_err :: "error option"
  wall :: "int \<times> int"
  stack :: string

definition contextError :: "error \<Rightarrow> error" where
  "contextError e =
     (if StdIs (Some e) DeadlineExceeded
      then AppError CodeTimeout ''cache: read-through wait timed out'' [] (Some e)
      else AppError CodeCanceled ''cache: read-through wait canceled'' [] (Some e))"

definition recoverLoad :: "string \<Rightarrow> (error + 'a) outcome \<Rightarrow> error + 'a" where
  "recoverLoad stk load =
     (case load of
        Return r \<Rightarrow> r
      | Panic v \<Rightarrow> Inl (WithDetails (New CodeInternal (''cache: load panicked: '' @ v)) [(''stack'', stk)]))"

definition cache_hit :: "golib \<Rightarrow> 'a codec \<Rightarrow> 's ByteCache option \<Rightarrow> 's \<Rightarrow> string \<Rightarrow> int \<Rightarrow> 'a option" where
  "cache_hit L C c st key version =
     (case c of
        None \<Rightarrow> None
      | Some bc \<Rightarrow>
          (case cache_Get bc st key of
             None \<Rightarrow> None
           | Some data \<Rightarrow> (case Decode L C data version of Inr (Some v) \<Rightarrow> Some v | _ \<Rightarrow> None)))"

definition run_flight ::
  "golib \<Rightarrow> 'a codec \<Rightarrow> 's ByteCache option \<Rightarrow> 'a call \<Rightarrow> string \<Rightarrow> int \<Rightarrow> int \<Rightarrow> (error + 'a) outcome
     \<Rightarrow> ('a \<Rightarrow> bool) option \<Rightarrow> 's \<Rightarrow> (error + 'a) \<times> 's" where
  "run_flight L C c W key ttl version load cacheable st =
     (case recoverLoad (stack W) load of
        Inl e \<Rightarrow> (Inl e, st)
      | Inr v \<Rightarrow>
          (case c of
             Some bc \<Rightarrow>
               if (case cacheable of None \<Rightarrow> True | Some p \<Rightarrow> p v)
               then (case Encode L C (wall W) v version of
                       Inr data \<Rightarrow> (Inr v, cache_Set bc st key data ttl)
                     | Inl _ \<Rightarrow> (Inr v, st))
               else (Inr v, st)
           | None \<Rightarrow> (Inr v, st)))"

text \<open>The result, the state of the cache, and how often \<open>load\<close> ran.\<close>

definition ReadThrough ::
  "golib \<Rightarrow> 'a codec \<Rightarrow> 's ByteCache option \<Rightarrow> 'a call \<Rightarrow> string \<Rightarrow> int \<Rightarrow> int \<Rightarrow> (error + 'a) outcome
     \<Rightarrow> ('a \<Rightarrow> bool) option \<Rightarrow> 's \<Rightarrow> (error + 'a) \<times> 's \<times> nat" where
  "ReadThrough L C c W key ttl version load cacheable st =
     (case ctx_err W of
        Some e \<Rightarrow> (Inl (contextError e), st, 0)
      | None \<Rightarrow>
          (case cache_hit L C c st key version of
             Some v \<Rightarrow> (Inr v, st, 0)
           | None \<Rightarrow>
               (let (res, st', n) =
                      (case joined W of
                         Some r \<Rightarrow> (r, st, 0)
                       | None \<Rightarrow> (case run_flight L C c W key ttl version load cacheable st of (r, st') \<Rightarrow> (r, st', 1)))
                in (case wait_err W of Some e \<Rightarrow> Inl (contextError e) | None \<Rightarrow> res, st', n))))"

section \<open>Separators\<close>

lemma first_sep_unique:
  "c \<notin> set a \<Longrightarrow> c \<notin> set a' \<Longrightarrow> a @ c # b = a' @ c # b' \<longleftrightarrow> a = a' \<and> b = b'"
proof (induction a arbitrary: a')
  case Nil
  then show ?case by (cases a') auto
next
  case (Cons x a)
  then show ?case by (cases a') auto
qed

lemma last_sep_unique:
  assumes "c \<notin> set b" "c \<notin> set b'"
  shows "a @ c # b = a' @ c # b' \<longleftrightarrow> a = a' \<and> b = b'"
proof -
  have "a @ c # b = a' @ c # b' \<longleftrightarrow> rev (a @ c # b) = rev (a' @ c # b')" by (rule rev_is_rev_conv [symmetric])
  then show ?thesis using first_sep_unique [of c "rev b" "rev b'" "rev a" "rev a'"] assms by auto
qed

lemma Itoa_no_NUL: "CHR 0x00 \<notin> set (Itoa n)"
proof -
  have "CHR 0x00 \<notin> set (itoa_nat k)" for k
    using itoa_nat_digits [of k] by (auto simp: list_all_iff is_digit_def)
  then show ?thesis by (simp add: Itoa_def)
qed

lemma Itoa_inj:
  assumes "MinInt64 \<le> m" "m \<le> MaxInt64" "MinInt64 \<le> n" "n \<le> MaxInt64"
  shows "Itoa m = Itoa n \<longleftrightarrow> m = n"
  using Atoi_Itoa [OF assms(1,2)] Atoi_Itoa [OF assms(3,4)] by (metis option.inject)

lemma hex_digit_inj: "a < 16 \<Longrightarrow> b < 16 \<Longrightarrow> hex_digit a = hex_digit b \<longleftrightarrow> a = b"
  by (metis hex_val_digit option.inject)

lemma hex_encode_Cons: "hex_encode (x # xs) = hex_digit (of_char x div 16) # hex_digit (of_char x mod 16) # hex_encode xs"
  by (simp add: hex_encode_def bytes_of_def)

lemma hex_byte_inj:
  "hex_digit (of_char c div 16) = hex_digit (of_char d div 16) \<and> hex_digit (of_char c mod 16) = hex_digit (of_char d mod 16)
    \<longleftrightarrow> c = d"
proof -
  have "(of_char x :: nat) < 256" for x using bytes_of_bound [of "[x]"] by (simp add: bytes_of_def)
  then have "(of_char x :: nat) div 16 < 16" for x by (simp add: less_mult_imp_div_less)
  moreover have "(of_char x :: nat) mod 16 < 16" for x by simp
  ultimately show ?thesis by (metis hex_digit_inj div_mult_mod_eq of_char_eq_iff)
qed

lemma hex_encode_inj: "hex_encode s = hex_encode t \<longleftrightarrow> s = t"
proof (induction s arbitrary: t)
  case Nil
  show ?case by (cases t) (auto simp: hex_encode_Cons, auto simp: hex_encode_def bytes_of_def)
next
  case (Cons c s)
  show ?case
  proof (cases t)
    case Nil
    then show ?thesis by (simp add: hex_encode_Cons) (simp add: hex_encode_def bytes_of_def)
  next
    case (Cons d t')
    then show ?thesis using Cons.IH [of t'] hex_byte_inj [of c d] by (auto simp: hex_encode_Cons)
  qed
qed


text \<open>Equal digests come from equal parts, or from a collision of SHA-256.\<close>

definition sha_collision :: "golib \<Rightarrow> bool" where
  "sha_collision L \<longleftrightarrow> (\<exists>a b. a \<noteq> b \<and> sha256 L a = sha256 L b)"

lemma hashParts_eq:
  "hashParts L ps = hashParts L qs \<Longrightarrow> join_with keySeparator ps = join_with keySeparator qs \<or> sha_collision L"
  by (auto simp: hashParts_def hex_encode_inj sha_collision_def)

lemma sort_NUL_free: "\<forall>p \<in> set ps. CHR 0x00 \<notin> set p \<Longrightarrow> ps \<noteq> [] \<Longrightarrow> split_on (CHR 0x00) (join_with keySeparator ps) = ps"
  unfolding keySeparator_def by (rule split_join_on) auto

section \<open>The envelope reads back\<close>

lemma fold_names [simp]:
  "EqualFold ''data'' ''data''" "EqualFold ''cached_at'' ''cached_at''" "EqualFold ''version'' ''version''"
  "\<not> EqualFold ''cached_at'' ''data''" "\<not> EqualFold ''version'' ''data''" "\<not> EqualFold ''version'' ''cached_at''"
  by (simp_all add: EqualFold_def lower_char_def)

text \<open>What the cached type's codec and the clock reading promise.\<close>

definition codec_ok :: "golib \<Rightarrow> 'a codec \<Rightarrow> int \<times> int \<Rightarrow> bool" where
  "codec_ok L C now \<longleftrightarrow>
     (\<forall>v. \<exists>j. enc_value C v = Some j \<and> printable j \<and> dec_value C (zero_value C) j = Some v)
   \<and> (\<exists>t u. json_time L (fst now) (snd now) = Some t \<and> parse_time L t = Some u)"

lemma Decode_Encode:
  assumes "codec_ok L C now" "MinInt64 \<le> w" "w \<le> MaxInt64"
  shows "\<exists>data. Encode L C now v w = Inr data \<and> (\<forall>version. Decode L C data version = Inr (if version = w then Some v else None))"
proof -
  obtain j t u where j: "enc_value C v = Some j" "printable j" "dec_value C (zero_value C) j = Some v"
    "json_time L (fst now) (snd now) = Some t" "parse_time L t = Some u"
    using assms(1) unfolding codec_ok_def by meson
  let ?j = "JObj [(''data'', j), (''cached_at'', JStr t), (''version'', JNum (Itoa w))]"
  have "printable ?j" using j(2) itoa_literal [of w] by (simp add: num_literal_def)
  then have "json_parse (json_print ?j) = Some ?j" by (rule json_parse_print)
  moreover have "Encode L C now v w = Inr (json_print ?j)" using j by (simp add: Encode_def del: json_print.simps)
  moreover have "unmarshal_envelope L C ?j = Some \<lparr>EnvData = v, CachedAt = u, EnvVersion = w\<rparr>"
    using j Atoi_Itoa [OF assms(2,3)] by (simp add: unmarshal_envelope_def envelope_member_def)
  ultimately show ?thesis by (intro exI [of _ "json_print ?j"]) (simp add: Decode_def del: json_print.simps)
qed


lemma run_flight_stores:
  assumes "codec_ok L C (wall W)" "MinInt64 \<le> version" "version \<le> MaxInt64"
    and get: "\<And>st k v t k'. cache_Get bc (cache_Set bc st k v t) k' = (if k' = k then Some v else cache_Get bc st k')"
    and flight: "run_flight L C (Some bc) W key ttl version load cacheable st = (Inr v, st')"
    and ok: "case cacheable of None \<Rightarrow> True | Some p \<Rightarrow> p v"
  shows "cache_hit L C (Some bc) st' key w = (if w = version then Some v else None)"
proof -
  obtain data where d: "Encode L C (wall W) v version = Inr data"
    "\<And>w. Decode L C data w = Inr (if w = version then Some v else None)"
    using Decode_Encode [OF assms(1-3)] by blast
  have "recoverLoad (stack W) load = Inr v" using flight ok by (auto simp: run_flight_def split: sum.splits if_splits)
  then have "st' = cache_Set bc st key data ttl" using flight ok d(1) by (simp add: run_flight_def)
  then show ?thesis using d(2) get by (simp add: cache_hit_def)
qed

lemma run_flight_frame:
  assumes "run_flight L C (Some bc) W key ttl version load cacheable st = (r, st')"
  shows "r = recoverLoad (stack W) load" "st' = st \<or> (\<exists>data. st' = cache_Set bc st key data ttl)"
    "\<And>e. r = Inl e \<Longrightarrow> st' = st"
    "\<And>v. r = Inr v \<Longrightarrow> \<not> (case cacheable of None \<Rightarrow> True | Some p \<Rightarrow> p v) \<Longrightarrow> st' = st"
proof -
  obtain x where x: "recoverLoad (stack W) load = x" by blast
  note run = assms [unfolded run_flight_def x]
  show "r = recoverLoad (stack W) load" unfolding x using run by (cases x) (auto split: sum.splits if_splits)
  show "st' = st \<or> (\<exists>data. st' = cache_Set bc st key data ttl)" using run by (cases x) (auto split: sum.splits if_splits)
  show "r = Inl e \<Longrightarrow> st' = st" for e using run by (cases x) (auto split: sum.splits if_splits)
  show "r = Inr v \<Longrightarrow> \<not> (case cacheable of None \<Rightarrow> True | Some p \<Rightarrow> p v) \<Longrightarrow> st' = st" for v
    using run by (cases x) (auto split: sum.splits if_splits)
qed

section \<open>Properties\<close>



text \<open>
  C28. The count cache can answer for another filter.  The list of the names \<open>a\<close> and \<open>b\<close> and
  the list of the one name \<open>a,str:b\<close> have the same filter hash, whatever the hash
  function, hence the same count key, and both are filters the parser returns for a client's
  text; yet a row named \<open>b\<close> satisfies only the first.
\<close>

theorem filter_hash_collision:
  "let f = FilterClause ''name'' OpIn (VList [VStr ''a'', VStr ''b'']) None;
       g = FilterClause ''name'' OpIn (VList [VStr ''a,str:b'']) None;
       named = (\<lambda>c op v row. case v of VList vs \<Rightarrow> VStr row \<in> set vs | _ \<Rightarrow> False)
   in CountKey L t r n a (FilterHash L f) = CountKey L t r n a (FilterHash L g)
    \<and> Parse demo_lib demo_map (json_print (filter_json (\<lambda>w. []) (\<lambda>t z. []) f)) = Inr f
    \<and> Parse demo_lib demo_map (json_print (filter_json (\<lambda>w. []) (\<lambda>t z. []) g)) = Inr g
    \<and> filter_holds named j f ''b'' \<and> \<not> filter_holds named j g ''b''"
proof -
  let ?f = "\<lambda>vs. FilterClause ''name'' OpIn (VList vs) None"
  have ok: "parsed_ok demo_map (?f (map VStr ns))" "filter_depth (?f (map VStr ns)) \<le> maxFilterDepth"
    "filter_expressible demo_lib (\<lambda>w. []) (\<lambda>t z. []) (?f (map VStr ns))" for ns
    by (simp_all add: demo_map_def Add_def NewMap_def String_field_def Int_field_def ID_field_def mk_field_def list_all_iff
        maxFilterDepth_def operand_typed_def value_typed_def)
  have "Parse demo_lib demo_map (json_print (filter_json (\<lambda>w. []) (\<lambda>t z. []) (?f (map VStr ns)))) = Inr (?f (map VStr ns))" for ns
    by (rule Parse_filter_json) (rule demo_map_wf ok)+
  from this [of "[''a'', ''b'']"] this [of "[''a,str:b'']"] show ?thesis
    by (simp add: Let_def FilterHash_def Fingerprint_def fingerprint_text_def)
qed

text \<open>
  C27. Read-through returns what the load returned and remembers it.  On a miss with a live
  context and no flight to join, the load runs once and its result is returned, a panic as
  an error.  No other key changes.  A failed load, and a value the caller refuses to cache,
  leave the cache as it was.  Any other value is stored: a later call under the same key and
  version returns it without loading, and under another version it misses.
\<close>

theorem read_through_correct:
  assumes "\<forall>st k v t k'. cache_Get bc (cache_Set bc st k v t) k' = (if k' = k then Some v else cache_Get bc st k')"
    and "codec_ok L C (wall W)" "MinInt64 \<le> version" "version \<le> MaxInt64"
    and "ctx_err W = None" "joined W = None" "wait_err W = None" "cache_hit L C (Some bc) st key version = None"
    and "ReadThrough L C (Some bc) W key ttl version load cacheable st = (r, st', n)"
  shows "n = 1 \<and> r = recoverLoad (stack W) load
    \<and> (\<forall>k. k \<noteq> key \<longrightarrow> cache_Get bc st' k = cache_Get bc st k)
    \<and> (case r of
         Inl _ \<Rightarrow> st' = st
       | Inr v \<Rightarrow>
           if (case cacheable of None \<Rightarrow> True | Some p \<Rightarrow> p v)
           then (\<forall>W' load' cacheable' t. ctx_err W' = None \<longrightarrow>
                  ReadThrough L C (Some bc) W' key t version load' cacheable' st' = (Inr v, st', 0))
             \<and> (\<forall>w. w \<noteq> version \<longrightarrow> cache_hit L C (Some bc) st' key w = None)
           else st' = st)"
proof -
  have f: "run_flight L C (Some bc) W key ttl version load cacheable st = (r, st')" and n: "n = 1"
    using assms(5-9) by (auto simp: ReadThrough_def split: prod.splits)
  note frame = run_flight_frame [OF f]
  note get = assms(1) [rule_format]
  have other: "cache_Get bc st' k = cache_Get bc st k" if "k \<noteq> key" for k using frame(2) get that by auto
  show ?thesis
  proof (cases r)
    case (Inl e)
    then show ?thesis using frame(1) [symmetric] frame(3) n other by simp
  next
    case (Inr v)
    show ?thesis
    proof (cases "case cacheable of None \<Rightarrow> True | Some p \<Rightarrow> p v")
      case True
      have "cache_hit L C (Some bc) st' key w = (if w = version then Some v else None)" for w
        by (rule run_flight_stores [OF assms(2-4) get f [unfolded Inr] True])
      then show ?thesis using True n other frame(1) [symmetric] by (simp add: Inr ReadThrough_def)
    next
      case False
      then show ?thesis using frame(4) [OF Inr False] frame(1) [symmetric] n other by (simp add: Inr)
    qed
  qed
qed

definition demo_cache :: "(string \<rightharpoonup> string) ByteCache" where
  "demo_cache = \<lparr>cache_Get = (\<lambda>st k. st k), cache_Set = (\<lambda>st k v t. st(k \<mapsto> v))\<rparr>"

definition demo_codec :: "string codec" where
  "demo_codec = \<lparr>enc_value = (\<lambda>s. Some (JStr s)), dec_value = (\<lambda>old j. case j of JStr s \<Rightarrow> Some s | _ \<Rightarrow> None), zero_value = []\<rparr>"

definition demo_call :: "string call" where
  "demo_call = \<lparr>ctx_err = None, joined = None, wait_err = None, wall = (0, 0), stack = []\<rparr>"

definition clock_lib :: golib where
  "clock_lib = demo_lib\<lparr>parse_time := (\<lambda>s. Some (0, 0)), json_time := (\<lambda>t z. Some ''t'')\<rparr>"

theorem read_through_correct_witness:
  "\<exists>st'. ReadThrough clock_lib demo_codec (Some demo_cache) demo_call ''k'' 60 1 (Return (Inr ''v'')) None Map.empty = (Inr ''v'', st', 1)
    \<and> ReadThrough clock_lib demo_codec (Some demo_cache) demo_call ''k'' 60 1 (Panic ''boom'') None st' = (Inr ''v'', st', 0)"
proof -
  obtain r st' n where run: "ReadThrough clock_lib demo_codec (Some demo_cache) demo_call ''k'' 60 1 (Return (Inr ''v'')) None Map.empty = (r, st', n)"
    using prod_cases3 by blast
  have hyps: "codec_ok clock_lib demo_codec (wall demo_call)" "cache_hit clock_lib demo_codec (Some demo_cache) Map.empty ''k'' 1 = None"
    "ctx_err demo_call = None" "joined demo_call = None" "wait_err demo_call = None"
    "\<forall>st k v t k'. cache_Get demo_cache (cache_Set demo_cache st k v t) k' = (if k' = k then Some v else cache_Get demo_cache st k')"
    by (simp_all add: codec_ok_def demo_codec_def clock_lib_def demo_call_def demo_cache_def cache_hit_def)
  have "MinInt64 \<le> 1" "(1::int) \<le> MaxInt64" by (simp_all add: MinInt64_def MaxInt64_def)
  then have "n = 1 \<and> r = recoverLoad (stack demo_call) (Return (Inr ''v''))" "r = Inr ''v'' \<longrightarrow>
      ReadThrough clock_lib demo_codec (Some demo_cache) demo_call ''k'' 60 1 (Panic ''boom'') None st' = (Inr ''v'', st', 0)"
    using read_through_correct [OF hyps(6,1) _ _ hyps(3-5,2) run] hyps(3) by (auto split: sum.splits)
  then show ?thesis using run by (simp add: recoverLoad_def)
qed

end
