(* ===== verification/Resilience.thy ===== *)
theory Resilience
  imports App_Errors Complex_Main
begin

text \<open>
  The resilience primitives of \<^verbatim>\<open>foundation/resilience\<close>: the retry budget, the channel and the
  adaptive bulkhead, the client-side throttler, the deduplicator, the dead-letter queue, the
  hedger and the breaker's policy.  A float64 is a real number and \<open>fl\<close> the rounding to the
  nearest float64, an argument of the operations that compute with floats.  The methods are
  atomic under their mutex except for the budget, whose loop over a compare-and-swap is
  split into its atomic steps.
\<close>

definition Millisecond :: int where "Millisecond = 1000000"
definition Second :: int where "Second = 1000 * Millisecond"

section \<open>Rounding\<close>

text \<open>
  What IEEE 754 says of rounding to nearest in the range the code works in: monotone, idempotent,
  and exact on the numbers with a significand of 53 bits.
\<close>

definition rounding :: "(real \<Rightarrow> real) \<Rightarrow> bool" where
  "rounding fl \<longleftrightarrow> mono fl \<and> (\<forall>x. fl (fl x) = fl x) \<and> (\<forall>(n::int) k. \<bar>n\<bar> \<le> 2 ^ 53 \<and> k \<le> 1000 \<longrightarrow> fl (of_int n / 2 ^ k) = of_int n / 2 ^ k)"

section \<open>Retry budget (budget.go)\<close>

definition ErrRetryBudgetExhausted :: error where
  "ErrRetryBudgetExhausted = Sentinel ''retry budget exhausted''"

text \<open>The program counter of one call of \<^verbatim>\<open>ConsumeRetry\<close>: before the load, between load and swap, returned.\<close>

datatype consume_pc = Loading | Swapping int | Returned bool

text \<open>One atomic step of call \<open>t\<close> on the shared counter \<open>r\<close>.\<close>

inductive consume_step :: "int \<times> ('t \<Rightarrow> consume_pc) \<Rightarrow> int \<times> ('t \<Rightarrow> consume_pc) \<Rightarrow> bool" where
  empty: "pc t = Loading \<Longrightarrow> r \<le> 0 \<Longrightarrow> consume_step (r, pc) (r, pc(t := Returned False))"
| load: "pc t = Loading \<Longrightarrow> 0 < r \<Longrightarrow> consume_step (r, pc) (r, pc(t := Swapping r))"
| swap: "pc t = Swapping c \<Longrightarrow> r = c \<Longrightarrow> consume_step (r, pc) (int32 (c - 1), pc(t := Returned True))"
| lost: "pc t = Swapping c \<Longrightarrow> r \<noteq> c \<Longrightarrow> consume_step (r, pc) (r, pc(t := Loading))"

text \<open>The call that runs alone; no budget in the context allows every retry.\<close>

definition ConsumeRetry :: "int option \<Rightarrow> int option \<times> bool" where
  "ConsumeRetry b =
     (case b of
        None \<Rightarrow> (None, True)
      | Some r \<Rightarrow> if r \<le> 0 then (Some r, False) else (Some (int32 (r - 1)), True))"

definition Remaining :: "int option \<Rightarrow> int" where
  "Remaining b = (case b of None \<Rightarrow> - 1 | Some r \<Rightarrow> r)"

section \<open>One attempt of the retrier (exponential/retry.go)\<close>

text \<open>What the operation handed to the backoff library returns: a result, a retryable or a permanent error.\<close>

datatype attempt = Done | Again error | Permanent error

definition retry_attempt :: "(error option \<Rightarrow> bool) \<Rightarrow> int option \<Rightarrow> error option \<Rightarrow> int option \<times> nat \<times> attempt" where
  "retry_attempt isRetryable b op =
     (case ConsumeRetry b of
        (b', False) \<Rightarrow> (b', 0, Permanent ErrRetryBudgetExhausted)
      | (b', True) \<Rightarrow>
          (b', 1, case op of
                    None \<Rightarrow> Done
                  | Some e \<Rightarrow> if isRetryable (Some e) then Again e else Permanent e))"

section \<open>Channel bulkhead (channel/bulkhead.go)\<close>

record channel_bulkhead =
  sem_cap :: nat
  sem_used :: nat

definition ErrBulkheadFull :: error where
  "ErrBulkheadFull = New CodeUnavailable ''bulkhead: concurrency limit reached''"

text \<open>\<^verbatim>\<open>make\<close> panics on a negative size; a channel of size zero never takes a value here, since nobody waits to receive.\<close>

definition channel_New :: "int \<Rightarrow> channel_bulkhead outcome" where
  "channel_New n =
     (if n < 0 then Panic ''makechan: size out of range'' else Return \<lparr>sem_cap = nat n, sem_used = 0\<rparr>)"

text \<open>The send to the channel, and the deferred receive, which runs also when the function panics.\<close>

definition channel_enter :: "channel_bulkhead \<Rightarrow> channel_bulkhead option" where
  "channel_enter b = (if sem_used b < sem_cap b then Some (b\<lparr>sem_used := sem_used b + 1\<rparr>) else None)"

definition channel_leave :: "channel_bulkhead \<Rightarrow> int \<Rightarrow> error option \<Rightarrow> channel_bulkhead" where
  "channel_leave b rtt err = b\<lparr>sem_used := sem_used b - 1\<rparr>"

definition channel_TryExecute ::
  "channel_bulkhead \<Rightarrow> error option outcome \<Rightarrow> channel_bulkhead \<times> error option outcome" where
  "channel_TryExecute b fn =
     (case channel_enter b of
        None \<Rightarrow> (b, Return (Some ErrBulkheadFull))
      | Some b' \<Rightarrow> (channel_leave b' 0 None, fn))"

text \<open>
  \<^verbatim>\<open>Execute\<close> selects between a free slot and the end of the context; when both are ready either
  may be taken.  \<open>ctx\<close> is the context's error when that case is taken.  \<open>None\<close>: no slot, the call waits.
\<close>

definition wait_canceled :: "error \<Rightarrow> error option" where
  "wait_canceled cause = Wrap (Some cause) (ContextCode (Some cause) CodeCanceled) ''bulkhead wait canceled''"

definition channel_Execute ::
  "channel_bulkhead \<Rightarrow> error option \<Rightarrow> error option outcome \<Rightarrow> (channel_bulkhead \<times> error option outcome) option" where
  "channel_Execute b ctx fn =
     (case ctx of
        Some cause \<Rightarrow> Some (b, Return (wait_canceled cause))
      | None \<Rightarrow> map_option (\<lambda>b'. (channel_leave b' 0 None, fn)) (channel_enter b))"

section \<open>Adaptive bulkhead (adaptive/bulkhead.go)\<close>

record adaptive_Config =
  MinConcurrent :: int
  MaxConcurrent :: int
  InitialConcurrent :: int
  RTTThreshold :: int
  BackoffRatio :: real

record adaptive_bulkhead =
  limit :: real
  inFlight :: nat
  minLimit :: real
  maxLimit :: real
  rttThreshold :: int
  backoffRatio :: real

definition ErrAdaptiveFull :: error where
  "ErrAdaptiveFull = New CodeUnavailable ''bulkhead: adaptive concurrency limit reached''"

definition adaptive_DefaultConfig :: "(real \<Rightarrow> real) \<Rightarrow> adaptive_Config" where
  "adaptive_DefaultConfig fl =
     \<lparr>MinConcurrent = 1, MaxConcurrent = 20, InitialConcurrent = 10, RTTThreshold = 100 * Millisecond, BackoffRatio = fl (9 / 10)\<rparr>"

definition adaptive_New :: "(real \<Rightarrow> real) \<Rightarrow> adaptive_Config \<Rightarrow> adaptive_bulkhead" where
  "adaptive_New fl cfg =
     (let minL = max 1 (fl (of_int (MinConcurrent cfg)));
          maxL = max minL (fl (of_int (MaxConcurrent cfg)));
          ini = min maxL (max minL (fl (of_int (InitialConcurrent cfg))));
          ratio = (if BackoffRatio cfg \<le> 0 \<or> BackoffRatio cfg \<ge> 1 then fl (9 / 10) else BackoffRatio cfg)
      in \<lparr>limit = ini, inFlight = 0, minLimit = minL, maxLimit = maxL, rttThreshold = RTTThreshold cfg, backoffRatio = ratio\<rparr>)"

text \<open>\<^verbatim>\<open>int(b.limit)\<close>; the limit is never negative.\<close>

definition Limit :: "adaptive_bulkhead \<Rightarrow> nat" where
  "Limit b = nat \<lfloor>limit b\<rfloor>"

definition adaptive_enter :: "adaptive_bulkhead \<Rightarrow> adaptive_bulkhead option" where
  "adaptive_enter b = (if inFlight b < Limit b then Some (b\<lparr>inFlight := inFlight b + 1\<rparr>) else None)"

definition adjust :: "(real \<Rightarrow> real) \<Rightarrow> adaptive_bulkhead \<Rightarrow> int \<Rightarrow> error option \<Rightarrow> adaptive_bulkhead" where
  "adjust fl b rtt opErr =
     (if opErr \<noteq> None \<or> rttThreshold b > 0 \<and> rtt > rttThreshold b
      then b\<lparr>limit := max (minLimit b) (fl (limit b * backoffRatio b))\<rparr>
      else b\<lparr>limit := min (maxLimit b) (fl (limit b + 1))\<rparr>)"

definition adaptive_release :: "(real \<Rightarrow> real) \<Rightarrow> adaptive_bulkhead \<Rightarrow> int \<Rightarrow> error option \<Rightarrow> adaptive_bulkhead" where
  "adaptive_release fl b rtt opErr = adjust fl (if inFlight b > 0 then b\<lparr>inFlight := inFlight b - 1\<rparr> else b) rtt opErr"

text \<open>The release follows the call of \<open>fn\<close> and is not deferred: a panic skips it.\<close>

definition adaptive_TryExecute ::
  "(real \<Rightarrow> real) \<Rightarrow> adaptive_bulkhead \<Rightarrow> int \<Rightarrow> error option outcome \<Rightarrow> adaptive_bulkhead \<times> error option outcome" where
  "adaptive_TryExecute fl b rtt fn =
     (case adaptive_enter b of
        None \<Rightarrow> (b, Return (Some ErrAdaptiveFull))
      | Some b' \<Rightarrow>
          (case fn of
             Panic v \<Rightarrow> (b', Panic v)
           | Return err \<Rightarrow> (adaptive_release fl b' rtt err, Return err)))"

text \<open>
  \<^verbatim>\<open>acquire\<close> looks for a slot first and at the context only when there is none.  Each wait ends with
  the context's error or with the state another caller's release left; an empty list: the call waits.
\<close>

fun acquire :: "adaptive_bulkhead \<Rightarrow> (error + adaptive_bulkhead) list \<Rightarrow> (adaptive_bulkhead \<times> error option) option" where
  "acquire b [] = map_option (\<lambda>b'. (b', None)) (adaptive_enter b)"
| "acquire b (w # ws) =
     (case adaptive_enter b of
        Some b' \<Rightarrow> Some (b', None)
      | None \<Rightarrow> (case w of Inl cause \<Rightarrow> Some (b, wait_canceled cause) | Inr b' \<Rightarrow> acquire b' ws))"

text \<open>The state of the bulkhead while \<open>fn\<close> runs is left to the callers; here nobody else uses it in that time.\<close>

definition adaptive_Execute ::
  "(real \<Rightarrow> real) \<Rightarrow> adaptive_bulkhead \<Rightarrow> (error + adaptive_bulkhead) list \<Rightarrow> int \<Rightarrow> error option outcome
   \<Rightarrow> (adaptive_bulkhead \<times> error option outcome) option" where
  "adaptive_Execute fl b ws rtt fn =
     (case acquire b ws of
        None \<Rightarrow> None
      | Some (b', Some e) \<Rightarrow> Some (b', Return (Some e))
      | Some (b', None) \<Rightarrow>
          Some (case fn of
                  Panic v \<Rightarrow> (b', Panic v)
                | Return err \<Rightarrow> (adaptive_release fl b' rtt err, Return err)))"

section \<open>Operations in flight\<close>

text \<open>
  The states a bulkhead reaches when callers enter and leave it in any order, with the number
  of operations that are running.  A caller that finds no slot waits or gives up; both
  leave the state as it is.
\<close>

inductive bulkhead_reach ::
  "('b \<Rightarrow> 'b option) \<Rightarrow> ('b \<Rightarrow> int \<Rightarrow> error option \<Rightarrow> 'b) \<Rightarrow> 'b \<Rightarrow> 'b \<Rightarrow> nat \<Rightarrow> bool" for enter leave b0 where
  start: "bulkhead_reach enter leave b0 b0 0"
| enters: "bulkhead_reach enter leave b0 b n \<Longrightarrow> enter b = Some b' \<Longrightarrow> bulkhead_reach enter leave b0 b' (Suc n)"
| leaves: "bulkhead_reach enter leave b0 b (Suc n) \<Longrightarrow> bulkhead_reach enter leave b0 (leave b rtt err) n"

section \<open>Throttler (adaptivethrottle.go)\<close>

text \<open>Every operation rounds, as on amd64; no multiply-add is fused.\<close>

record Throttler =
  requests :: real
  accepts :: real
  throttle_k :: real
  throttle_decay :: real

definition ErrThrottled :: error where
  "ErrThrottled = New CodeUnavailable ''adaptivethrottle: request shed by client-side adaptive throttling''"

definition throttle_New :: "(real \<Rightarrow> real) \<Rightarrow> real \<Rightarrow> real \<Rightarrow> Throttler" where
  "throttle_New fl k d =
     \<lparr>requests = 0, accepts = 0, throttle_k = (if k \<le> 0 then 2 else k),
      throttle_decay = (if d \<le> 0 \<or> d > 1 then fl (98 / 100) else d)\<rparr>"

definition rejectionProbability :: "(real \<Rightarrow> real) \<Rightarrow> Throttler \<Rightarrow> real" where
  "rejectionProbability fl t =
     max 0 (fl (fl (requests t - fl (throttle_k t * accepts t)) / fl (requests t + 1)))"

text \<open>The part of \<^verbatim>\<open>Do\<close> under the mutex: age the window, decide with the random draw, count the request.\<close>

definition throttle_admit :: "(real \<Rightarrow> real) \<Rightarrow> Throttler \<Rightarrow> real \<Rightarrow> Throttler \<times> bool" where
  "throttle_admit fl t draw =
     (let t = t\<lparr>requests := fl (requests t * throttle_decay t), accepts := fl (accepts t * throttle_decay t)\<rparr>;
          shed = (draw < rejectionProbability fl t)
      in (t\<lparr>requests := fl (requests t + 1)\<rparr>, shed))"

definition throttle_accept :: "(real \<Rightarrow> real) \<Rightarrow> Throttler \<Rightarrow> Throttler" where
  "throttle_accept fl t = t\<lparr>accepts := fl (accepts t + 1)\<rparr>"

definition throttle_Do ::
  "(real \<Rightarrow> real) \<Rightarrow> Throttler \<Rightarrow> real \<Rightarrow> error option \<Rightarrow> Throttler \<times> nat \<times> error option" where
  "throttle_Do fl t draw op =
     (case throttle_admit fl t draw of
        (t, True) \<Rightarrow> (t, 0, Some ErrThrottled)
      | (t, False) \<Rightarrow> (if op = None then throttle_accept fl t else t, 1, op))"

section \<open>Deduplicator (dedup.go)\<close>

record dedup =
  seen :: "string \<rightharpoonup> int"
  dedup_ttl :: int

definition NewMemory :: "int \<Rightarrow> dedup" where
  "NewMemory d = \<lparr>seen = Map.empty, dedup_ttl = d\<rparr>"

definition Seen :: "dedup \<Rightarrow> int \<Rightarrow> string \<Rightarrow> dedup \<times> bool" where
  "Seen m now key =
     (case seen m key of
        Some seenAt \<Rightarrow> if dedup_ttl m = 0 \<or> now - seenAt < dedup_ttl m then (m, True) else (m\<lparr>seen := (seen m)(key \<mapsto> now)\<rparr>, False)
      | None \<Rightarrow> (m\<lparr>seen := (seen m)(key \<mapsto> now)\<rparr>, False))"

fun Seen_run :: "dedup \<Rightarrow> (int \<times> string) list \<Rightarrow> (int \<times> string \<times> bool) list" where
  "Seen_run m [] = []"
| "Seen_run m ((now, key) # es) = (case Seen m now key of (m', dup) \<Rightarrow> (now, key, dup) # Seen_run m' es)"

section \<open>Dead letters (deadletter.go)\<close>

text \<open>The backend's new state, what \<^verbatim>\<open>Send\<close> reports, and whether it logged; \<open>logger\<close>: a logger is set.\<close>

definition deadletter_Send ::
  "('s \<Rightarrow> 'l \<Rightarrow> 's \<times> error option) \<Rightarrow> bool \<Rightarrow> 's \<Rightarrow> 'l \<Rightarrow> 's \<times> bool \<times> bool" where
  "deadletter_Send backend logger st letter =
     (case backend st letter of
        (st', None) \<Rightarrow> (st', True, False)
      | (st', Some e) \<Rightarrow> (st', False, logger))"

definition stub_backend :: "'l list \<Rightarrow> 'l \<Rightarrow> 'l list \<times> error option" where
  "stub_backend letters letter = (letters @ [letter], None)"

section \<open>Hedger (hedge.go)\<close>

text \<open>What a wait sees first: the result of an attempt or the end of the context.\<close>

datatype hedge_event = Responds "error option" | CtxEnds error

definition hedge_canceled :: "error \<Rightarrow> error option" where
  "hedge_canceled cause = Wrap (Some cause) (ContextCode (Some cause) CodeCanceled) ''hedged call canceled''"

fun hedge_select :: "hedge_event \<Rightarrow> error option" where
  "hedge_select (Responds err) = err"
| "hedge_select (CtxEnds cause) = hedge_canceled cause"

text \<open>
  The result and the number of attempts started.  \<open>first = None\<close>: the timer fires before the first
  attempt responds and the context ends.
\<close>

definition delay_Hedge :: "hedge_event option \<Rightarrow> hedge_event \<Rightarrow> error option \<times> nat" where
  "delay_Hedge first second =
     (case first of
        Some ev \<Rightarrow> (hedge_select ev, 1)
      | None \<Rightarrow> (hedge_select second, 2))"

definition disabled_Hedge :: "error option \<Rightarrow> error option \<times> nat" where
  "disabled_Hedge op = (op, 1)"

section \<open>Breaker policy (gobreaker/breaker.go)\<close>

record Counts =
  cnt_Requests :: nat
  cnt_TotalFailures :: nat
  cnt_ConsecutiveFailures :: nat

record breaker_Config =
  cb_Name :: string
  cb_Interval :: int
  cb_Timeout :: int
  cb_MaxRequests :: nat
  cb_ConsecutiveFailures :: nat
  cb_FailureRatio :: real
  cb_MinRequests :: nat

definition gobreaker_DefaultConfig :: "string \<Rightarrow> breaker_Config" where
  "gobreaker_DefaultConfig name =
     \<lparr>cb_Name = name, cb_Interval = 60 * Second, cb_Timeout = 30 * Second, cb_MaxRequests = 1,
      cb_ConsecutiveFailures = 5, cb_FailureRatio = 1 / 2, cb_MinRequests = 10\<rparr>"

definition IsSuccessful :: "error option \<Rightarrow> bool" where
  "IsSuccessful err = (err = None \<or> \<not> IsRetryable err)"

definition ReadyToTrip :: "(real \<Rightarrow> real) \<Rightarrow> breaker_Config \<Rightarrow> Counts \<Rightarrow> bool" where
  "ReadyToTrip fl cfg c =
     (if cnt_ConsecutiveFailures c \<ge> cb_ConsecutiveFailures cfg then True
      else cb_MinRequests cfg > 0 \<and> cnt_Requests c \<ge> cb_MinRequests cfg
        \<and> fl (of_nat (cnt_TotalFailures c) / of_nat (cnt_Requests c)) \<ge> cb_FailureRatio cfg)"

section \<open>Lemmas: the retry budget\<close>

inductive_cases consume_stepE: "consume_step (r, pc) st"

definition granted :: "('t \<Rightarrow> consume_pc) \<Rightarrow> 't set" where
  "granted pc = {t. pc t = Returned True}"

text \<open>
  What holds at every point of every interleaving: tokens are neither lost nor made, the
  counter does not leave its range, and a call is refused only when no token is left.
\<close>

definition budget_inv :: "int \<Rightarrow> int \<times> ('t \<Rightarrow> consume_pc) \<Rightarrow> bool" where
  "budget_inv r0 st \<longleftrightarrow>
     (case st of (r, pc) \<Rightarrow>
        finite (granted pc) \<and> int (card (granted pc)) + r = r0 \<and> (r = r0 \<or> 0 \<le> r)
        \<and> (\<forall>t c. pc t = Swapping c \<longrightarrow> 0 < c) \<and> ((\<exists>t. pc t = Returned False) \<longrightarrow> r \<le> 0))"

lemma granted_upd_other [simp]: "pc t \<noteq> Returned True \<Longrightarrow> x \<noteq> Returned True \<Longrightarrow> granted (pc(t := x)) = granted pc"
  by (auto simp: granted_def)

lemma granted_upd_True: "granted (pc(t := Returned True)) = insert t (granted pc)"
  by (auto simp: granted_def)

lemma int32_pred: "0 < c \<Longrightarrow> c \<le> MaxInt32 \<Longrightarrow> int32 (c - 1) = c - 1"
  by (rule int32_id) (simp_all add: MinInt32_def)

lemma budget_inv_step:
  assumes "consume_step st st'" and "budget_inv r0 st" and "r0 \<le> MaxInt32"
  shows "budget_inv r0 st'"
  using assms(1,2)
proof (cases rule: consume_step.cases)
  case (swap pc t c r)
  have c: "0 < c" "c \<le> MaxInt32" using assms swap by (auto simp: budget_inv_def)
  have "t \<notin> granted pc" using swap by (simp add: granted_def)
  then show ?thesis using assms(2) swap c int32_pred [OF c]
    by (auto simp: budget_inv_def granted_upd_True split: if_splits)
qed (auto simp: budget_inv_def split: if_splits)

lemma budget_inv_reach:
  assumes "consume_step\<^sup>*\<^sup>* (r0, \<lambda>_. Loading) st" and "r0 \<le> MaxInt32"
  shows "budget_inv r0 st"
  using assms(1)
proof (induction rule: rtranclp_induct)
  case base
  then show ?case by (simp add: budget_inv_def granted_def)
next
  case (step y z)
  then show ?case using budget_inv_step assms(2) by blast
qed

lemma consume_not_stuck: "(\<And>b. pc t \<noteq> Returned b) \<Longrightarrow> \<exists>st. consume_step (r, pc) st"
proof (cases "pc t")
  case Loading
  then show ?thesis using consume_step.empty consume_step.load by (metis not_le)
next
  case (Swapping c)
  then show ?thesis using consume_step.swap consume_step.lost by metis
qed auto

lemma consume_alone:
  assumes "pc t = Loading" and "ConsumeRetry (Some r) = (Some r', ok)"
  shows "consume_step\<^sup>*\<^sup>* (r, pc) (r', pc(t := Returned ok))"
proof (cases "r \<le> 0")
  case True
  then show ?thesis using assms consume_step.empty [of pc t r] by (auto simp: ConsumeRetry_def)
next
  case False
  have "consume_step (r, pc) (r, pc(t := Swapping r))" using assms False by (intro consume_step.load) auto
  moreover have "consume_step (r, pc(t := Swapping r)) (int32 (r - 1), (pc(t := Swapping r))(t := Returned True))"
    by (rule consume_step.swap) auto
  ultimately show ?thesis using assms False
    by (auto simp: ConsumeRetry_def intro: rtranclp.rtrancl_into_rtrancl)
qed

section \<open>Lemmas: the bulkheads\<close>

text \<open>What a bulkhead promises the operations that run in it.\<close>

locale bulkhead =
  fixes enter :: "'b \<Rightarrow> 'b option"
    and leave :: "'b \<Rightarrow> int \<Rightarrow> error option \<Rightarrow> 'b"
    and running :: "'b \<Rightarrow> nat"
    and most :: "'b \<Rightarrow> nat"
    and inv :: "'b \<Rightarrow> bool"
  assumes enter_inv: "inv b \<Longrightarrow> enter b = Some b' \<Longrightarrow> inv b' \<and> most b' = most b"
    and enter_running: "inv b \<Longrightarrow> enter b = Some b' \<Longrightarrow> running b' = Suc (running b) \<and> running b' \<le> most b"
    and enter_idle: "inv b \<Longrightarrow> running b = 0 \<Longrightarrow> enter b \<noteq> None"
    and leave_inv: "inv b \<Longrightarrow> inv (leave b rtt err) \<and> most (leave b rtt err) = most b"
    and leave_running: "inv b \<Longrightarrow> running (leave b rtt err) = running b - 1"
begin

lemma reach_bounded:
  assumes "bulkhead_reach enter leave b0 b n" and "inv b0" and "running b0 = 0"
  shows "inv b \<and> running b = n \<and> n \<le> most b0 \<and> most b = most b0"
  using assms(1)
proof (induction rule: bulkhead_reach.induct)
  case start
  then show ?case using assms by simp
next
  case (enters b n b')
  then show ?case using enter_inv enter_running by metis
next
  case (leaves b n rtt err)
  then show ?case using leave_inv leave_running by simp
qed

lemma drained_admits:
  assumes "bulkhead_reach enter leave b0 b 0" and "inv b0" and "running b0 = 0"
  shows "enter b \<noteq> None"
  using reach_bounded [OF assms] enter_idle by blast

end

interpretation chan: bulkhead channel_enter channel_leave sem_used sem_cap "\<lambda>b. 0 < sem_cap b"
  by unfold_locales (auto simp: channel_enter_def channel_leave_def split: if_splits)

lemma rounding_mono: "rounding fl \<Longrightarrow> x \<le> y \<Longrightarrow> fl x \<le> fl y"
  by (simp add: rounding_def monoD)

lemma rounding_idem: "rounding fl \<Longrightarrow> fl (fl x) = fl x"
  by (simp add: rounding_def)

lemma rounding_exact: "rounding fl \<Longrightarrow> \<bar>n\<bar> \<le> 2 ^ 53 \<Longrightarrow> k \<le> 1000 \<Longrightarrow> fl (of_int n / 2 ^ k) = of_int n / 2 ^ k"
  unfolding rounding_def by blast

lemma rounding_int: "rounding fl \<Longrightarrow> \<bar>n\<bar> \<le> 2 ^ 53 \<Longrightarrow> fl (of_int n) = of_int n"
  using rounding_exact [of fl n 0] by simp

lemma rounding_one: "rounding fl \<Longrightarrow> fl 1 = 1"
  using rounding_int [of fl 1] by simp

lemma rounding_zero: "rounding fl \<Longrightarrow> fl 0 = 0"
  using rounding_int [of fl 0] by simp

lemma rounding_id: "rounding (\<lambda>x. x)"
  by (simp add: rounding_def mono_def)

definition adaptive_inv :: "(real \<Rightarrow> real) \<Rightarrow> adaptive_bulkhead \<Rightarrow> bool" where
  "adaptive_inv fl b \<longleftrightarrow>
     1 \<le> minLimit b \<and> minLimit b \<le> limit b \<and> limit b \<le> maxLimit b
     \<and> fl (minLimit b) = minLimit b \<and> fl (maxLimit b) = maxLimit b \<and> backoffRatio b \<le> 1"

abbreviation adaptive_most :: "adaptive_bulkhead \<Rightarrow> nat" where
  "adaptive_most b \<equiv> nat \<lfloor>maxLimit b\<rfloor>"

lemma Limit_bounds: "adaptive_inv fl b \<Longrightarrow> 1 \<le> Limit b \<and> Limit b \<le> adaptive_most b"
proof -
  assume "adaptive_inv fl b"
  then have "1 \<le> limit b" "limit b \<le> maxLimit b" by (auto simp: adaptive_inv_def)
  then have "1 \<le> \<lfloor>limit b\<rfloor>" "\<lfloor>limit b\<rfloor> \<le> \<lfloor>maxLimit b\<rfloor>" by (simp_all add: floor_mono)
  then show ?thesis unfolding Limit_def by linarith
qed

lemma adjust_fields [simp]:
  "inFlight (adjust fl b rtt e) = inFlight b" "minLimit (adjust fl b rtt e) = minLimit b"
  "maxLimit (adjust fl b rtt e) = maxLimit b" "backoffRatio (adjust fl b rtt e) = backoffRatio b"
  by (simp_all add: adjust_def)

lemma adjust_inv:
  assumes fl: "rounding fl" and inv: "adaptive_inv fl b"
  shows "adaptive_inv fl (adjust fl b rtt e)"
proof -
  have "fl (limit b * backoffRatio b) \<le> fl (maxLimit b)"
  proof (rule rounding_mono [OF fl])
    have "limit b * backoffRatio b \<le> limit b * 1"
      using inv by (intro mult_left_mono) (auto simp: adaptive_inv_def)
    also have "\<dots> \<le> maxLimit b" using inv by (simp add: adaptive_inv_def)
    finally show "limit b * backoffRatio b \<le> maxLimit b" .
  qed
  moreover have "fl (minLimit b) \<le> fl (limit b + 1)"
    using inv by (intro rounding_mono [OF fl]) (simp add: adaptive_inv_def)
  ultimately have "minLimit b \<le> limit (adjust fl b rtt e) \<and> limit (adjust fl b rtt e) \<le> maxLimit b"
    using inv by (auto simp: adaptive_inv_def adjust_def)
  then show ?thesis using inv by (simp add: adaptive_inv_def)
qed

lemma adaptive_release_inv:
  assumes "rounding fl" and "adaptive_inv fl b"
  shows "adaptive_inv fl (adaptive_release fl b rtt e)"
  unfolding adaptive_release_def
  by (rule adjust_inv [OF assms(1)]) (use assms(2) in \<open>simp add: adaptive_inv_def\<close>)

lemma adaptive_enter_SomeD:
  "adaptive_enter b = Some b' \<Longrightarrow> b' = b\<lparr>inFlight := inFlight b + 1\<rparr> \<and> inFlight b < Limit b"
  by (auto simp: adaptive_enter_def split: if_splits)

lemma adaptive_bulkhead_laws:
  assumes fl: "rounding fl"
  shows "bulkhead adaptive_enter (adaptive_release fl) inFlight adaptive_most (adaptive_inv fl)"
proof
  fix b b' rtt err
  assume inv: "adaptive_inv fl b"
  show "adaptive_inv fl (adaptive_release fl b rtt err) \<and> adaptive_most (adaptive_release fl b rtt err) = adaptive_most b"
    using adaptive_release_inv [OF fl inv] by (simp add: adaptive_release_def)
  show "inFlight (adaptive_release fl b rtt err) = inFlight b - 1" by (simp add: adaptive_release_def)
  show "inFlight b = 0 \<Longrightarrow> adaptive_enter b \<noteq> None" using Limit_bounds [OF inv] by (simp add: adaptive_enter_def)
  assume "adaptive_enter b = Some b'"
  then have b': "b' = b\<lparr>inFlight := inFlight b + 1\<rparr>" and lt: "inFlight b < Limit b" using adaptive_enter_SomeD by blast+
  show "adaptive_inv fl b' \<and> adaptive_most b' = adaptive_most b" using inv b' by (simp add: adaptive_inv_def)
  show "inFlight b' = Suc (inFlight b) \<and> inFlight b' \<le> adaptive_most b"
    using Limit_bounds [OF inv] b' lt by simp
qed

text \<open>The adaptive bulkhead keeps the contract under every rounding of its arithmetic.\<close>

locale float_rounding =
  fixes fl :: "real \<Rightarrow> real"
  assumes fl: "rounding fl"
begin

lemma mono_fl: "x \<le> y \<Longrightarrow> fl x \<le> fl y"
  by (rule rounding_mono [OF fl])

lemma fl_nonneg: "0 \<le> x \<Longrightarrow> 0 \<le> fl x"
  using mono_fl [of 0 x] by (simp add: rounding_zero [OF fl])

lemma fl_nonpos: "x \<le> 0 \<Longrightarrow> fl x \<le> 0"
  using mono_fl [of x 0] by (simp add: rounding_zero [OF fl])

lemma fl_le_1: "x \<le> 1 \<Longrightarrow> fl x \<le> 1"
  using mono_fl [of x 1] by (simp add: rounding_one [OF fl])

lemma fl_ge_1: "1 \<le> x \<Longrightarrow> 1 \<le> fl x"
  using mono_fl [of 1 x] by (simp add: rounding_one [OF fl])

lemma fl_max: "fl x = x \<Longrightarrow> fl y = y \<Longrightarrow> fl (max x y) = max x y"
  by (simp add: max_def)

lemma New_inv: "adaptive_inv fl (adaptive_New fl cfg) \<and> inFlight (adaptive_New fl cfg) = 0"
  by (simp add: adaptive_inv_def adaptive_New_def Let_def fl_max rounding_idem [OF fl] rounding_one [OF fl] fl_le_1)

lemma New_most:
  assumes "\<bar>MinConcurrent cfg\<bar> \<le> 2 ^ 53" and "\<bar>MaxConcurrent cfg\<bar> \<le> 2 ^ 53"
  shows "adaptive_most (adaptive_New fl cfg) = nat (max 1 (max (MinConcurrent cfg) (MaxConcurrent cfg)))"
proof -
  have "maxLimit (adaptive_New fl cfg) = of_int (max 1 (max (MinConcurrent cfg) (MaxConcurrent cfg)))"
    using assms by (simp add: adaptive_New_def Let_def rounding_int [OF fl] max_def)
  then show ?thesis by (simp only: floor_of_int)
qed

end

sublocale float_rounding \<subseteq> fl_bulkhead: bulkhead adaptive_enter "adaptive_release fl" inFlight adaptive_most "adaptive_inv fl"
  by (rule adaptive_bulkhead_laws [OF fl])

interpretation exact: float_rounding "\<lambda>x. x"
  by unfold_locales (rule rounding_id)

lemma float_roundingI: "rounding fl \<Longrightarrow> float_rounding fl"
  by unfold_locales

lemma panics_fill:
  assumes "inFlight b = 0" and "k \<le> Limit b"
  shows "((\<lambda>b. fst (adaptive_TryExecute fl b rtt (Panic v))) ^^ k) b = b\<lparr>inFlight := k\<rparr>"
  using assms(2)
proof (induction k)
  case 0
  then show ?case using assms(1) by (cases b) simp
next
  case (Suc k)
  then show ?case by (simp add: adaptive_TryExecute_def adaptive_enter_def Limit_def)
qed

section \<open>Properties: budget and bulkheads\<close>

text \<open>
  C29. However concurrent calls of \<^verbatim>\<open>ConsumeRetry\<close> on one budget of \<open>r0\<close> interleave, at most \<open>r0\<close> are
  granted, the counter holds exactly what is left, and no call is refused before all \<open>r0\<close> are granted.
\<close>

theorem budget_exact:
  assumes "consume_step\<^sup>*\<^sup>* (r0, \<lambda>_. Loading) (r, pc)" and "r0 \<le> MaxInt32"
  shows "finite (granted pc) \<and> r = r0 - int (card (granted pc)) \<and> card (granted pc) \<le> nat r0
    \<and> ((\<exists>t. pc t = Returned False) \<longrightarrow> card (granted pc) = nat r0)"
  using budget_inv_reach [OF assms] by (auto simp: budget_inv_def)

theorem budget_exact_witness:
  "consume_step\<^sup>*\<^sup>* (1, \<lambda>_. Loading) (0, (\<lambda>_. Loading)(True := Returned True, False := Returned False))
   \<and> card (granted ((\<lambda>_. Loading)(True := Returned True, False := Returned False))) = 1"
proof -
  have 1: "consume_step\<^sup>*\<^sup>* (1, \<lambda>_. Loading) (0, (\<lambda>_::bool. Loading)(True := Returned True))"
    by (rule consume_alone) (simp_all add: ConsumeRetry_def int32_id MinInt32_def MaxInt32_def)
  have 2: "consume_step\<^sup>*\<^sup>* (0, (\<lambda>_::bool. Loading)(True := Returned True))
     (0, (\<lambda>_. Loading)(True := Returned True, False := Returned False))"
    by (rule consume_alone) (simp_all add: ConsumeRetry_def)
  have r: "consume_step\<^sup>*\<^sup>* (1, \<lambda>_. Loading) (0, (\<lambda>_::bool. Loading)(True := Returned True, False := Returned False))"
    using 1 2 by (rule rtranclp_trans)
  show ?thesis using budget_exact [OF r] r by (simp add: MaxInt32_def)
qed


lemma default_enters:
  "bulkhead_reach adaptive_enter (adaptive_release (\<lambda>x. x)) (adaptive_New (\<lambda>x. x) (adaptive_DefaultConfig (\<lambda>x. x)))
     ((adaptive_New (\<lambda>x. x) (adaptive_DefaultConfig (\<lambda>x. x)))\<lparr>inFlight := 1\<rparr>) 1"
proof -
  have "adaptive_enter (adaptive_New (\<lambda>x. x) (adaptive_DefaultConfig (\<lambda>x. x)))
      = Some ((adaptive_New (\<lambda>x. x) (adaptive_DefaultConfig (\<lambda>x. x)))\<lparr>inFlight := 1\<rparr>)"
    by (simp add: adaptive_enter_def adaptive_New_def adaptive_DefaultConfig_def Limit_def Let_def)
  then show ?thesis using bulkhead_reach.enters [OF bulkhead_reach.start] by fastforce
qed


text \<open>
  C31. The adaptive bulkhead loses a slot to every operation that panics.  After as many panics as
  its limit admits, with nothing running, it refuses every operation and a blocking call waits
  until its context ends; the channel bulkhead is as it was after a panic.
\<close>

theorem adaptive_panic_leak:
  "let b = ((\<lambda>b. fst (adaptive_TryExecute fl b rtt (Panic v))) ^^ Limit (adaptive_New fl cfg)) (adaptive_New fl cfg)
   in adaptive_TryExecute fl b rtt' fn = (b, Return (Some ErrAdaptiveFull))
      \<and> adaptive_Execute fl b [] rtt' fn = None
      \<and> adaptive_Execute fl b [Inl cause] rtt' fn = Some (b, Return (wait_canceled cause))
      \<and> fst (channel_TryExecute c (Panic v)) = c"
proof -
  let ?b0 = "adaptive_New fl cfg"
  have b: "((\<lambda>b. fst (adaptive_TryExecute fl b rtt (Panic v))) ^^ Limit ?b0) ?b0 = ?b0\<lparr>inFlight := Limit ?b0\<rparr>"
    by (rule panics_fill) (simp_all add: adaptive_New_def Let_def)
  have full: "adaptive_enter (?b0\<lparr>inFlight := Limit ?b0\<rparr>) = None"
    by (simp add: adaptive_enter_def Limit_def)
  show ?thesis unfolding b Let_def
    by (simp add: full adaptive_TryExecute_def adaptive_Execute_def wait_canceled_def Wrap_def
        channel_TryExecute_def channel_enter_def channel_leave_def)
qed

text \<open>The channel bulkhead keeps the same promise with its fixed size.\<close>

lemma channel_bounded:
  assumes "channel_New n = Return b0" and "0 < n" and "bulkhead_reach channel_enter channel_leave b0 b m"
  shows "sem_used b = m \<and> int m \<le> n \<and> (m = 0 \<longrightarrow> channel_enter b \<noteq> None)"
proof -
  have b0: "0 < sem_cap b0" "sem_used b0 = 0" "int (sem_cap b0) = n"
    using assms(1,2) by (auto simp: channel_New_def split: if_splits)
  show ?thesis
    using chan.reach_bounded [OF assms(3) b0(1,2)] chan.drained_admits [OF _ b0(1,2)] assms(3) b0(3) by auto
qed

section \<open>Lemmas: throttler\<close>

text \<open>A run of calls, each with its random draw and the operation's result; the list tells which were shed.\<close>

fun throttle_run :: "(real \<Rightarrow> real) \<Rightarrow> Throttler \<Rightarrow> (real \<times> error option) list \<Rightarrow> Throttler \<times> bool list" where
  "throttle_run fl t [] = (t, [])"
| "throttle_run fl t ((draw, op) # cs) =
     (case throttle_Do fl t draw op of
        (t', runs, r) \<Rightarrow> (case throttle_run fl t' cs of (t'', ss) \<Rightarrow> (t'', (runs = 0) # ss)))"

definition throttle_inv :: "(real \<Rightarrow> real) \<Rightarrow> Throttler \<Rightarrow> bool" where
  "throttle_inv fl t \<longleftrightarrow>
     0 \<le> requests t \<and> 0 \<le> accepts t \<and> fl (requests t) = requests t \<and> fl (accepts t) = accepts t
     \<and> 0 < throttle_k t \<and> 0 \<le> throttle_decay t"

context float_rounding
begin

lemma throttle_New_inv: "throttle_inv fl (throttle_New fl k d)"
  using fl_nonneg [of "98 / 100"] by (simp add: throttle_inv_def throttle_New_def rounding_zero [OF fl])

lemma throttle_Do_inv: "throttle_inv fl t \<Longrightarrow> throttle_inv fl (fst (throttle_Do fl t draw op))"
  by (auto simp: throttle_inv_def throttle_Do_def throttle_admit_def throttle_accept_def Let_def
      fl_nonneg rounding_idem [OF fl] split: bool.splits)

lemma rejection_bounds:
  assumes "throttle_inv fl t"
  shows "0 \<le> rejectionProbability fl t \<and> rejectionProbability fl t \<le> 1"
proof -
  have r: "0 \<le> requests t" "fl (requests t) = requests t" using assms by (auto simp: throttle_inv_def)
  have "fl (requests t - fl (throttle_k t * accepts t)) \<le> fl (requests t)"
    using assms by (intro mono_fl) (simp add: fl_nonneg throttle_inv_def)
  also have "\<dots> \<le> fl (requests t + 1)" by (intro mono_fl) simp
  finally have "fl (requests t - fl (throttle_k t * accepts t)) / fl (requests t + 1) \<le> 1"
    using fl_ge_1 [of "requests t + 1"] r by simp
  then show ?thesis using fl_le_1 by (simp add: rejectionProbability_def)
qed

lemma throttle_run_inv: "throttle_inv fl t \<Longrightarrow> throttle_inv fl (fst (throttle_run fl t cs))"
proof (induction cs arbitrary: t)
  case (Cons c cs)
  obtain draw op where c: "c = (draw, op)" by (cases c)
  obtain t' n r where D: "throttle_Do fl t draw op = (t', n, r)" by (metis prod_cases3)
  then have "throttle_inv fl t'" using throttle_Do_inv [OF Cons.prems, of draw op] by simp
  then show ?case using Cons.IH [of t'] c D by (simp add: case_prod_beta)
qed simp

lemma healthy_no_rejection:
  assumes "throttle_inv fl t" and "requests t = accepts t" and "1 \<le> throttle_k t"
  shows "rejectionProbability fl t = 0"
proof -
  have "accepts t \<le> fl (throttle_k t * accepts t)"
  proof -
    have "1 * accepts t \<le> throttle_k t * accepts t" using assms by (intro mult_right_mono) (auto simp: throttle_inv_def)
    then have "fl (accepts t) \<le> fl (throttle_k t * accepts t)" by (intro mono_fl) simp
    then show ?thesis using assms(1) by (simp add: throttle_inv_def)
  qed
  then have "fl (requests t - fl (throttle_k t * accepts t)) \<le> 0" using assms(2) by (intro fl_nonpos) simp
  moreover have "1 \<le> fl (requests t + 1)" using assms(1) by (intro fl_ge_1) (simp add: throttle_inv_def)
  ultimately have "fl (requests t - fl (throttle_k t * accepts t)) / fl (requests t + 1) \<le> 0"
    by (simp add: divide_nonpos_pos)
  then show ?thesis using fl_nonpos by (simp add: rejectionProbability_def)
qed

lemma healthy_Do:
  assumes "throttle_inv fl t" and "requests t = accepts t" and "1 \<le> throttle_k t" and "0 \<le> draw"
  shows "\<exists>t'. throttle_Do fl t draw None = (t', 1, None) \<and> throttle_inv fl t' \<and> requests t' = accepts t'
    \<and> throttle_k t' = throttle_k t"
proof -
  define u where "u = t\<lparr>requests := fl (requests t * throttle_decay t), accepts := fl (accepts t * throttle_decay t)\<rparr>"
  have "throttle_inv fl u"
    using assms(1) by (simp add: u_def throttle_inv_def fl_nonneg rounding_idem [OF fl])
  then have "rejectionProbability fl u = 0"
    using assms(2,3) by (intro healthy_no_rejection) (simp_all add: u_def)
  then have D: "throttle_Do fl t draw None = (throttle_accept fl (u\<lparr>requests := fl (requests u + 1)\<rparr>), 1, None)"
    using assms(4) by (simp add: throttle_Do_def throttle_admit_def Let_def flip: u_def)
  then show ?thesis using throttle_Do_inv [OF assms(1), of draw None] assms(2)
    by (simp add: throttle_accept_def u_def)
qed

lemma healthy_run:
  assumes "throttle_inv fl t" and "requests t = accepts t" and "1 \<le> throttle_k t"
    and "\<forall>(draw, op) \<in> set cs. 0 \<le> draw \<and> op = None"
  shows "snd (throttle_run fl t cs) = replicate (length cs) False"
  using assms
proof (induction cs arbitrary: t)
  case (Cons c cs)
  obtain draw where c: "c = (draw, None)" "0 \<le> draw" using Cons.prems(4) by (cases c) auto
  obtain t' where t': "throttle_Do fl t draw None = (t', 1, None)" "throttle_inv fl t'" "requests t' = accepts t'"
      "throttle_k t' = throttle_k t"
    using healthy_Do [OF Cons.prems(1-3) c(2)] by blast
  then show ?case using Cons.IH [of t'] Cons.prems(3,4) c by (simp add: case_prod_beta)
qed simp

end

text \<open>
  after any run of calls the throttler's rejection probability lies in [0, 1], and while every
  call succeeds a throttler with \<open>K\<close> at least 1 sheds nothing, whatever the random draws are.
\<close>

lemma throttle_sound:
  assumes "rounding fl"
  shows "0 \<le> rejectionProbability fl (fst (throttle_run fl (throttle_New fl k d) cs))
    \<and> rejectionProbability fl (fst (throttle_run fl (throttle_New fl k d) cs)) \<le> 1
    \<and> (1 \<le> k \<and> (\<forall>(draw, op) \<in> set cs. 0 \<le> draw \<and> op = None)
        \<longrightarrow> snd (throttle_run fl (throttle_New fl k d) cs) = replicate (length cs) False)"
proof -
  have R: "float_rounding fl" using assms by (rule float_roundingI)
  note new = float_rounding.throttle_New_inv [OF R, of k d]
  show ?thesis
    using float_rounding.rejection_bounds [OF R float_rounding.throttle_run_inv [OF R new]]
      float_rounding.healthy_run [OF R new, of cs] by (auto simp: throttle_New_def)
qed

text \<open>A shed call returns the throttler's own error and never runs the operation.\<close>

lemma throttle_shed: "throttle_Do fl t draw op = (t', 0, r) \<Longrightarrow> r = Some ErrThrottled \<and> accepts t' = fl (accepts t * throttle_decay t)"
  by (auto simp: throttle_Do_def throttle_admit_def Let_def split: bool.splits if_splits)

section \<open>Lemmas: deduplicator\<close>

text \<open>When each key was last let through, read off the answers given so far.\<close>

definition let_through :: "(string \<rightharpoonup> int) \<Rightarrow> (int \<times> string \<times> bool) list \<Rightarrow> string \<rightharpoonup> int" where
  "let_through m answers = fold (\<lambda>(t, key, dup) m. if dup then m else m(key \<mapsto> t)) answers m"

lemma Seen_run_spec:
  assumes "j < length es" and "es ! j = (t, key)"
  shows "Seen_run m es ! j =
    (t, key, case let_through (seen m) (take j (Seen_run m es)) key of
               None \<Rightarrow> False | Some t0 \<Rightarrow> dedup_ttl m = 0 \<or> t - t0 < dedup_ttl m)"
  using assms
proof (induction es arbitrary: m j)
  case (Cons e es)
  obtain now k where e: "e = (now, k)" by (cases e)
  obtain m' dup where S: "Seen m now k = (m', dup)" by (cases "Seen m now k")
  have m': "seen m' = (if dup then seen m else (seen m)(k \<mapsto> now))" "dedup_ttl m' = dedup_ttl m"
    using S by (auto simp: Seen_def split: option.splits if_splits)
  show ?case
  proof (cases j)
    case 0
    then show ?thesis using Cons.prems e S by (auto simp: let_through_def Seen_def split: option.splits if_splits)
  next
    case (Suc i)
    then show ?thesis using Cons.IH [of i m'] Cons.prems e S m' by (simp add: let_through_def cong: option.case_cong)
  qed
qed simp

text \<open>
  C32. The deduplicator lets a message through exactly when its key was never let through before, or
  the ttl is not zero and at least the ttl has passed since the key was last let through.
\<close>

theorem Seen_exact:
  assumes "j < length es" and "es ! j = (t, key)"
  shows "Seen_run (NewMemory d) es ! j =
    (t, key, case let_through Map.empty (take j (Seen_run (NewMemory d) es)) key of
               None \<Rightarrow> False | Some t0 \<Rightarrow> d = 0 \<or> t - t0 < d)"
  using Seen_run_spec [OF assms, of "NewMemory d"] by (simp add: NewMemory_def cong: option.case_cong)

theorem Seen_exact_witness:
  "Seen_run (NewMemory 10) [(0, ''a''), (5, ''a''), (12, ''a'')] ! 2 = (12, ''a'', False)"
  using Seen_exact [of 2 "[(0, ''a''), (5, ''a''), (12, ''a'')]" 12 "''a''" 10]
  by (simp add: NewMemory_def Seen_def let_through_def numeral_2_eq_2)

section \<open>Lemmas: retrier, hedger, breaker, dead letters\<close>

text \<open>The budget is charged for the first attempt too: with none left the operation never runs.\<close>

lemma retry_attempt_charged:
  "retry_attempt f (Some r) op = (b', n, a) \<Longrightarrow> r \<le> MaxInt32 \<Longrightarrow>
   (n = 0 \<and> r \<le> 0 \<and> a = Permanent ErrRetryBudgetExhausted \<and> b' = Some r) \<or> (n = 1 \<and> 0 < r \<and> b' = Some (r - 1))"
  by (auto simp: retry_attempt_def ConsumeRetry_def int32_pred split: if_splits bool.splits)

text \<open>With the shared policy an error a retry cannot cure ends the loop and does not count against the breaker.\<close>

lemma permanent_not_counted:
  "retry_attempt IsRetryable None (Some e) = (None, 1, Permanent e) \<longleftrightarrow> IsSuccessful (Some e)"
  by (simp add: retry_attempt_def ConsumeRetry_def IsSuccessful_def)

lemma delay_Hedge_attempts: "snd (delay_Hedge first second) \<in> {1, 2} \<and> (snd (delay_Hedge first second) = 2 \<longleftrightarrow> first = None)"
  by (simp add: delay_Hedge_def split: option.splits)

lemma ReadyToTrip_mono:
  assumes "rounding fl" and "ReadyToTrip fl cfg c" and "cnt_Requests c' = cnt_Requests c"
    and "cnt_TotalFailures c \<le> cnt_TotalFailures c'" and "cnt_ConsecutiveFailures c \<le> cnt_ConsecutiveFailures c'"
  shows "ReadyToTrip fl cfg c'"
proof -
  have "real (cnt_TotalFailures c) / real (cnt_Requests c) \<le> real (cnt_TotalFailures c') / real (cnt_Requests c')"
    using assms(3,4) by (simp add: divide_right_mono)
  then have "fl (real (cnt_TotalFailures c) / real (cnt_Requests c)) \<le> fl (real (cnt_TotalFailures c') / real (cnt_Requests c'))"
    by (rule rounding_mono [OF assms(1)])
  then show ?thesis using assms(2,3,5) by (auto simp: ReadyToTrip_def split: if_splits)
qed

lemma deadletter_reported: "deadletter_Send backend lg st l = (st', ok, logged) \<Longrightarrow> ok = (snd (backend st l) = None) \<and> st' = fst (backend st l)"
  by (auto simp: deadletter_Send_def split: prod.splits option.splits)

lemma deadletter_stub: "deadletter_Send stub_backend lg st l = (st @ [l], True, False)"
  by (simp add: deadletter_Send_def stub_backend_def)

end
