(* ===== verification/Resilience_Config.thy ===== *)
theory Resilience_Config
  imports Resilience
begin

text \<open>
  How the resilience primitives are built: the tuning structs of
  \<^verbatim>\<open>foundation/config/schema/resilience\<close> with their defaults and validation, the builders of the
  packages \<^verbatim>\<open>retry\<close>, \<^verbatim>\<open>circuitbreaker\<close>, \<^verbatim>\<open>bulkhead\<close>, \<^verbatim>\<open>hedge\<close> and \<^verbatim>\<open>ratelimiter\<close>, and
  \<^verbatim>\<open>reswire\<close>, which overlays the loaded configuration on the defaults and calls the builders.
  The configuration loader is a parameter: \<open>None\<close> when the section is absent, otherwise what
  unmarshalling over a struct gives.  \<open>q\<close> is \<^verbatim>\<open>strconv.Quote\<close>, used in error texts only.
  Not-a-number and infinite floats are left out.
\<close>

section \<open>Functional options (foundation/options)\<close>

definition ApplyOptions :: "'c \<Rightarrow> ('c \<Rightarrow> 'c) option list \<Rightarrow> 'c" where
  "ApplyOptions target opts = fold (\<lambda>opt t. case opt of None \<Rightarrow> t | Some f \<Rightarrow> f t) opts target"

definition unknown_kind :: "string \<Rightarrow> string \<Rightarrow> error" where
  "unknown_kind what kind = New CodeInvalidInput (''unknown '' @ what @ '' kind: '' @ kind)"

definition Kind_default_String :: "int \<Rightarrow> string" where
  "Kind_default_String k = ''Kind('' @ Itoa k @ '')''"

section \<open>Retry (retry/retry.go, exponential/retry.go)\<close>

record exponential_Config =
  ex_MaxRetries :: int
  ex_InitialInterval :: int
  ex_MaxInterval :: int
  ex_Multiplier :: real
  ex_MaxElapsedTime :: int

definition exponential_DefaultConfig :: exponential_Config where
  "exponential_DefaultConfig =
     \<lparr>ex_MaxRetries = 3, ex_InitialInterval = 100 * Millisecond, ex_MaxInterval = 5 * Second,
      ex_Multiplier = 2, ex_MaxElapsedTime = 30 * Second\<rparr>"

text \<open>What is handed to the backoff library; \<open>opt_MaxTries = None\<close>: the option is not passed.\<close>

record retry_options =
  opt_Initial :: int
  opt_Max :: int
  opt_Multiplier :: real
  opt_Randomization :: real
  opt_MaxElapsed :: int
  opt_MaxTries :: "nat option"

definition retryOpts :: "exponential_Config \<Rightarrow> retry_options" where
  "retryOpts cfg =
     \<lparr>opt_Initial = ex_InitialInterval cfg, opt_Max = ex_MaxInterval cfg, opt_Multiplier = ex_Multiplier cfg,
      opt_Randomization = 1 / 2, opt_MaxElapsed = ex_MaxElapsedTime cfg,
      opt_MaxTries = (if ex_MaxRetries cfg > 0 then Some (nat (ex_MaxRetries cfg)) else None)\<rparr>"

record retry_Config =
  rt_Kind :: int
  rt_MaxRetries :: int
  rt_InitialInterval :: int
  rt_MaxInterval :: int
  rt_Multiplier :: real
  rt_MaxElapsedTime :: int

definition KindExponential :: int where "KindExponential = 0"

definition retry_Kind_String :: "int \<Rightarrow> string" where
  "retry_Kind_String k = (if k = KindExponential then ''exponential'' else Kind_default_String k)"

definition retry_DefaultConfig :: retry_Config where
  "retry_DefaultConfig =
     \<lparr>rt_Kind = KindExponential, rt_MaxRetries = 3, rt_InitialInterval = 100 * Millisecond,
      rt_MaxInterval = 5 * Second, rt_Multiplier = 2, rt_MaxElapsedTime = 30 * Second\<rparr>"

definition retry_NewFromConfig :: "retry_Config \<Rightarrow> error + exponential_Config" where
  "retry_NewFromConfig cfg =
     (if rt_Kind cfg = KindExponential
      then Inr \<lparr>ex_MaxRetries = rt_MaxRetries cfg, ex_InitialInterval = rt_InitialInterval cfg,
                ex_MaxInterval = rt_MaxInterval cfg, ex_Multiplier = rt_Multiplier cfg,
                ex_MaxElapsedTime = rt_MaxElapsedTime cfg\<rparr>
      else Inl (unknown_kind ''retrier'' (retry_Kind_String (rt_Kind cfg))))"

definition retry_New :: "int \<Rightarrow> (retry_Config \<Rightarrow> retry_Config) option list \<Rightarrow> error + exponential_Config" where
  "retry_New kind opts = retry_NewFromConfig (ApplyOptions (retry_DefaultConfig\<lparr>rt_Kind := kind\<rparr>) opts)"

section \<open>Circuit breaker (circuitbreaker/breaker.go)\<close>

record circuit_Config = breaker_Config +
  cb_Kind :: int

definition KindGoBreaker :: int where "KindGoBreaker = 0"

definition circuit_Kind_String :: "int \<Rightarrow> string" where
  "circuit_Kind_String k = (if k = KindGoBreaker then ''gobreaker'' else Kind_default_String k)"

definition circuit_DefaultConfig :: "string \<Rightarrow> circuit_Config" where
  "circuit_DefaultConfig name =
     \<lparr>cb_Name = name, cb_Interval = 60 * Second, cb_Timeout = 30 * Second, cb_MaxRequests = 1,
      cb_ConsecutiveFailures = 5, cb_FailureRatio = 1 / 2, cb_MinRequests = 10, cb_Kind = KindGoBreaker\<rparr>"

definition circuit_NewFromConfig :: "circuit_Config \<Rightarrow> error + breaker_Config" where
  "circuit_NewFromConfig cfg =
     (if cb_Kind cfg = KindGoBreaker
      then Inr \<lparr>cb_Name = cb_Name cfg, cb_Interval = cb_Interval cfg, cb_Timeout = cb_Timeout cfg,
                cb_MaxRequests = cb_MaxRequests cfg, cb_ConsecutiveFailures = cb_ConsecutiveFailures cfg,
                cb_FailureRatio = cb_FailureRatio cfg, cb_MinRequests = cb_MinRequests cfg\<rparr>
      else Inl (unknown_kind ''circuit breaker'' (circuit_Kind_String (cb_Kind cfg))))"

definition circuit_New ::
  "int \<Rightarrow> string \<Rightarrow> (circuit_Config \<Rightarrow> circuit_Config) option list \<Rightarrow> error + breaker_Config" where
  "circuit_New kind name opts =
     circuit_NewFromConfig (ApplyOptions ((circuit_DefaultConfig name)\<lparr>cb_Kind := kind\<rparr>) opts)"

section \<open>Bulkhead (bulkhead/bulkhead.go)\<close>

record bulkhead_Config = adaptive_Config +
  bh_Kind :: int

definition KindChannel :: int where "KindChannel = 0"
definition KindAdaptive :: int where "KindAdaptive = 1"

definition bulkhead_Kind_String :: "int \<Rightarrow> string" where
  "bulkhead_Kind_String k =
     (if k = KindChannel then ''channel'' else if k = KindAdaptive then ''adaptive'' else Kind_default_String k)"

definition bulkhead_DefaultConfig :: "(real \<Rightarrow> real) \<Rightarrow> bulkhead_Config" where
  "bulkhead_DefaultConfig fl =
     \<lparr>MinConcurrent = 1, MaxConcurrent = 10, InitialConcurrent = 5, RTTThreshold = 100 * Millisecond,
      BackoffRatio = fl (9 / 10), bh_Kind = KindChannel\<rparr>"

datatype built_bulkhead = Chan channel_bulkhead | Adap adaptive_bulkhead

definition bulkhead_NewFromConfig :: "(real \<Rightarrow> real) \<Rightarrow> bulkhead_Config \<Rightarrow> (error + built_bulkhead) outcome" where
  "bulkhead_NewFromConfig fl cfg =
     (if bh_Kind cfg = KindChannel
      then (case channel_New (MaxConcurrent cfg) of Panic v \<Rightarrow> Panic v | Return b \<Rightarrow> Return (Inr (Chan b)))
      else if bh_Kind cfg = KindAdaptive
      then Return (Inr (Adap (adaptive_New fl
             \<lparr>MinConcurrent = MinConcurrent cfg, MaxConcurrent = MaxConcurrent cfg,
              InitialConcurrent = InitialConcurrent cfg, RTTThreshold = RTTThreshold cfg,
              BackoffRatio = BackoffRatio cfg\<rparr>)))
      else Return (Inl (unknown_kind ''bulkhead'' (bulkhead_Kind_String (bh_Kind cfg)))))"

definition WithMaxConcurrent :: "int \<Rightarrow> (bulkhead_Config \<Rightarrow> bulkhead_Config) option" where
  "WithMaxConcurrent n = Some (\<lambda>c. c\<lparr>MaxConcurrent := n\<rparr>)"

definition bulkhead_New ::
  "(real \<Rightarrow> real) \<Rightarrow> int \<Rightarrow> (bulkhead_Config \<Rightarrow> bulkhead_Config) option list \<Rightarrow> (error + built_bulkhead) outcome" where
  "bulkhead_New fl kind opts =
     bulkhead_NewFromConfig fl (ApplyOptions ((bulkhead_DefaultConfig fl)\<lparr>bh_Kind := kind\<rparr>) opts)"

section \<open>Hedger (hedge/hedge.go)\<close>

record hedge_Config =
  hg_Kind :: int
  hg_Delay :: int

definition KindDisabled :: int where "KindDisabled = 0"
definition KindDelay :: int where "KindDelay = 1"

definition hedge_Kind_String :: "int \<Rightarrow> string" where
  "hedge_Kind_String k =
     (if k = KindDisabled then ''disabled'' else if k = KindDelay then ''delay'' else Kind_default_String k)"

definition hedge_DefaultConfig :: hedge_Config where
  "hedge_DefaultConfig = \<lparr>hg_Kind = KindDisabled, hg_Delay = 50 * Millisecond\<rparr>"

datatype built_hedger = DisabledHedger | DelayHedger int

definition hedge_NewFromConfig :: "hedge_Config \<Rightarrow> error + built_hedger" where
  "hedge_NewFromConfig cfg =
     (if hg_Kind cfg = KindDisabled then Inr DisabledHedger
      else if hg_Kind cfg = KindDelay then Inr (DelayHedger (hg_Delay cfg))
      else Inl (unknown_kind ''hedger'' (hedge_Kind_String (hg_Kind cfg))))"

definition hedge_New :: "int \<Rightarrow> (hedge_Config \<Rightarrow> hedge_Config) option list \<Rightarrow> error + built_hedger" where
  "hedge_New kind opts = hedge_NewFromConfig (ApplyOptions (hedge_DefaultConfig\<lparr>hg_Kind := kind\<rparr>) opts)"

section \<open>Rate limiter (ratelimiter/limiter.go, token/limiter.go)\<close>

record token_Config =
  tk_Rate :: real
  tk_Burst :: int

record limiter_Config = token_Config +
  rl_Kind :: int

definition ErrRateLimited :: error where
  "ErrRateLimited = New CodeUnavailable ''rate limited''"

definition KindToken :: int where "KindToken = 0"

definition limiter_Kind_String :: "int \<Rightarrow> string" where
  "limiter_Kind_String k = (if k = KindToken then ''token'' else Kind_default_String k)"

definition token_DefaultConfig :: token_Config where
  "token_DefaultConfig = \<lparr>tk_Rate = 100, tk_Burst = 10\<rparr>"

definition limiter_DefaultConfig :: limiter_Config where
  "limiter_DefaultConfig = \<lparr>tk_Rate = 100, tk_Burst = 10, rl_Kind = KindToken\<rparr>"

definition limiter_NewFromConfig :: "limiter_Config \<Rightarrow> error + token_Config" where
  "limiter_NewFromConfig cfg =
     (if rl_Kind cfg = KindToken then Inr \<lparr>tk_Rate = tk_Rate cfg, tk_Burst = tk_Burst cfg\<rparr>
      else Inl (unknown_kind ''rate limiter'' (limiter_Kind_String (rl_Kind cfg))))"

definition limiter_New :: "int \<Rightarrow> (limiter_Config \<Rightarrow> limiter_Config) option list \<Rightarrow> error + token_Config" where
  "limiter_New kind opts = limiter_NewFromConfig (ApplyOptions (limiter_DefaultConfig\<lparr>rl_Kind := kind\<rparr>) opts)"

text \<open>\<^verbatim>\<open>Wait\<close> over the error of the token bucket's own wait.\<close>

definition limiter_Wait :: "error option \<Rightarrow> error option" where
  "limiter_Wait err = Wrap err (ContextCode err CodeTimeout) ''rate limiter wait''"

section \<open>Tuning structs (config/schema/resilience)\<close>

record RetryConfig =
  s_InitialInterval :: int
  s_MaxInterval :: int
  s_MaxElapsedTime :: int
  s_Multiplier :: real
  s_MaxRetries :: int

definition DefaultRetryConfig :: RetryConfig where
  "DefaultRetryConfig =
     \<lparr>s_InitialInterval = 100 * Millisecond, s_MaxInterval = 5 * Second, s_MaxElapsedTime = 30 * Second,
      s_Multiplier = 2, s_MaxRetries = 3\<rparr>"

definition RetryConfig_Validate :: "RetryConfig \<Rightarrow> error option" where
  "RetryConfig_Validate c =
     (if s_MaxRetries c < 0 then Some (InvalidInput ''resilience.retry.max_retries must be >= 0'')
      else if s_InitialInterval c < 0 then Some (InvalidInput ''resilience.retry.initial_interval must be >= 0'')
      else if s_MaxInterval c < 0 then Some (InvalidInput ''resilience.retry.max_interval must be >= 0'')
      else if s_Multiplier c < 1 then Some (InvalidInput ''resilience.retry.multiplier must be >= 1'')
      else None)"

record BreakerConfig =
  s_Interval :: int
  s_Timeout :: int
  s_FailureRatio :: real
  s_MaxRequests :: nat
  s_ConsecutiveFailures :: nat
  s_MinRequests :: nat

definition DefaultBreakerConfig :: BreakerConfig where
  "DefaultBreakerConfig =
     \<lparr>s_Interval = 60 * Second, s_Timeout = 30 * Second, s_FailureRatio = 1 / 2, s_MaxRequests = 1,
      s_ConsecutiveFailures = 5, s_MinRequests = 10\<rparr>"

definition BreakerConfig_Validate :: "BreakerConfig \<Rightarrow> error option" where
  "BreakerConfig_Validate c =
     (if s_FailureRatio c < 0 \<or> s_FailureRatio c > 1
      then Some (InvalidInput ''resilience.circuit_breaker.failure_ratio must be in [0,1]'')
      else if s_Interval c < 0 then Some (InvalidInput ''resilience.circuit_breaker.interval must be >= 0'')
      else if s_Timeout c < 0 then Some (InvalidInput ''resilience.circuit_breaker.timeout must be >= 0'')
      else None)"

record BulkheadConfig =
  s_Kind :: string
  s_RTTThreshold :: int
  s_BackoffRatio :: real
  s_MaxConcurrent :: int
  s_MinConcurrent :: int
  s_InitialConcurrent :: int

definition DefaultBulkheadConfig :: "(real \<Rightarrow> real) \<Rightarrow> BulkheadConfig" where
  "DefaultBulkheadConfig fl =
     \<lparr>s_Kind = ''channel'', s_RTTThreshold = 100 * Millisecond, s_BackoffRatio = fl (9 / 10),
      s_MaxConcurrent = 10, s_MinConcurrent = 1, s_InitialConcurrent = 5\<rparr>"

definition BulkheadConfig_Validate :: "BulkheadConfig \<Rightarrow> error option" where
  "BulkheadConfig_Validate c =
     (if s_MaxConcurrent c < 1 then Some (InvalidInput ''resilience.adaptive_limit.max_concurrent must be >= 1'')
      else if s_MinConcurrent c < 0 then Some (InvalidInput ''resilience.adaptive_limit.min_concurrent must be >= 0'')
      else if s_BackoffRatio c \<le> 0 \<or> s_BackoffRatio c > 1
      then Some (InvalidInput ''resilience.adaptive_limit.backoff_ratio must be in (0,1]'')
      else None)"

record HedgeConfig =
  h_Kind :: string
  h_Delay :: int

definition DefaultHedgeConfig :: HedgeConfig where
  "DefaultHedgeConfig = \<lparr>h_Kind = ''disabled'', h_Delay = 50 * Millisecond\<rparr>"

definition HedgeConfig_Validate :: "HedgeConfig \<Rightarrow> error option" where
  "HedgeConfig_Validate c =
     (if h_Delay c < 0 then Some (InvalidInput ''resilience.hedge.delay must be >= 0'') else None)"

record AdaptiveThrottleConfig =
  a_Kind :: string
  a_K :: real
  a_Decay :: real

definition DefaultAdaptiveThrottleConfig :: "(real \<Rightarrow> real) \<Rightarrow> AdaptiveThrottleConfig" where
  "DefaultAdaptiveThrottleConfig fl = \<lparr>a_Kind = ''disabled'', a_K = 2, a_Decay = fl (98 / 100)\<rparr>"

definition AdaptiveThrottleConfig_Validate :: "AdaptiveThrottleConfig \<Rightarrow> error option" where
  "AdaptiveThrottleConfig_Validate c =
     (if a_K c < 0 then Some (InvalidInput ''resilience.adaptive_throttle.k must be >= 0'')
      else if a_Decay c < 0 \<or> a_Decay c > 1
      then Some (InvalidInput ''resilience.adaptive_throttle.decay must be in [0,1]'')
      else None)"

definition BudgetConfig_Validate :: "int \<Rightarrow> error option" where
  "BudgetConfig_Validate maxRetries =
     (if maxRetries < 0 then Some (InvalidInput ''resilience.budget.max_retries must be >= 0'') else None)"

definition RateLimitConfig_Validate :: "token_Config \<Rightarrow> error option" where
  "RateLimitConfig_Validate c =
     (if tk_Rate c < 0 then Some (InvalidInput ''resilience.rate_limit.rate must be >= 0'')
      else if tk_Burst c < 0 then Some (InvalidInput ''resilience.rate_limit.burst must be >= 0'')
      else None)"

definition TimeoutConfig_Validate :: "int \<Rightarrow> error option" where
  "TimeoutConfig_Validate t =
     (if t < 0 then Some (InvalidInput ''resilience.timeout.timeout must be >= 0'') else None)"

section \<open>Composition (reswire/reswire.go)\<close>

type_synonym 'c overlay = "('c \<Rightarrow> error + 'c) option"

text \<open>The common opening of the constructors: overlay the section on the defaults, then validate.\<close>

definition load_section :: "string \<Rightarrow> ('c \<Rightarrow> error option) \<Rightarrow> 'c overlay \<Rightarrow> 'c \<Rightarrow> error + 'c" where
  "load_section key validate ov c =
     bind_result
       (case ov of
          None \<Rightarrow> Inr c
        | Some unmarshal \<Rightarrow>
            (case unmarshal c of
               Inl e \<Rightarrow> Inl (AppError CodeInvalidInput (''load '' @ key) [] (Some e))
             | Inr c' \<Rightarrow> Inr c'))
       (\<lambda>c. case validate c of Some e \<Rightarrow> Inl e | None \<Rightarrow> Inr c)"

definition NewRetrier :: "RetryConfig overlay \<Rightarrow> error + exponential_Config" where
  "NewRetrier ov =
     bind_result (load_section ''resilience.retry'' RetryConfig_Validate ov DefaultRetryConfig)
       (\<lambda>c. retry_NewFromConfig
          \<lparr>rt_Kind = KindExponential, rt_MaxRetries = s_MaxRetries c, rt_InitialInterval = s_InitialInterval c,
           rt_MaxInterval = s_MaxInterval c, rt_Multiplier = s_Multiplier c, rt_MaxElapsedTime = s_MaxElapsedTime c\<rparr>)"

definition NewBreaker :: "BreakerConfig overlay \<Rightarrow> string \<Rightarrow> error + breaker_Config" where
  "NewBreaker ov name =
     bind_result (load_section ''resilience.circuit_breaker'' BreakerConfig_Validate ov DefaultBreakerConfig)
       (\<lambda>c. circuit_NewFromConfig
          \<lparr>cb_Name = name, cb_Interval = s_Interval c, cb_Timeout = s_Timeout c, cb_MaxRequests = s_MaxRequests c,
           cb_ConsecutiveFailures = s_ConsecutiveFailures c, cb_FailureRatio = s_FailureRatio c,
           cb_MinRequests = s_MinRequests c, cb_Kind = KindGoBreaker\<rparr>)"

definition bulkheadKind :: "(string \<Rightarrow> string) \<Rightarrow> string \<Rightarrow> error + int" where
  "bulkheadKind q s =
     (if s = [] \<or> s = ''channel'' then Inr KindChannel
      else if s = ''adaptive'' then Inr KindAdaptive
      else Inl (New CodeInvalidInput
             (''unknown resilience.adaptive_limit kind: '' @ q s @ '' (want channel|adaptive)'')))"

definition NewBulkhead ::
  "(real \<Rightarrow> real) \<Rightarrow> (string \<Rightarrow> string) \<Rightarrow> BulkheadConfig overlay \<Rightarrow> int \<Rightarrow> (error + built_bulkhead) outcome" where
  "NewBulkhead fl q ov defaultMaxConcurrent =
     (case bind_result
             (load_section ''resilience.adaptive_limit'' BulkheadConfig_Validate ov
                ((DefaultBulkheadConfig fl)\<lparr>s_MaxConcurrent := defaultMaxConcurrent\<rparr>))
             (\<lambda>c. bind_result (bulkheadKind q (s_Kind c)) (\<lambda>kind. Inr (c, kind))) of
        Inl e \<Rightarrow> Return (Inl e)
      | Inr (c, kind) \<Rightarrow>
          bulkhead_NewFromConfig fl
            \<lparr>MinConcurrent = s_MinConcurrent c, MaxConcurrent = s_MaxConcurrent c,
             InitialConcurrent = s_InitialConcurrent c, RTTThreshold = s_RTTThreshold c,
             BackoffRatio = s_BackoffRatio c, bh_Kind = kind\<rparr>)"

definition hedgeKind :: "(string \<Rightarrow> string) \<Rightarrow> string \<Rightarrow> error + int" where
  "hedgeKind q s =
     (if s = [] \<or> s = ''disabled'' then Inr KindDisabled
      else if s = ''delay'' then Inr KindDelay
      else Inl (New CodeInvalidInput (''unknown resilience.hedge kind: '' @ q s @ '' (want disabled|delay)'')))"

definition NewHedge :: "(string \<Rightarrow> string) \<Rightarrow> HedgeConfig overlay \<Rightarrow> error + built_hedger" where
  "NewHedge q ov =
     bind_result (load_section ''resilience.hedge'' HedgeConfig_Validate ov DefaultHedgeConfig)
       (\<lambda>c. bind_result (hedgeKind q (h_Kind c))
          (\<lambda>kind. hedge_NewFromConfig \<lparr>hg_Kind = kind, hg_Delay = h_Delay c\<rparr>))"

datatype built_throttler = DisabledThrottler | EnabledThrottler Throttler

definition NewAdaptiveThrottle ::
  "(real \<Rightarrow> real) \<Rightarrow> (string \<Rightarrow> string) \<Rightarrow> AdaptiveThrottleConfig overlay \<Rightarrow> error + built_throttler" where
  "NewAdaptiveThrottle fl q ov =
     bind_result
       (load_section ''resilience.adaptive_throttle'' AdaptiveThrottleConfig_Validate ov (DefaultAdaptiveThrottleConfig fl))
       (\<lambda>c. if a_Kind c = [] \<or> a_Kind c = ''disabled'' then Inr DisabledThrottler
            else if a_Kind c = ''enabled'' then Inr (EnabledThrottler (throttle_New fl (a_K c) (a_Decay c)))
            else Inl (New CodeInvalidInput
                   (''unknown resilience.adaptive_throttle kind: '' @ q (a_Kind c) @ '' (want disabled|enabled)'')))"

section \<open>Lemmas\<close>

lemma load_section_valid: "load_section key V ov c = Inr c' \<Longrightarrow> V c' = None"
  by (auto simp: load_section_def split: option.splits sum.splits)

lemma load_section_absent: "V c = None \<Longrightarrow> load_section key V None c = Inr c"
  by (simp add: load_section_def)

text \<open>Whether a built bulkhead lets the next operation in.\<close>

fun admits :: "built_bulkhead \<Rightarrow> bool" where
  "admits (Chan b) = (channel_enter b \<noteq> None)"
| "admits (Adap b) = (adaptive_enter b \<noteq> None)"

lemma channel_New_admits: "0 < n \<Longrightarrow> \<exists>b. channel_New n = Return b \<and> channel_enter b \<noteq> None"
  by (simp add: channel_New_def channel_enter_def)

lemma adaptive_New_admits: "rounding fl \<Longrightarrow> adaptive_enter (adaptive_New fl cfg) \<noteq> None"
  using float_rounding.New_inv [OF float_roundingI] bulkhead.enter_idle [OF adaptive_bulkhead_laws] by blast

lemma bulkheadKind_cases: "bulkheadKind q s = Inr k \<Longrightarrow> k = KindChannel \<or> k = KindAdaptive"
  by (auto simp: bulkheadKind_def split: if_splits)

lemma default_ratio: "rounding fl \<Longrightarrow> 0 < fl (9 / 10) \<and> fl (9 / 10) \<le> 1"
  using rounding_mono [of fl "1 / 2" "9 / 10"] rounding_mono [of fl "9 / 10" 1] rounding_exact [of fl 1 1]
  by (simp add: rounding_one)

lemma default_decay: "rounding fl \<Longrightarrow> 0 \<le> fl (98 / 100) \<and> fl (98 / 100) \<le> 1"
  using rounding_mono [of fl 0 "98 / 100"] rounding_mono [of fl "98 / 100" 1]
  by (simp add: rounding_one rounding_zero)

lemmas kind_defs = KindChannel_def KindAdaptive_def KindDisabled_def KindDelay_def KindExponential_def KindGoBreaker_def

lemmas section_defs = load_section_absent RetryConfig_Validate_def BreakerConfig_Validate_def BulkheadConfig_Validate_def
  HedgeConfig_Validate_def AdaptiveThrottleConfig_Validate_def DefaultRetryConfig_def DefaultBreakerConfig_def
  DefaultBulkheadConfig_def DefaultHedgeConfig_def DefaultAdaptiveThrottleConfig_def Millisecond_def Second_def

section \<open>Properties\<close>

text \<open>
  Whatever configuration is loaded, building a bulkhead does not panic, and what is built admits
  an operation: a bulkhead that would block every caller is refused as a configuration error.
\<close>

lemma NewBulkhead_usable:
  assumes "rounding fl"
  shows "\<exists>r. NewBulkhead fl q ov n = Return r \<and> (\<forall>b. r = Inr b \<longrightarrow> admits b)"
proof (cases "bind_result
             (load_section ''resilience.adaptive_limit'' BulkheadConfig_Validate ov
                ((DefaultBulkheadConfig fl)\<lparr>s_MaxConcurrent := n\<rparr>))
             (\<lambda>c. bind_result (bulkheadKind q (s_Kind c)) (\<lambda>kind. Inr (c, kind)))")
  case (Inl e)
  then show ?thesis unfolding NewBulkhead_def by (auto simp del: bind_result_eq_Inl)
next
  case (Inr p)
  then obtain c kind where p: "p = (c, kind)"
    and c: "load_section ''resilience.adaptive_limit'' BulkheadConfig_Validate ov
                ((DefaultBulkheadConfig fl)\<lparr>s_MaxConcurrent := n\<rparr>) = Inr c"
    and k: "bulkheadKind q (s_Kind c) = Inr kind"
    by auto
  have "0 < s_MaxConcurrent c"
    using load_section_valid [OF c] by (auto simp: BulkheadConfig_Validate_def split: if_splits)
  then show ?thesis
    using bulkheadKind_cases [OF k] channel_New_admits [of "s_MaxConcurrent c"] adaptive_New_admits [OF assms]
    by (auto simp: NewBulkhead_def bulkhead_NewFromConfig_def c k kind_defs)
qed


text \<open>
  with no section loaded the constructors give exactly what the packages' own constructors give
  with their defaults; a bulkhead takes the call site's size.
\<close>

lemma reswire_defaults_preserved:
  assumes "rounding fl" and "1 \<le> n"
  shows "NewRetrier None = retry_New KindExponential [] \<and> NewBreaker None name = circuit_New KindGoBreaker name []
    \<and> NewHedge q None = hedge_New KindDisabled [] \<and> NewAdaptiveThrottle fl q None = Inr DisabledThrottler
    \<and> NewBulkhead fl q None n = bulkhead_New fl KindChannel [WithMaxConcurrent n]"
proof (intro conjI)
  show "NewRetrier None = retry_New KindExponential []"
    by (simp add: NewRetrier_def section_defs retry_New_def ApplyOptions_def retry_DefaultConfig_def retry_NewFromConfig_def)
  show "NewBreaker None name = circuit_New KindGoBreaker name []"
    by (simp add: NewBreaker_def section_defs circuit_New_def ApplyOptions_def circuit_DefaultConfig_def circuit_NewFromConfig_def)
  show "NewHedge q None = hedge_New KindDisabled []"
    by (simp add: NewHedge_def section_defs hedgeKind_def hedge_New_def ApplyOptions_def hedge_DefaultConfig_def hedge_NewFromConfig_def)
  show "NewAdaptiveThrottle fl q None = Inr DisabledThrottler"
    using default_decay [OF assms(1)] by (simp add: NewAdaptiveThrottle_def section_defs)
  show "NewBulkhead fl q None n = bulkhead_New fl KindChannel [WithMaxConcurrent n]"
    using default_ratio [OF assms(1)] assms(2)
    by (simp add: NewBulkhead_def section_defs bulkheadKind_def bulkhead_New_def ApplyOptions_def
        bulkhead_DefaultConfig_def bulkhead_NewFromConfig_def WithMaxConcurrent_def kind_defs)
qed

text \<open>Where the tuning surface and the limiter disagree: a ratio of 1 and a minimum above the maximum both pass validation.\<close>

lemma ratio_one_replaced:
  "BulkheadConfig_Validate (c\<lparr>s_BackoffRatio := 1, s_MaxConcurrent := 10, s_MinConcurrent := 50\<rparr>) = None
   \<and> backoffRatio (adaptive_New fl (cfg\<lparr>BackoffRatio := 1\<rparr>)) = fl (9 / 10)"
  by (simp add: BulkheadConfig_Validate_def adaptive_New_def Let_def)

lemma min_over_max: "rounding fl \<Longrightarrow> maxLimit (adaptive_New fl (cfg\<lparr>MinConcurrent := 50, MaxConcurrent := 10\<rparr>)) = 50"
  using rounding_int [of fl 50] rounding_int [of fl 10] by (simp add: adaptive_New_def Let_def)

end
