(* ===== verification/Decorate.thy ===== *)
theory Decorate
  imports App_Errors
begin

text \<open>
  Decoration of operations: the middlewares of \<^verbatim>\<open>foundation/decorate\<close> with \<^verbatim>\<open>Chain\<close> and \<^verbatim>\<open>Exec\<close>,
  the chains the repository and service tiers build from them, the role-scoped repositories and
  services that run every operation through such a chain, and the executor decorators of
  \<^verbatim>\<open>foundation/decorator\<close> with the pipeline, workflow and analytics builders.

  An operation maps a context and a world to a world and an outcome.  The world holds the state of
  the store, the state of retriers and breakers, the variable in which a closure captures its
  result, the observations made so far and the clock.  Retriers and breakers are parameters: functions
  that run a closure on the world.  Loggers, tracers and metrics only observe, so a flag says whether
  one is set.
\<close>

section \<open>Contexts, observations, worlds\<close>

record ctx =
  in_tx :: bool
  ctx_deadline :: "int option"

datatype logval = LStr string | LErr error

datatype obs =
    SpanStart string | SpanAttr string string | SpanError error | SpanStatus string | SpanEnd
  | Inc string "string list" | Observe string "string list"
  | Debug string "(string \<times> logval) list" | ErrorLog string "(string \<times> logval) list"

record ('s, 'r, 'v) world =
  w_store :: 's
  w_res :: 'r
  w_cell :: 'v
  w_log :: "obs list"
  w_now :: int

type_synonym 'w thunk = "'w \<Rightarrow> 'w \<times> error option outcome"
type_synonym 'w body = "ctx \<Rightarrow> 'w thunk"
type_synonym 'w mw = "string \<Rightarrow> 'w body \<Rightarrow> 'w body"
type_synonym 'w breaker = "'w thunk \<Rightarrow> 'w thunk"
type_synonym 'w retrier = "ctx \<Rightarrow> 'w thunk \<Rightarrow> 'w thunk"

definition emit :: "obs list \<Rightarrow> ('s, 'r, 'v, 'x) world_scheme \<Rightarrow> ('s, 'r, 'v, 'x) world_scheme" where
  "emit os w = w\<lparr>w_log := w_log w @ os\<rparr>"

text \<open>\<^verbatim>\<open>context.WithTimeout\<close>: an earlier deadline stays.\<close>

definition WithTimeout :: "ctx \<Rightarrow> int \<Rightarrow> int \<Rightarrow> ctx" where
  "WithTimeout ctx now d =
     ctx\<lparr>ctx_deadline := Some (case ctx_deadline ctx of None \<Rightarrow> now + d | Some t \<Rightarrow> min t (now + d))\<rparr>"

section \<open>Middlewares (foundation/decorate)\<close>

definition NewAuth :: "string \<Rightarrow> (ctx \<Rightarrow> string \<Rightarrow> error option) option \<Rightarrow> 'w mw" where
  "NewAuth name authFn op next ctx w =
     (case authFn of
        None \<Rightarrow> next ctx w
      | Some f \<Rightarrow> (case f ctx (name @ ''.'' @ op) of Some e \<Rightarrow> (w, Return (Some e)) | None \<Rightarrow> next ctx w))"

definition NewCircuitBreaker :: "'w breaker \<Rightarrow> 'w mw" where
  "NewCircuitBreaker cb op next ctx w = cb (next ctx) w"

definition NewRetry :: "'w retrier \<Rightarrow> 'w mw" where
  "NewRetry retrier op next ctx w = (if in_tx ctx then next ctx w else retrier ctx (next ctx) w)"

definition NewTimeout :: "int \<Rightarrow> ('s, 'r, 'v, 'x) world_scheme mw" where
  "NewTimeout timeout op next ctx w =
     (if timeout \<le> 0 then next ctx w else next (WithTimeout ctx (w_now w) timeout) w)"

definition NewLogging :: "string \<Rightarrow> string \<Rightarrow> string \<Rightarrow> ('s, 'r, 'v, 'x) world_scheme mw" where
  "NewLogging name subjectField msgPrefix op next ctx w =
     (let fields = [(subjectField, LStr name), (''custom_operation'', LStr op)]
      in case next ctx (emit [Debug (msgPrefix @ ''.'' @ op) fields] w) of
           (w', Return (Some e)) \<Rightarrow>
             (emit [Debug (msgPrefix @ ''.'' @ op @ '' failed'') (fields @ [(''error'', LErr e)])] w', Return (Some e))
         | r \<Rightarrow> r)"

record MetricsSpec =
  OperationsName :: string
  ErrorsName :: string
  DurationName :: string
  SubjectLabel :: string

text \<open>A panic skips the counters: nothing is deferred here.  The observed duration is left out.\<close>

definition NewMetrics :: "string \<Rightarrow> MetricsSpec \<Rightarrow> ('s, 'r, 'v, 'x) world_scheme mw" where
  "NewMetrics name spec op next ctx w =
     (case next ctx w of
        (w', Panic v) \<Rightarrow> (w', Panic v)
      | (w', Return err) \<Rightarrow>
          (emit ([Inc (OperationsName spec) [name, op], Observe (DurationName spec) [name, op]]
             @ (if err \<noteq> None then [Inc (ErrorsName spec) [name, op]] else [])) w', Return err))"

definition NewTracing :: "string \<Rightarrow> string \<Rightarrow> string \<Rightarrow> ('s, 'r, 'v, 'x) world_scheme mw" where
  "NewTracing name subjectAttr opAttr op next ctx w =
     (case next ctx (emit [SpanStart (name @ ''.'' @ op), SpanAttr subjectAttr name, SpanAttr opAttr op] w) of
        (w', Return (Some e)) \<Rightarrow> (emit [SpanError e, SpanStatus (error_text e), SpanEnd] w', Return (Some e))
      | (w', r) \<Rightarrow> (emit [SpanEnd] w', r))"

definition panic_recovered :: error where
  "panic_recovered = Internal ''internal service error: panic recovered''"

text \<open>The stack trace in the log entry is left out.\<close>

definition NewRecovery :: "bool \<Rightarrow> string \<Rightarrow> ('s, 'r, 'v, 'x) world_scheme mw" where
  "NewRecovery logger name op next ctx w =
     (case next ctx w of
        (w', Panic v) \<Rightarrow>
          (if logger then emit [ErrorLog ''service panic recovered'' [(''service'', LStr name), (''panic'', LStr v)]] w' else w',
           Return (Some panic_recovered))
      | r \<Rightarrow> r)"

text \<open>The loop folds from the innermost middleware outward.\<close>

definition Chain :: "'w mw list \<Rightarrow> 'w mw" where
  "Chain mws op next = foldr (\<lambda>mw inner. mw op inner) mws next"

text \<open>
  \<open>zero\<close> is the zero value the captured result variable starts with.  The variable is local to the
  call: the cell holds the caller's again when it returns.
\<close>

definition Exec ::
  "'v \<Rightarrow> ('s, 'r, 'v, 'x) world_scheme mw \<Rightarrow> string
   \<Rightarrow> (ctx \<Rightarrow> ('s, 'r, 'v, 'x) world_scheme \<Rightarrow> ('s, 'r, 'v, 'x) world_scheme \<times> ('v \<times> error option) outcome)
   \<Rightarrow> ctx \<Rightarrow> ('s, 'r, 'v, 'x) world_scheme \<Rightarrow> ('s, 'r, 'v, 'x) world_scheme \<times> ('v \<times> error option) outcome" where
  "Exec zero mw op fn ctx w =
     (case mw op
             (\<lambda>ctx w. case fn ctx w of
                        (w', Return (v, e)) \<Rightarrow> (w'\<lparr>w_cell := v\<rparr>, Return e)
                      | (w', Panic p) \<Rightarrow> (w', Panic p))
             ctx (w\<lparr>w_cell := zero\<rparr>) of
        (w', Return err) \<Rightarrow> (w'\<lparr>w_cell := w_cell w\<rparr>, Return (w_cell w', err))
      | (w', Panic p) \<Rightarrow> (w'\<lparr>w_cell := w_cell w\<rparr>, Panic p))"

section \<open>Repository chain (repos/repository/opchain.go)\<close>

definition repoMetricsSpec :: MetricsSpec where
  "repoMetricsSpec =
     \<lparr>OperationsName = ''repository_operations_total'', ErrorsName = ''repository_errors_total'',
      DurationName = ''repository_operation_duration_seconds'', SubjectLabel = ''repo''\<rparr>"

record 'w collaborators =
  c_name :: string
  c_timeout :: int
  c_logger :: bool
  c_metrics :: bool
  c_tracer :: bool
  c_retrier :: "'w retrier option"
  c_cb :: "'w breaker option"

definition OpChain :: "('s, 'r, 'v, 'x) world_scheme collaborators \<Rightarrow> ('s, 'r, 'v, 'x) world_scheme mw" where
  "OpChain c = Chain
     ((if c_tracer c then [NewTracing (c_name c) ''db.repository'' ''db.operation''] else [])
      @ (if c_metrics c then [NewMetrics (c_name c) repoMetricsSpec] else [])
      @ (if c_logger c then [NewLogging (c_name c) ''repo'' ''repository''] else [])
      @ (if c_timeout c > 0 then [NewTimeout (c_timeout c)] else [])
      @ (case c_cb c of Some cb \<Rightarrow> [NewCircuitBreaker cb] | None \<Rightarrow> [])
      @ (case c_retrier c of Some r \<Rightarrow> [NewRetry r] | None \<Rightarrow> []))"

section \<open>Role-scoped repositories (role_scoped.go, tx_safe_insert.go)\<close>

text \<open>The type of the captured variable: what the operations return.\<close>

datatype ('t, 'g) rvalue = REntity "'t option" | RPage "'g option" | RBool bool | RUnit

type_synonym ('s, 'a) store_op = "ctx \<Rightarrow> 's \<Rightarrow> 's \<times> ('a \<times> error option) outcome"

record ('s, 't, 'p, 'id, 'g) store =
  st_Get :: "'id \<Rightarrow> ('s, ('t, 'g) rvalue) store_op"
  st_List :: "'p \<Rightarrow> ('s, ('t, 'g) rvalue) store_op"
  st_Create :: "'t \<Rightarrow> ('s, ('t, 'g) rvalue) store_op"
  st_Update :: "'id \<Rightarrow> 't \<Rightarrow> ('s, ('t, 'g) rvalue) store_op"
  st_Delete :: "'id \<Rightarrow> ('s, ('t, 'g) rvalue) store_op"
  st_Exists :: "'id \<Rightarrow> ('s, ('t, 'g) rvalue) store_op"
  st_Insert :: "'t \<Rightarrow> ('s, ('t, 'g) rvalue) store_op"

definition on_store ::
  "('s, 'a) store_op \<Rightarrow> ctx \<Rightarrow> ('s, 'r, 'v, 'x) world_scheme \<Rightarrow> ('s, 'r, 'v, 'x) world_scheme \<times> ('a \<times> error option) outcome" where
  "on_store f ctx w = (case f ctx (w_store w) of (s, r) \<Rightarrow> (w\<lparr>w_store := s\<rparr>, r))"

record ('w, 's, 't, 'p, 'id, 'g) scoped_repo =
  sr_store :: "('s, 't, 'p, 'id, 'g) store"
  sr_chain :: "'w mw"
  sr_createChain :: "'w mw"

definition NewReadListExistRepository where
  "NewReadListExistRepository store c = \<lparr>sr_store = store, sr_chain = OpChain c, sr_createChain = OpChain c\<rparr>"

definition NewCRUDNoListRepository where
  "NewCRUDNoListRepository store c =
     \<lparr>sr_store = store, sr_chain = OpChain c, sr_createChain = OpChain (c\<lparr>c_retrier := None\<rparr>)\<rparr>"

definition NewTxSafeInsertRepository where
  "NewTxSafeInsertRepository store c =
     \<lparr>sr_store = store,
      sr_chain = OpChain (c\<lparr>c_timeout := 0, c_retrier := None, c_cb := None\<rparr>),
      sr_createChain = OpChain (c\<lparr>c_timeout := 0, c_retrier := None, c_cb := None\<rparr>)\<rparr>"

definition repo_Get where
  "repo_Get r i = Exec (REntity None) (sr_chain r) ''Get'' (on_store (st_Get (sr_store r) i))"

definition repo_List where
  "repo_List r params = Exec (RPage None) (sr_chain r) ''List'' (on_store (st_List (sr_store r) params))"

definition repo_Create where
  "repo_Create r entity = Exec (REntity None) (sr_createChain r) ''Create'' (on_store (st_Create (sr_store r) entity))"

definition repo_Update where
  "repo_Update r i entity = Exec (REntity None) (sr_chain r) ''Update'' (on_store (st_Update (sr_store r) i entity))"

definition repo_Delete where
  "repo_Delete r i = Exec RUnit (sr_chain r) ''Delete'' (on_store (st_Delete (sr_store r) i))"

definition repo_Exists where
  "repo_Exists r i = Exec (RBool False) (sr_chain r) ''Exists'' (on_store (st_Exists (sr_store r) i))"

definition repo_Insert where
  "repo_Insert r e = Exec RUnit (sr_chain r) ''Insert'' (on_store (st_Insert (sr_store r) e))"

section \<open>Service chain (services/service/opchain.go, role_scoped.go)\<close>

definition svcMetricsSpec :: MetricsSpec where
  "svcMetricsSpec =
     \<lparr>OperationsName = ''service_operations_total'', ErrorsName = ''service_errors_total'',
      DurationName = ''service_operation_duration_seconds'', SubjectLabel = ''service''\<rparr>"

definition svc_OpChain ::
  "string \<Rightarrow> int \<Rightarrow> bool \<Rightarrow> bool \<Rightarrow> bool \<Rightarrow> (ctx \<Rightarrow> string \<Rightarrow> error option) option \<Rightarrow> ('s, 'r, 'v, 'x) world_scheme mw" where
  "svc_OpChain name timeout logger metrics tracer authFn = Chain
     ([NewRecovery logger name]
      @ (if tracer then [NewTracing name ''service.name'' ''service.operation''] else [])
      @ (if metrics then [NewMetrics name svcMetricsSpec] else [])
      @ (if logger then [NewLogging name ''service'' ''service''] else [])
      @ (if authFn \<noteq> None then [NewAuth name authFn] else [])
      @ (if timeout > 0 then [NewTimeout timeout] else []))"

text \<open>A service runs each operation of its repository through its chain.\<close>

record ('w, 't, 'id, 'v) svc_repo =
  sv_Get :: "'id \<Rightarrow> ctx \<Rightarrow> 'w \<Rightarrow> 'w \<times> ('v \<times> error option) outcome"
  sv_Create :: "'t \<Rightarrow> ctx \<Rightarrow> 'w \<Rightarrow> 'w \<times> ('v \<times> error option) outcome"
  sv_Update :: "'id \<Rightarrow> 't \<Rightarrow> ctx \<Rightarrow> 'w \<Rightarrow> 'w \<times> ('v \<times> error option) outcome"
  sv_Delete :: "'id \<Rightarrow> ctx \<Rightarrow> 'w \<Rightarrow> 'w \<times> ('v \<times> error option) outcome"

definition svc_Get where "svc_Get chain repo i = Exec (REntity None) chain ''Get'' (sv_Get repo i)"
definition svc_Create where "svc_Create chain repo entity = Exec (REntity None) chain ''Create'' (sv_Create repo entity)"
definition svc_Update where "svc_Update chain repo i entity = Exec (REntity None) chain ''Update'' (sv_Update repo i entity)"
definition svc_Delete where "svc_Delete chain repo i = Exec RUnit chain ''Delete'' (sv_Delete repo i)"

section \<open>Executor decorators (foundation/decorator)\<close>

type_synonym ('s, 'r, 'v, 'x, 'i, 'o) executor =
  "ctx \<Rightarrow> 'i \<Rightarrow> ('s, 'r, 'v, 'x) world_scheme \<Rightarrow> ('s, 'r, 'v, 'x) world_scheme \<times> ('o \<times> error option) outcome"

definition exec_Timeout :: "('s, 'r, 'v, 'x, 'i, 'o) executor \<Rightarrow> int \<Rightarrow> ('s, 'r, 'v, 'x, 'i, 'o) executor" where
  "exec_Timeout inner d ctx input w = inner (WithTimeout ctx (w_now w) d) input w"

definition exec_Metrics ::
  "('s, 'r, 'v, 'x, 'i, 'o) executor \<Rightarrow> string \<Rightarrow> string \<Rightarrow> ('s, 'r, 'v, 'x, 'i, 'o) executor" where
  "exec_Metrics inner tier name ctx input w =
     (case inner ctx input w of
        (w', Return (v, err)) \<Rightarrow>
          (emit ([Inc (tier @ ''_executions_total'') [name], Observe (tier @ ''_execute_duration_seconds'') [name]]
             @ (if err \<noteq> None then [Inc (tier @ ''_errors_total'') [name]] else [])) w', Return (v, err))
      | r \<Rightarrow> r)"

definition exec_Tracing ::
  "('s, 'r, 'v, 'x, 'i, 'o) executor \<Rightarrow> string \<Rightarrow> string \<Rightarrow> ('s, 'r, 'v, 'x, 'i, 'o) executor" where
  "exec_Tracing inner tier name ctx input w =
     (case inner ctx input (emit [SpanStart (name @ ''.Execute''), SpanAttr (tier @ ''.name'') name] w) of
        (w', Return (v, Some e)) \<Rightarrow> (emit [SpanError e, SpanStatus (error_text e), SpanEnd] w', Return (v, Some e))
      | (w', r) \<Rightarrow> (emit [SpanEnd] w', r))"

text \<open>The duration field of the failure entry is left out.\<close>

definition exec_Logging ::
  "('s, 'r, 'v, 'x, 'i, 'o) executor \<Rightarrow> string \<Rightarrow> string \<Rightarrow> ('s, 'r, 'v, 'x, 'i, 'o) executor" where
  "exec_Logging inner tier name ctx input w =
     (case inner ctx input (emit [Debug (tier @ ''.Execute'') [(tier, LStr name)]] w) of
        (w', Return (v, Some e)) \<Rightarrow>
          (emit [Debug (tier @ ''.Execute failed'') [(tier, LStr name), (''error'', LErr e)]] w', Return (v, Some e))
      | r \<Rightarrow> r)"

text \<open>\<open>zero\<close>: the zero value of the named result, which a panic leaves in place.\<close>

definition exec_Recovery ::
  "'o \<Rightarrow> ('s, 'r, 'v, 'x, 'i, 'o) executor \<Rightarrow> bool \<Rightarrow> string \<Rightarrow> string \<Rightarrow> (string \<Rightarrow> string \<Rightarrow> error option) option
   \<Rightarrow> ('s, 'r, 'v, 'x, 'i, 'o) executor" where
  "exec_Recovery zero inner logger tier name onPanic ctx input w =
     (case inner ctx input w of
        (w', Panic p) \<Rightarrow>
          (if logger then emit [ErrorLog (tier @ '' panic recovered'') [(tier, LStr name), (''panic'', LStr p)]] w' else w',
           Return (zero,
             case onPanic of
               Some f \<Rightarrow> f name p
             | None \<Rightarrow> Some (New CodeInternal (tier @ '' panic recovered: '' @ p))))
      | r \<Rightarrow> r)"

text \<open>The closure captures the result and that it ran.\<close>

definition exec_CircuitBreaker ::
  "'o \<Rightarrow> ('s, 'r, 'o \<times> bool, 'x, 'i, 'o) executor \<Rightarrow> ('s, 'r, 'o \<times> bool, 'x) world_scheme breaker
   \<Rightarrow> (error \<Rightarrow> error option) \<Rightarrow> ('s, 'r, 'o \<times> bool, 'x, 'i, 'o) executor" where
  "exec_CircuitBreaker zero inner cb onOpen ctx input w =
     (case cb (\<lambda>w. case inner ctx input (w\<lparr>w_cell := (fst (w_cell w), True)\<rparr>) of
                     (w', Return (v, e)) \<Rightarrow> (w'\<lparr>w_cell := (v, True)\<rparr>, Return e)
                   | (w', Panic p) \<Rightarrow> (w', Panic p))
             (w\<lparr>w_cell := (zero, False)\<rparr>) of
        (w', Return err) \<Rightarrow>
          (w'\<lparr>w_cell := w_cell w\<rparr>,
           Return (fst (w_cell w'),
             case err of Some e \<Rightarrow> if snd (w_cell w') then Some e else onOpen e | None \<Rightarrow> None))
      | (w', Panic p) \<Rightarrow> (w'\<lparr>w_cell := w_cell w\<rparr>, Panic p))"

section \<open>Builders of the executor tiers\<close>

record exec_builder =
  b_name :: string
  b_timeout :: int
  b_metrics :: bool
  b_tracer :: bool
  b_logger :: bool
  b_recovery :: bool

definition pipeline_onPanic :: "string \<Rightarrow> string \<Rightarrow> error option" where
  "pipeline_onPanic name p = Some (Internal ''internal pipeline error: panic recovered'')"

definition workflow_onPanic :: "string \<Rightarrow> string \<Rightarrow> error option" where
  "workflow_onPanic name p = Some (New CodeInternal (''panic recovered: '' @ p))"

text \<open>The two \<^verbatim>\<open>Build\<close> methods are the same up to the tier's label and recovery error.\<close>

definition build_tier ::
  "string \<Rightarrow> (string \<Rightarrow> string \<Rightarrow> error option) \<Rightarrow> 'o \<Rightarrow> exec_builder \<Rightarrow> ('s, 'r, 'v, 'x, 'i, 'o) executor
   \<Rightarrow> ('s, 'r, 'v, 'x, 'i, 'o) executor" where
  "build_tier tier onPanic zero b base =
     (let p = base;
          p = (if b_timeout b > 0 then exec_Timeout p (b_timeout b) else p);
          p = (if b_metrics b then exec_Metrics p tier (b_name b) else p);
          p = (if b_tracer b then exec_Tracing p tier (b_name b) else p);
          p = (if b_logger b then exec_Logging p tier (b_name b) else p);
          p = (if b_recovery b then exec_Recovery zero p (b_logger b) tier (b_name b) (Some onPanic) else p)
      in p)"

definition pipeline_Build where "pipeline_Build = build_tier ''pipeline'' pipeline_onPanic"
definition workflow_Build where "workflow_Build = build_tier ''workflow'' workflow_onPanic"

definition codedTimeout :: "('s, 'r, 'v, 'x, 'i, 'o) executor \<Rightarrow> ('s, 'r, 'v, 'x, 'i, 'o) executor" where
  "codedTimeout inner ctx input w =
     (case inner ctx input w of
        (w', Return (v, Some e)) \<Rightarrow>
          (w', Return (v,
             if StdIs (Some e) DeadlineExceeded \<and> Code (Some e) \<noteq> CodeTimeout
             then Wrap (Some e) CodeTimeout ''analytics: operation timed out'' else Some e))
      | r \<Rightarrow> r)"

definition analytics_onOpen :: "error \<Rightarrow> error option" where
  "analytics_onOpen err = Wrap (Some err) CodeUnavailable ''analytics: circuit breaker open''"

definition analytics_onPanic :: "string \<Rightarrow> string \<Rightarrow> error option" where
  "analytics_onPanic n p = Some (New CodeInternal (''analytics '' @ n @ '' panic recovered: '' @ p))"

definition analytics_chain ::
  "exec_builder \<Rightarrow> ('s, 'r, 'o \<times> bool, 'x) world_scheme breaker option \<Rightarrow> 'o \<Rightarrow> string
   \<Rightarrow> ('s, 'r, 'o \<times> bool, 'x, 'i, 'o) executor \<Rightarrow> ('s, 'r, 'o \<times> bool, 'x, 'i, 'o) executor" where
  "analytics_chain b cb zero op e =
     (let name = b_name b @ ''.'' @ op;
          e = (if b_timeout b > 0 then codedTimeout (exec_Timeout e (b_timeout b)) else e);
          e = (case cb of Some c \<Rightarrow> exec_CircuitBreaker zero e c analytics_onOpen | None \<Rightarrow> e);
          e = (if b_tracer b then exec_Tracing e ''analytics'' name else e);
          e = (if b_metrics b then exec_Metrics e ''analytics'' name else e)
      in exec_Recovery zero e (b_logger b) ''analytics'' name (Some analytics_onPanic))"

section \<open>Lemmas: how often the inner operation runs\<close>

text \<open>Worlds that differ in the state of retriers and breakers only; and also in what was observed.\<close>

definition quiet :: "('s, 'r, 'v, 'x) world_scheme \<Rightarrow> ('s, 'r, 'v, 'x) world_scheme \<Rightarrow> bool" where
  "quiet w w' \<longleftrightarrow> w' = w\<lparr>w_res := w_res w'\<rparr>"

definition same :: "('s, 'r, 'v, 'x) world_scheme \<Rightarrow> ('s, 'r, 'v, 'x) world_scheme \<Rightarrow> bool" where
  "same w w' \<longleftrightarrow> w' = w\<lparr>w_res := w_res w', w_log := w_log w'\<rparr>"

lemma quiet_iff:
  "quiet w w' \<longleftrightarrow> w_store w' = w_store w \<and> w_cell w' = w_cell w \<and> w_log w' = w_log w \<and> w_now w' = w_now w
     \<and> world.more w' = world.more w"
  by (cases w; cases w') (auto simp: quiet_def)

lemma same_iff:
  "same w w' \<longleftrightarrow> w_store w' = w_store w \<and> w_cell w' = w_cell w \<and> w_now w' = w_now w \<and> world.more w' = world.more w"
  by (cases w; cases w') (auto simp: same_def)

lemma quiet_refl [simp]: "quiet w w" and same_refl [simp]: "same w w"
  by (simp_all add: quiet_iff same_iff)

lemma same_emit [simp]: "same w (emit os w)" "same w (emit os w') = same w w'" "same (emit os w) w' = same w w'"
  by (simp_all add: same_iff emit_def)

lemma quiet_same: "quiet w w' \<Longrightarrow> same w w'"
  by (simp add: quiet_iff same_iff)

text \<open>
  What came of running \<open>next\<close> at most once: it was not run and an error came back, or it was run
  once in a world like the given one, its outcome came back, and nothing else changed.
\<close>

definition at_most_once :: "('w \<Rightarrow> 'w \<Rightarrow> bool) \<Rightarrow> bool \<Rightarrow> 'w body \<Rightarrow> 'w \<Rightarrow> 'w \<times> error option outcome \<Rightarrow> bool" where
  "at_most_once R b next w res \<longleftrightarrow>
     (\<exists>w' e. res = (w', Return (Some e)) \<and> R w w')
   \<or> (\<exists>ctx' w1 w2 r w'. in_tx ctx' = b \<and> R w w1 \<and> next ctx' w1 = (w2, r) \<and> R w2 w' \<and> res = (w', r))"

definition transparent :: "('w \<Rightarrow> 'w \<Rightarrow> bool) \<Rightarrow> bool \<Rightarrow> 'w mw \<Rightarrow> bool" where
  "transparent R b m \<longleftrightarrow> (\<forall>op next ctx w. in_tx ctx = b \<longrightarrow> at_most_once R b next w (m op next ctx w))"

text \<open>What a circuit breaker is documented to do: run the closure, or fail fast without running it.\<close>

definition breaker_law :: "('s, 'r, 'v, 'x) world_scheme breaker \<Rightarrow> bool" where
  "breaker_law cb \<longleftrightarrow>
     (\<forall>fn w. (\<exists>w' e. cb fn w = (w', Return (Some e)) \<and> quiet w w')
           \<or> (\<exists>w1 w2 r w'. quiet w w1 \<and> fn w1 = (w2, r) \<and> quiet w2 w' \<and> cb fn w = (w', r)))"

lemma at_most_once_trans:
  assumes R: "\<And>x y z. R x y \<Longrightarrow> R y z \<Longrightarrow> R x z"
    and outer: "at_most_once R b mid w res"
    and inner: "\<And>ctx w. in_tx ctx = b \<Longrightarrow> at_most_once R b next w (mid ctx w)"
  shows "at_most_once R b next w res"
  using outer unfolding at_most_once_def
proof (elim disjE exE conjE)
  fix ctx' w1 w2 r w'
  assume 1: "in_tx ctx' = b" "R w w1" "mid ctx' w1 = (w2, r)" "R w2 w'" "res = (w', r)"
  from inner [OF 1(1), of w1] 1(3) have "at_most_once R b next w1 (w2, r)" by simp
  then consider e where "r = Return (Some e)" "R w1 w2"
    | ctx2 x1 x2 where "in_tx ctx2 = b" "R w1 x1" "next ctx2 x1 = (x2, r)" "R x2 w2"
    unfolding at_most_once_def by blast
  then show "(\<exists>w' e. res = (w', Return (Some e)) \<and> R w w')
      \<or> (\<exists>ctx' w1 w2 r w'. in_tx ctx' = b \<and> R w w1 \<and> next ctx' w1 = (w2, r) \<and> R w2 w' \<and> res = (w', r))"
  proof cases
    case 1
    then have "R w w'" using R \<open>R w w1\<close> \<open>R w2 w'\<close> by blast
    then show ?thesis using 1(1) \<open>res = (w', r)\<close> by blast
  next
    case 2
    then have "R w x1" "R x2 w'" using R \<open>R w w1\<close> \<open>R w2 w'\<close> by blast+
    then show ?thesis using 2(1,3) \<open>res = (w', r)\<close> by blast
  qed
qed blast

lemma Chain_simps [simp]: "Chain [] op next = next" "Chain (m # ms) op next = m op (Chain ms op next)"
  by (simp_all add: Chain_def)

lemma Chain_append: "Chain (xs @ ys) op next = Chain xs op (Chain ys op next)"
  by (simp add: Chain_def)

lemma at_most_once_run:
  "in_tx ctx' = b \<Longrightarrow> R w w1 \<Longrightarrow> next ctx' w1 = (w2, r) \<Longrightarrow> R w2 w' \<Longrightarrow> at_most_once R b next w (w', r)"
  unfolding at_most_once_def by blast

lemma at_most_once_same: "(\<And>x. R x x) \<Longrightarrow> in_tx ctx' = b \<Longrightarrow> at_most_once R b next w (next ctx' w)"
  by (cases "next ctx' w") (auto intro: at_most_once_run)

lemma transparentI:
  "(\<And>op nxt ctx w. in_tx ctx = b \<Longrightarrow> at_most_once R b nxt w (m op nxt ctx w)) \<Longrightarrow> transparent R b m"
  unfolding transparent_def by blast

lemma transparentD: "transparent R b m \<Longrightarrow> in_tx ctx = b \<Longrightarrow> at_most_once R b nxt w (m op nxt ctx w)"
  unfolding transparent_def by blast

lemma transparent_Chain:
  assumes R: "\<And>x. R x x" "\<And>x y z. R x y \<Longrightarrow> R y z \<Longrightarrow> R x z"
    and "\<forall>m \<in> set ms. transparent R b m"
  shows "transparent R b (Chain ms)"
  using assms(3)
proof (induction ms)
  case Nil
  then show ?case by (intro transparentI) (simp add: at_most_once_same R(1))
next
  case (Cons m ms)
  show ?case
  proof (rule transparentI)
    fix op nxt and ctx :: ctx and w
    assume tx: "in_tx ctx = b"
    have "at_most_once R b (Chain ms op nxt) w (m op (Chain ms op nxt) ctx w)"
      using Cons.prems tx by (intro transparentD) auto
    then show "at_most_once R b nxt w (Chain (m # ms) op nxt ctx w)"
      using Cons by (auto intro: at_most_once_trans [OF R(2)] transparentD)
  qed
qed

lemma quiet_trans: "quiet x y \<Longrightarrow> quiet y z \<Longrightarrow> quiet x z"
  by (simp add: quiet_iff)

lemma same_trans: "same x y \<Longrightarrow> same y z \<Longrightarrow> same x z"
  by (simp add: same_iff)

lemma at_most_once_quiet_same: "at_most_once quiet b nxt w res \<Longrightarrow> at_most_once same b nxt w res"
  unfolding at_most_once_def using quiet_same by blast

lemma transparent_quiet_same: "transparent quiet b m \<Longrightarrow> transparent same b m"
  by (auto intro!: transparentI at_most_once_quiet_same dest: transparentD)

lemma WithTimeout_tx [simp]: "in_tx (WithTimeout ctx n d) = in_tx ctx"
  by (simp add: WithTimeout_def)

lemma transparent_Timeout: "transparent quiet b (NewTimeout t)"
  by (rule transparentI) (simp add: NewTimeout_def at_most_once_same)

lemma transparent_CircuitBreaker: "breaker_law cb \<Longrightarrow> transparent quiet b (NewCircuitBreaker cb)"
proof (rule transparentI)
  fix op nxt and ctx :: ctx and w :: "('a, 'b, 'c, 'd) world_scheme"
  assume law: "breaker_law cb" and b: "in_tx ctx = b"
  from law have "(\<exists>w' e. cb (nxt ctx) w = (w', Return (Some e)) \<and> quiet w w')
      \<or> (\<exists>w1 w2 r w'. quiet w w1 \<and> nxt ctx w1 = (w2, r) \<and> quiet w2 w' \<and> cb (nxt ctx) w = (w', r))"
    unfolding breaker_law_def by blast
  then show "at_most_once quiet b nxt w (NewCircuitBreaker cb op nxt ctx w)"
    using b unfolding at_most_once_def NewCircuitBreaker_def by blast
qed

lemma transparent_Retry_tx: "transparent quiet True (NewRetry r)"
  by (rule transparentI) (simp add: NewRetry_def at_most_once_same)

lemma transparent_Auth: "transparent quiet b (NewAuth n f)"
proof (rule transparentI)
  fix op nxt and ctx :: ctx and w :: "('a, 'b, 'c, 'd) world_scheme"
  assume b: "in_tx ctx = b"
  have "at_most_once quiet b nxt w (w, Return (Some e))" for e by (simp add: at_most_once_def)
  then show "at_most_once quiet b nxt w (NewAuth n f op nxt ctx w)"
    using b by (auto simp: NewAuth_def at_most_once_same split: option.splits)
qed

text \<open>The middlewares that only observe run the inner operation exactly once.\<close>

lemma transparent_observer:
  assumes "\<And>op nxt ctx w. \<exists>os f. m op nxt ctx w = (case nxt ctx (emit os w) of (w', r) \<Rightarrow> (emit (f r) w', r))"
  shows "transparent same b m"
proof (rule transparentI)
  fix op nxt and ctx :: ctx and w :: "('a, 'b, 'c, 'd) world_scheme"
  assume b: "in_tx ctx = b"
  obtain os f where m: "m op nxt ctx w = (case nxt ctx (emit os w) of (w', r) \<Rightarrow> (emit (f r) w', r))" using assms by blast
  obtain w2 r where n: "nxt ctx (emit os w) = (w2, r)" by fastforce
  show "at_most_once same b nxt w (m op nxt ctx w)"
    using at_most_once_run [of ctx b same w "emit os w" nxt w2 r "emit (f r) w2"] b m n by simp
qed

lemma emit_Nil [simp]: "emit [] w = w"
  by (simp add: emit_def)

lemma emit_emit [simp]: "emit ys (emit xs w) = emit (xs @ ys) w"
  by (simp add: emit_def)

lemma Logging_observer:
  "NewLogging n f p op nxt ctx w =
     (case nxt ctx (emit [Debug (p @ ''.'' @ op) [(f, LStr n), (''custom_operation'', LStr op)]] w) of (w', r) \<Rightarrow>
        (emit (case r of
                 Return (Some e) \<Rightarrow>
                   [Debug (p @ ''.'' @ op @ '' failed'') [(f, LStr n), (''custom_operation'', LStr op), (''error'', LErr e)]]
               | _ \<Rightarrow> []) w', r))"
  by (auto simp: NewLogging_def Let_def split: prod.splits outcome.splits option.splits)

lemma Metrics_observer:
  "NewMetrics n spec op nxt ctx w =
     (case nxt ctx (emit [] w) of (w', r) \<Rightarrow>
        (emit (case r of
                 Return err \<Rightarrow>
                   [Inc (OperationsName spec) [n, op], Observe (DurationName spec) [n, op]]
                   @ (if err \<noteq> None then [Inc (ErrorsName spec) [n, op]] else [])
               | Panic v \<Rightarrow> []) w', r))"
  by (auto simp: NewMetrics_def split: prod.splits outcome.splits)

lemma Tracing_observer:
  "NewTracing n sa oa op nxt ctx w =
     (case nxt ctx (emit [SpanStart (n @ ''.'' @ op), SpanAttr sa n, SpanAttr oa op] w) of (w', r) \<Rightarrow>
        (emit (case r of
                 Return (Some e) \<Rightarrow> [SpanError e, SpanStatus (error_text e), SpanEnd]
               | _ \<Rightarrow> [SpanEnd]) w', r))"
  by (auto simp: NewTracing_def split: prod.splits outcome.splits option.splits)

lemma transparent_Logging: "transparent same b (NewLogging n f p)"
  by (rule transparent_observer, intro exI, rule Logging_observer)

lemma transparent_Metrics: "transparent same b (NewMetrics n spec)"
  by (rule transparent_observer, intro exI, rule Metrics_observer)

lemma transparent_Tracing: "transparent same b (NewTracing n sa oa)"
  by (rule transparent_observer, intro exI, rule Tracing_observer)

lemmas transparent_intros = transparent_Logging transparent_Metrics transparent_Tracing
  transparent_quiet_same [OF transparent_Timeout] transparent_quiet_same [OF transparent_CircuitBreaker]
  transparent_quiet_same [OF transparent_Retry_tx] transparent_quiet_same [OF transparent_Auth]

lemma transparent_OpChain:
  assumes "\<And>cb. c_cb c = Some cb \<Longrightarrow> breaker_law cb" and "c_retrier c = None \<or> b"
  shows "transparent same b (OpChain c)"
  unfolding OpChain_def
proof (rule transparent_Chain [OF same_refl same_trans], assumption, assumption)
  show "\<forall>m \<in> set ((if c_tracer c then [NewTracing (c_name c) ''db.repository'' ''db.operation''] else [])
      @ (if c_metrics c then [NewMetrics (c_name c) repoMetricsSpec] else [])
      @ (if c_logger c then [NewLogging (c_name c) ''repo'' ''repository''] else [])
      @ (if c_timeout c > 0 then [NewTimeout (c_timeout c)] else [])
      @ (case c_cb c of Some cb \<Rightarrow> [NewCircuitBreaker cb] | None \<Rightarrow> [])
      @ (case c_retrier c of Some r \<Rightarrow> [NewRetry r] | None \<Rightarrow> [])). transparent same b m"
    using assms by (auto simp: transparent_intros split: option.splits)
qed

text \<open>\<^verbatim>\<open>Exec\<close> over an operation of the store, under a chain that runs it at most once.\<close>

definition reached_once ::
  "'a \<Rightarrow> ('s, 'a) store_op \<Rightarrow> ctx \<Rightarrow> ('s, 'r, 'v, 'x) world_scheme \<Rightarrow> ('s, 'r, 'v, 'x) world_scheme \<times> ('a \<times> error option) outcome \<Rightarrow> bool" where
  "reached_once zero f ctx w res \<longleftrightarrow>
     (w_store (fst res) = w_store w \<and> (\<exists>e. snd res = Return (zero, Some e)))
   \<or> (\<exists>ctx'. in_tx ctx' = in_tx ctx \<and> f ctx' (w_store w) = (w_store (fst res), snd res))"

lemma Exec_at_most_once:
  fixes w :: "('a, 'b, 'c, 'd) world_scheme"
  assumes "transparent same (in_tx ctx) mw"
  shows "reached_once zero f ctx w (Exec zero mw op (on_store f) ctx w)"
proof -
  obtain w' r where run: "Exec zero mw op (on_store f) ctx w = (w', r)" by fastforce
  define body :: "('a, 'b, 'c, 'd) world_scheme body" where "body = (\<lambda>ctx w. case on_store f ctx w of
      (w', Return (v, e)) \<Rightarrow> (w'\<lparr>w_cell := v\<rparr>, Return e) | (w', Panic p) \<Rightarrow> (w', Panic p))"
  define w0 where "w0 = w\<lparr>w_cell := zero\<rparr>"
  obtain x o1 where X: "mw op body ctx w0 = (x, o1)" by fastforce
  have E: "(w', r) = (case o1 of Return err \<Rightarrow> (x\<lparr>w_cell := w_cell w\<rparr>, Return (w_cell x, err))
      | Panic p \<Rightarrow> (x\<lparr>w_cell := w_cell w\<rparr>, Panic p))"
    using run X unfolding Exec_def body_def w0_def by simp
  have "at_most_once same (in_tx ctx) body w0 (x, o1)" using transparentD [OF assms refl, of body w0 op] X by simp
  then consider e where "o1 = Return (Some e)" "same w0 x"
    | ctx2 x1 x2 where "in_tx ctx2 = in_tx ctx" "same w0 x1" "body ctx2 x1 = (x2, o1)" "same x2 x"
    unfolding at_most_once_def by blast
  then show ?thesis
  proof cases
    case 1
    then show ?thesis using E run by (auto simp: reached_once_def same_iff w0_def)
  next
    case 2
    obtain s' q where f: "f ctx2 (w_store w) = (s', q)" by fastforce
    have "w_store x1 = w_store w" using 2(2) by (simp add: same_iff w0_def)
    then have "f ctx2 (w_store w) = (w_store w', r)"
      using 2(3,4) f E by (cases q) (auto simp: body_def on_store_def same_iff split: outcome.splits)
    then show ?thesis using 2(1) run by (auto simp: reached_once_def)
  qed
qed

text \<open>A breaker that fails fast with a given error, and one that always lets through, for the witnesses.\<close>

definition demo_store :: "(nat list, nat, unit, nat, unit) store" where
  "demo_store =
     \<lparr>st_Get = (\<lambda>i ctx s. (s, Return (REntity (if i < length s then Some (s ! i) else None), None))),
      st_List = (\<lambda>p ctx s. (s, Return (RPage None, None))),
      st_Create = (\<lambda>x ctx s. (s @ [x], Return (REntity (Some x), None))),
      st_Update = (\<lambda>i x ctx s. (s[i := x], Return (REntity (Some x), None))),
      st_Delete = (\<lambda>i ctx s. (take i s @ drop (Suc i) s, Return (RUnit, None))),
      st_Exists = (\<lambda>i ctx s. (s, Return (RBool (i < length s), None))),
      st_Insert = (\<lambda>x ctx s. (s @ [x], Return (RUnit, None)))\<rparr>"

definition demo_collaborators ::
  "(nat list, unit, (nat, unit) rvalue) world collaborators" where
  "demo_collaborators =
     \<lparr>c_name = ''users'', c_timeout = 5, c_logger = True, c_metrics = True, c_tracer = True,
      c_retrier = Some (\<lambda>ctx op w. op (fst (op w))), c_cb = Some (\<lambda>fn. fn)\<rparr>"

definition demo_world :: "(nat list, unit, (nat, unit) rvalue) world" where
  "demo_world = \<lparr>w_store = [], w_res = (), w_cell = RUnit, w_log = [], w_now = 0\<rparr>"

lemma breaker_law_id: "breaker_law (\<lambda>fn. fn)"
  unfolding breaker_law_def by (meson quiet_refl surj_pair)

lemma demo_breaker: "c_cb demo_collaborators = Some cb \<Longrightarrow> breaker_law cb"
  using breaker_law_id by (auto simp: demo_collaborators_def)

section \<open>Properties\<close>

text \<open>
  C33. A create reaches the store at most once, whatever the retrier does: either the breaker
  refused, the store is untouched and an error comes back, or the store ran it once and its result
  comes back unchanged.  Inside a transaction the same holds of every operation of the repository.
\<close>

theorem repo_at_most_once:
  assumes "\<And>cb. c_cb c = Some cb \<Longrightarrow> breaker_law cb"
  shows "reached_once (REntity None) (st_Create store x) ctx w (repo_Create (NewCRUDNoListRepository store c) x ctx w)
    \<and> (in_tx ctx \<longrightarrow>
         reached_once (REntity None) (st_Get store i) ctx w (repo_Get (NewCRUDNoListRepository store c) i ctx w)
       \<and> reached_once (REntity None) (st_Update store i x) ctx w (repo_Update (NewCRUDNoListRepository store c) i x ctx w)
       \<and> reached_once RUnit (st_Delete store i) ctx w (repo_Delete (NewCRUDNoListRepository store c) i ctx w)
       \<and> reached_once (RBool False) (st_Exists store i) ctx w (repo_Exists (NewCRUDNoListRepository store c) i ctx w))"
proof (intro conjI impI)
  let ?R = "NewCRUDNoListRepository store c"
  have st: "sr_store ?R = store" by (simp add: NewCRUDNoListRepository_def)
  have create: "transparent same b (sr_createChain ?R)" for b
    using transparent_OpChain [of "c\<lparr>c_retrier := None\<rparr>" b] assms by (simp add: NewCRUDNoListRepository_def)
  show "reached_once (REntity None) (st_Create store x) ctx w (repo_Create ?R x ctx w)"
    using Exec_at_most_once [OF create] by (simp add: repo_Create_def st)
  assume "in_tx ctx"
  then have other: "transparent same (in_tx ctx) (sr_chain ?R)"
    using transparent_OpChain [of c "in_tx ctx"] assms by (simp add: NewCRUDNoListRepository_def)
  show "reached_once (REntity None) (st_Get store i) ctx w (repo_Get ?R i ctx w)"
    and "reached_once (REntity None) (st_Update store i x) ctx w (repo_Update ?R i x ctx w)"
    and "reached_once RUnit (st_Delete store i) ctx w (repo_Delete ?R i ctx w)"
    and "reached_once (RBool False) (st_Exists store i) ctx w (repo_Exists ?R i ctx w)"
    using Exec_at_most_once [OF other]
    by (simp_all add: repo_Get_def repo_Update_def repo_Delete_def repo_Exists_def st)
qed

theorem repo_at_most_once_witness:
  "reached_once (REntity None) (st_Create demo_store 7) \<lparr>in_tx = False, ctx_deadline = None\<rparr> demo_world
     (repo_Create (NewCRUDNoListRepository demo_store demo_collaborators) 7 \<lparr>in_tx = False, ctx_deadline = None\<rparr> demo_world)
   \<and> w_store (fst (repo_Create (NewCRUDNoListRepository demo_store demo_collaborators) 7 \<lparr>in_tx = False, ctx_deadline = None\<rparr> demo_world)) = [7]"
proof
  show "reached_once (REntity None) (st_Create demo_store 7) \<lparr>in_tx = False, ctx_deadline = None\<rparr> demo_world
     (repo_Create (NewCRUDNoListRepository demo_store demo_collaborators) 7 \<lparr>in_tx = False, ctx_deadline = None\<rparr> demo_world)"
    by (rule repo_at_most_once [OF demo_breaker, THEN conjunct1])
qed (simp add: repo_Create_def NewCRUDNoListRepository_def demo_collaborators_def OpChain_def demo_store_def demo_world_def
        Exec_def on_store_def NewTracing_def NewMetrics_def NewLogging_def NewTimeout_def NewCircuitBreaker_def Let_def emit_def)

text \<open>What is observed of one operation under the full observability stack.\<close>

definition op_trace :: "string \<Rightarrow> string \<Rightarrow> ('a \<times> error option) outcome \<Rightarrow> obs list" where
  "op_trace name op r =
     (let fields = [(''repo'', LStr name), (''custom_operation'', LStr op)];
          counted = [Inc ''repository_operations_total'' [name, op], Observe ''repository_operation_duration_seconds'' [name, op]]
      in [SpanStart (name @ ''.'' @ op), SpanAttr ''db.repository'' name, SpanAttr ''db.operation'' op,
          Debug (''repository.'' @ op) fields]
         @ (case r of
              Panic p \<Rightarrow> []
            | Return (v, None) \<Rightarrow> counted
            | Return (v, Some e) \<Rightarrow>
                [Debug (''repository.'' @ op @ '' failed'') (fields @ [(''error'', LErr e)])] @ counted
                @ [Inc ''repository_errors_total'' [name, op], SpanError e, SpanStatus (error_text e)])
         @ [SpanEnd])"

lemma inner_quiet:
  assumes "\<And>cb. c_cb c = Some cb \<Longrightarrow> breaker_law cb" and "c_retrier c = None \<or> b"
  shows "transparent quiet b (Chain ((if c_timeout c > 0 then [NewTimeout (c_timeout c)] else [])
      @ (case c_cb c of Some cb \<Rightarrow> [NewCircuitBreaker cb] | None \<Rightarrow> [])
      @ (case c_retrier c of Some r \<Rightarrow> [NewRetry r] | None \<Rightarrow> [])))"
  by (rule transparent_Chain [OF quiet_refl quiet_trans], assumption, assumption)
    (use assms in \<open>auto simp: transparent_Timeout transparent_CircuitBreaker transparent_Retry_tx split: option.splits\<close>)

text \<open>A chain that runs a silent body at most once and observes nothing leaves the log as it was.\<close>

lemma quiet_log:
  assumes "transparent quiet (in_tx ctx) m" and "\<And>ctx w. w_log (fst (body ctx w)) = w_log w"
  shows "w_log (fst (m op body ctx w)) = w_log w"
proof -
  obtain x r where X: "m op body ctx w = (x, r)" by fastforce
  have "at_most_once quiet (in_tx ctx) body w (x, r)" using transparentD [OF assms(1) refl, of body w op] X by simp
  then consider "quiet w x" | ctx2 w1 w2 where "quiet w w1" "body ctx2 w1 = (w2, r)" "quiet w2 x"
    unfolding at_most_once_def by blast
  then show ?thesis
  proof cases
    case 2
    then show ?thesis using assms(2) [of ctx2 w1] X by (simp add: quiet_iff)
  qed (simp add: X quiet_iff)
qed

text \<open>
  Under the full stack an operation is observed exactly: one span that is always ended, one
  count and one duration, an error count and the error on the span only when an error is returned;
  a panic ends the span and is counted nowhere.
\<close>

lemma OpChain_trace:
  fixes w :: "('a, 'b, 'c, 'd) world_scheme"
  assumes "\<And>cb. c_cb c = Some cb \<Longrightarrow> breaker_law cb" and "c_retrier c = None \<or> in_tx ctx"
    and "c_tracer c \<and> c_metrics c \<and> c_logger c"
  shows "w_log (fst (Exec zero (OpChain c) op (on_store f) ctx w))
    = w_log w @ op_trace (c_name c) op (snd (Exec zero (OpChain c) op (on_store f) ctx w))"
proof -
  define body :: "('a, 'b, 'c, 'd) world_scheme body" where "body = (\<lambda>ctx w. case on_store f ctx w of
      (w', Return (v, e)) \<Rightarrow> (w'\<lparr>w_cell := v\<rparr>, Return e) | (w', Panic p) \<Rightarrow> (w', Panic p))"
  define inner where "inner = Chain ((if c_timeout c > 0 then [NewTimeout (c_timeout c)] else [])
      @ (case c_cb c of Some cb \<Rightarrow> [NewCircuitBreaker cb] | None \<Rightarrow> [])
      @ (case c_retrier c of Some r \<Rightarrow> [NewRetry r] | None \<Rightarrow> []))"
  have silent: "w_log (fst (body ctx w)) = w_log w" for ctx w
    by (simp add: body_def on_store_def split: prod.split outcome.split)
  have "transparent quiet (in_tx ctx) inner"
    unfolding inner_def by (rule inner_quiet [OF assms(1,2)])
  then have log: "w_log (fst (inner op body ctx w)) = w_log w" for w
    by (rule quiet_log) (rule silent)
  have chain: "OpChain c op body = NewTracing (c_name c) ''db.repository'' ''db.operation'' op
      (NewMetrics (c_name c) repoMetricsSpec op (NewLogging (c_name c) ''repo'' ''repository'' op (inner op body)))"
    using assms(3) by (simp add: OpChain_def Chain_append inner_def)
  let ?n = "c_name c"
  let ?span = "[SpanStart (?n @ ''.'' @ op), SpanAttr ''db.repository'' ?n, SpanAttr ''db.operation'' op]"
  let ?entry = "[Debug (''repository.'' @ op) [(''repo'', LStr ?n), (''custom_operation'', LStr op)]]"
  define w0 where "w0 = w\<lparr>w_cell := zero\<rparr>"
  obtain x r where X: "inner op body ctx (emit (?span @ ?entry) w0) = (x, r)" by fastforce
  have lx: "w_log x = w_log w @ ?span @ ?entry" using log [of "emit (?span @ ?entry) w0"] X by (simp add: emit_def w0_def)
  define fl where "fl = (case r of Return (Some e) \<Rightarrow> [Debug (''repository.'' @ op @ '' failed'')
        [(''repo'', LStr ?n), (''custom_operation'', LStr op), (''error'', LErr e)]] | _ \<Rightarrow> [])"
  define fm where "fm = (case r of Return err \<Rightarrow> [Inc ''repository_operations_total'' [?n, op], Observe ''repository_operation_duration_seconds'' [?n, op]]
        @ (if err \<noteq> None then [Inc ''repository_errors_total'' [?n, op]] else []) | Panic v \<Rightarrow> [])"
  define ft where "ft = (case r of Return (Some e) \<Rightarrow> [SpanError e, SpanStatus (error_text e), SpanEnd] | _ \<Rightarrow> [SpanEnd])"
  have "inner op body ctx (emit ?entry (emit ?span w0)) = (x, r)" using X by simp
  then have L: "NewLogging ?n ''repo'' ''repository'' op (inner op body) ctx (emit ?span w0) = (emit fl x, r)"
    unfolding Logging_observer fl_def by (simp split: outcome.split option.split)
  have M: "NewMetrics ?n repoMetricsSpec op (NewLogging ?n ''repo'' ''repository'' op (inner op body)) ctx (emit ?span w0)
      = (emit fm (emit fl x), r)"
    unfolding Metrics_observer emit_Nil L fm_def repoMetricsSpec_def by (simp split: outcome.split)
  have T: "OpChain c op body ctx w0 = (emit ft (emit fm (emit fl x)), r)"
    unfolding chain Tracing_observer M ft_def by (simp split: outcome.split option.split)
  have E: "Exec zero (OpChain c) op (on_store f) ctx w = (case OpChain c op body ctx w0 of
      (w', Return err) \<Rightarrow> (w'\<lparr>w_cell := w_cell w\<rparr>, Return (w_cell w', err))
    | (w', Panic p) \<Rightarrow> (w'\<lparr>w_cell := w_cell w\<rparr>, Panic p))"
    unfolding Exec_def body_def w0_def ..
  have "w_log (fst (Exec zero (OpChain c) op (on_store f) ctx w)) = w_log w @ ?span @ ?entry @ fl @ fm @ ft"
    unfolding E T using lx by (cases r) (simp_all add: emit_def)
  moreover have "op_trace ?n op (snd (Exec zero (OpChain c) op (on_store f) ctx w)) = ?span @ ?entry @ fl @ fm @ ft"
    unfolding E T fl_def fm_def ft_def op_trace_def Let_def by (simp split: outcome.split option.split)
  ultimately show ?thesis by simp
qed

text \<open>An operation that comes back with a given error and leaves the world as it was, for the observers.\<close>

definition denies :: "error \<Rightarrow> ctx \<Rightarrow> ('s, 'r, 'v, 'x) world_scheme body \<Rightarrow> bool" where
  "denies e ctx nxt \<longleftrightarrow> (\<forall>w. \<exists>w'. nxt ctx w = (w', Return (Some e)) \<and> same w w')"

lemma denies_observer:
  assumes "\<And>w. \<exists>os f. m ctx w = (case nxt ctx (emit os w) of (w', r) \<Rightarrow> (emit (f r) w', r))" and "denies e ctx nxt"
  shows "denies e ctx m"
  unfolding denies_def
proof
  fix w
  obtain os f where m: "m ctx w = (case nxt ctx (emit os w) of (w', r) \<Rightarrow> (emit (f r) w', r))" using assms(1) by blast
  obtain w' where "nxt ctx (emit os w) = (w', Return (Some e))" "same (emit os w) w'" using assms(2) unfolding denies_def by blast
  then show "\<exists>w'. m ctx w = (w', Return (Some e)) \<and> same w w'" using m by simp
qed

lemma denies_Tracing: "denies e ctx nxt \<Longrightarrow> denies e ctx (NewTracing n sa oa op nxt)"
  by (rule denies_observer, intro exI, rule Tracing_observer)

lemma denies_Metrics: "denies e ctx nxt \<Longrightarrow> denies e ctx (NewMetrics n spec op nxt)"
  by (rule denies_observer, intro exI, rule Metrics_observer)

lemma denies_Logging: "denies e ctx nxt \<Longrightarrow> denies e ctx (NewLogging n f p op nxt)"
  by (rule denies_observer, intro exI, rule Logging_observer)

lemma denies_Recovery: "denies e ctx nxt \<Longrightarrow> denies e ctx (NewRecovery lg n op nxt)"
  unfolding denies_def
proof
  fix w
  assume "\<forall>w. \<exists>w'. nxt ctx w = (w', Return (Some e)) \<and> same w w'"
  then obtain w' where "nxt ctx w = (w', Return (Some e))" "same w w'" by blast
  then show "\<exists>w'. NewRecovery lg n op nxt ctx w = (w', Return (Some e)) \<and> same w w'" by (simp add: NewRecovery_def)
qed

lemma denies_Auth: "f ctx (n @ ''.'' @ op) = Some e \<Longrightarrow> denies e ctx (NewAuth n (Some f) op nxt)"
  by (simp add: denies_def NewAuth_def)

lemmas denies_intros = denies_Tracing denies_Metrics denies_Logging denies_Recovery

lemma Exec_denied:
  assumes "\<And>nxt. denies e ctx (mw op nxt)"
  shows "snd (Exec zero mw op fn ctx w) = Return (zero, Some e) \<and> same w (fst (Exec zero mw op fn ctx w))"
proof -
  let ?body = "\<lambda>ctx w. case fn ctx w of (w', Return (v, e)) \<Rightarrow> (w'\<lparr>w_cell := v\<rparr>, Return e) | (w', Panic p) \<Rightarrow> (w', Panic p)"
  obtain w' where "mw op ?body ctx (w\<lparr>w_cell := zero\<rparr>) = (w', Return (Some e))" "same (w\<lparr>w_cell := zero\<rparr>) w'"
    using assms [of ?body] unfolding denies_def by blast
  then show ?thesis by (simp add: Exec_def same_iff)
qed

lemma Exec_recovered: "snd (Exec zero (Chain ([NewRecovery lg n] @ ms)) op fn ctx w) \<noteq> Panic p"
  by (auto simp: Exec_def Chain_append NewRecovery_def split: prod.splits outcome.splits)

text \<open>
  C34. A service operation never panics, and one the authorization function denies leaves store and
  repository untouched: the denial comes back as it is, with the zero value.
\<close>

theorem service_guarded:
  "(\<forall>p. snd (Exec zero (svc_OpChain name t lg m tr authFn) op fn ctx w) \<noteq> Panic p)
   \<and> (\<forall>f e. authFn = Some f \<and> f ctx (name @ ''.'' @ op) = Some e \<longrightarrow>
        snd (Exec zero (svc_OpChain name t lg m tr authFn) op fn ctx w) = Return (zero, Some e)
        \<and> same w (fst (Exec zero (svc_OpChain name t lg m tr authFn) op fn ctx w)))"
proof (intro conjI allI impI)
  fix p
  show "snd (Exec zero (svc_OpChain name t lg m tr authFn) op fn ctx w) \<noteq> Panic p"
    unfolding svc_OpChain_def by (rule Exec_recovered)
next
  fix f e
  assume A: "authFn = Some f \<and> f ctx (name @ ''.'' @ op) = Some e"
  have "denies e ctx (svc_OpChain name t lg m tr authFn op nxt)" for nxt :: "('b, 'c, 'a, 'd) world_scheme body"
    using A by (simp add: svc_OpChain_def Chain_append denies_intros denies_Auth)
  then show "snd (Exec zero (svc_OpChain name t lg m tr authFn) op fn ctx w) = Return (zero, Some e)"
    and "same w (fst (Exec zero (svc_OpChain name t lg m tr authFn) op fn ctx w))"
    using Exec_denied [of e ctx "svc_OpChain name t lg m tr authFn" op zero fn w] by blast+
qed

theorem service_guarded_witness:
  "snd (Exec (REntity None) (svc_OpChain ''users'' 0 True True True (Some (\<lambda>ctx a. Some (New CodeForbidden a)))) ''Get''
     (on_store (st_Get demo_store 0)) \<lparr>in_tx = False, ctx_deadline = None\<rparr> demo_world)
   = Return (REntity None, Some (New CodeForbidden ''users.Get''))"
  using service_guarded [of "REntity None" "''users''" 0 True True True "Some (\<lambda>ctx a. Some (New CodeForbidden a))" "''Get''"
      "on_store (st_Get demo_store 0)" "\<lparr>in_tx = False, ctx_deadline = None\<rparr>" demo_world] by simp

section \<open>Lemmas: executors\<close>

text \<open>A tier with recovery never panics; an operation a breaker sheds is reported as unavailable and did not run.\<close>

lemma exec_Recovery_no_panic: "snd (exec_Recovery zero inner lg tier name f ctx i w) \<noteq> Panic p"
  by (auto simp: exec_Recovery_def split: prod.splits outcome.splits)

lemma build_tier_no_panic: "b_recovery b \<Longrightarrow> snd (build_tier tier f zero b base ctx i w) \<noteq> Panic p"
  by (simp add: build_tier_def Let_def exec_Recovery_no_panic)

lemma analytics_chain_no_panic: "snd (analytics_chain b cb zero op e ctx i w) \<noteq> Panic p"
  by (simp add: analytics_chain_def Let_def exec_Recovery_no_panic)

lemma exec_breaker_open:
  assumes "\<And>fn w. cb fn w = (w, Return (Some e))"
  shows "exec_CircuitBreaker zero inner cb onOpen ctx i w = (w, Return (zero, onOpen e))"
  by (simp add: exec_CircuitBreaker_def assms)

lemma exec_breaker_closed:
  assumes "\<And>fn w. cb fn w = fn w" and "inner ctx i (w\<lparr>w_cell := (zero, True)\<rparr>) = (w', Return (v, err))"
  shows "exec_CircuitBreaker zero inner cb onOpen ctx i w = (w'\<lparr>w_cell := w_cell w\<rparr>, Return (v, err))"
  using assms by (simp add: exec_CircuitBreaker_def split: option.splits)

text \<open>A timed-out analytics operation is coded as a timeout and still matches the deadline error.\<close>

lemma codedTimeout_code:
  assumes "inner ctx i w = (w', Return (v, Some e))" and "StdIs (Some e) DeadlineExceeded"
  shows "\<exists>e'. codedTimeout inner ctx i w = (w', Return (v, Some e')) \<and> Code (Some e') = CodeTimeout \<and> StdIs (Some e') DeadlineExceeded"
  using assms by (auto simp: codedTimeout_def StdIs_Wrap Wrap_def Code_def as_app_error_def StdIs_def)

end
