(* ===== verification/Repository.thy ===== *)
theory Repository
  imports Decorate Read_Through
begin

text \<open>
  The decorated repositories of \<^verbatim>\<open>repos/repository\<close>: the base repository over a store, the seven
  decorators of the CRUD interface with their builder, and the constructor that wires them from
  configuration.  The world of theory \<^verbatim>\<open>Decorate\<close> gets the state of the byte cache.  The caching
  decorator uses the envelope of theory \<^verbatim>\<open>Read_Through\<close>; its single flight is taken with one
  caller, since callers that join a flight get a copy of its result.  \<open>fmt\<close> prints an identifier
  as \<^verbatim>\<open>%v\<close> does.
\<close>

section \<open>The interface\<close>

record ('s, 'r, 'v, 'c) cworld = "('s, 'r, 'v) world" +
  w_cache :: 'c

type_synonym ('w, 'v) action = "ctx \<Rightarrow> 'w \<Rightarrow> 'w \<times> ('v \<times> error option) outcome"

record ('w, 't, 'p, 'id, 'g) repo =
  Get :: "'id \<Rightarrow> ('w, ('t, 'g) rvalue) action"
  List :: "'p \<Rightarrow> ('w, ('t, 'g) rvalue) action"
  Create :: "'t \<Rightarrow> ('w, ('t, 'g) rvalue) action"
  Update :: "'id \<Rightarrow> 't \<Rightarrow> ('w, ('t, 'g) rvalue) action"
  Delete :: "'id \<Rightarrow> ('w, ('t, 'g) rvalue) action"
  Exists :: "'id \<Rightarrow> ('w, ('t, 'g) rvalue) action"

definition BaseRepository ::
  "('s, 't, 'p, 'id, 'g) store \<Rightarrow> (('s, 'r, 'v, 'x) world_scheme, 't, 'p, 'id, 'g) repo" where
  "BaseRepository st =
     \<lparr>Get = (\<lambda>i. on_store (st_Get st i)), List = (\<lambda>p. on_store (st_List st p)), Create = (\<lambda>x. on_store (st_Create st x)),
      Update = (\<lambda>i x. on_store (st_Update st i x)), Delete = (\<lambda>i. on_store (st_Delete st i)),
      Exists = (\<lambda>i. on_store (st_Exists st i))\<rparr>"

section \<open>Caching (decorators/caching.go)\<close>

record 'c DeleteCache = "'c ByteCache" +
  cache_Delete :: "'c \<Rightarrow> string \<Rightarrow> 'c"

record ('c, 't, 'id) caching =
  cd_lib :: golib
  cd_codec :: "'t codec"
  cd_wall :: "int \<times> int"
  cd_fmt :: "'id \<Rightarrow> string"
  cd_cache :: "'c DeleteCache"
  cd_idOf :: "('t \<Rightarrow> 'id) option"
  cd_name :: string
  cd_ttl :: int
  cd_version :: int

definition CacheKey :: "('id \<Rightarrow> string) \<Rightarrow> string \<Rightarrow> 'id \<Rightarrow> string" where
  "CacheKey fmt name i = ''repo:'' @ name @ '':'' @ fmt i"

definition cacheKey :: "('c, 't, 'id) caching \<Rightarrow> 'id \<Rightarrow> string" where
  "cacheKey d i = CacheKey (cd_fmt d) (cd_name d) i"

definition readCache :: "('c, 't, 'id) caching \<Rightarrow> 'c \<Rightarrow> string \<Rightarrow> 't option" where
  "readCache d c key =
     (case cache_Get (cd_cache d) c key of
        None \<Rightarrow> None
      | Some data \<Rightarrow> (case Decode (cd_lib d) (cd_codec d) data (cd_version d) of Inr (Some v) \<Rightarrow> Some v | _ \<Rightarrow> None))"

text \<open>Encode and store; a value that does not encode is not stored.\<close>

definition fillCache ::
  "('c, 't, 'id) caching \<Rightarrow> string \<Rightarrow> 't \<Rightarrow> ('s, 'r, 'v, 'c, 'x) cworld_scheme \<Rightarrow> ('s, 'r, 'v, 'c, 'x) cworld_scheme" where
  "fillCache d key v w =
     (case Encode (cd_lib d) (cd_codec d) (cd_wall d) v (cd_version d) of
        Inr data \<Rightarrow> w\<lparr>w_cache := cache_Set (cd_cache d) (w_cache w) key data (cd_ttl d)\<rparr>
      | Inl e \<Rightarrow> w)"

definition nil_deref :: string where
  "nil_deref = ''runtime error: invalid memory address or nil pointer dereference''"

definition caching_Get where
  "caching_Get d inner i ctx w =
     (case readCache d (w_cache w) (cacheKey d i) of
        Some v \<Rightarrow> (w, Return (REntity (Some v), None))
      | None \<Rightarrow>
          (case Get inner i ctx w of
             (w', Panic p) \<Rightarrow> (w', Panic p)
           | (w', Return (v, Some e)) \<Rightarrow> (w', Return (REntity None, Some e))
           | (w', Return (REntity (Some t), None)) \<Rightarrow>
               (fillCache d (cacheKey d i) t w', Return (REntity (Some t), None))
           | (w', Return (_, None)) \<Rightarrow> (w', Panic nil_deref)))"

definition caching_Create where
  "caching_Create d inner x ctx w =
     (case Create inner x ctx w of
        (w', Panic p) \<Rightarrow> (w', Panic p)
      | (w', Return (v, Some e)) \<Rightarrow> (w', Return (REntity None, Some e))
      | (w', Return (v, None)) \<Rightarrow>
          (case (cd_idOf d, v) of
             (None, _) \<Rightarrow> (w', Return (v, None))
           | (Some idOf, REntity (Some t)) \<Rightarrow> (fillCache d (cacheKey d (idOf t)) t w', Return (v, None))
           | (Some idOf, _) \<Rightarrow> (w', Panic nil_deref)))"

definition cache_evict where
  "cache_evict d i res =
     (case res of
        (w, Return (v, None)) \<Rightarrow> (w\<lparr>w_cache := cache_Delete (cd_cache d) (w_cache w) (cacheKey d i)\<rparr>, Return (v, None))
      | _ \<Rightarrow> res)"

definition caching_Exists where
  "caching_Exists d inner i ctx w =
     (if readCache d (w_cache w) (cacheKey d i) \<noteq> None then (w, Return (RBool True, None)) else Exists inner i ctx w)"

definition cachingDecorator ::
  "('c, 't, 'id) caching \<Rightarrow> (('s, 'r, 'v, 'c, 'x) cworld_scheme, 't, 'p, 'id, 'g) repo
   \<Rightarrow> (('s, 'r, 'v, 'c, 'x) cworld_scheme, 't, 'p, 'id, 'g) repo" where
  "cachingDecorator d inner =
     \<lparr>Get = caching_Get d inner, List = List inner, Create = caching_Create d inner,
      Update = (\<lambda>i x ctx w. cache_evict d i (Update inner i x ctx w)), Delete = (\<lambda>i ctx w. cache_evict d i (Delete inner i ctx w)),
      Exists = caching_Exists d inner\<rparr>"

section \<open>Resilience and observability decorators\<close>

text \<open>A closure that captures the result of the inner call in a variable starting at its zero value.\<close>

definition captured ::
  "'v \<Rightarrow> (('s, 'r, 'v, 'x) world_scheme thunk \<Rightarrow> ('s, 'r, 'v, 'x) world_scheme thunk)
   \<Rightarrow> (('s, 'r, 'v, 'x) world_scheme, 'v) action \<Rightarrow> (('s, 'r, 'v, 'x) world_scheme, 'v) action" where
  "captured zero run fn ctx w =
     (case run (\<lambda>w. case fn ctx w of
                      (w', Return (v, e)) \<Rightarrow> (w'\<lparr>w_cell := v\<rparr>, Return e)
                    | (w', Panic p) \<Rightarrow> (w', Panic p))
             (w\<lparr>w_cell := zero\<rparr>) of
        (w', Return err) \<Rightarrow> (w'\<lparr>w_cell := w_cell w\<rparr>, Return (w_cell w', err))
      | (w', Panic p) \<Rightarrow> (w'\<lparr>w_cell := w_cell w\<rparr>, Panic p))"

text \<open>decorators/retry.go: nothing is retried in a transaction, and a create never.\<close>

definition retried ::
  "('s, 'r, 'v, 'x) world_scheme retrier \<Rightarrow> 'v \<Rightarrow> (('s, 'r, 'v, 'x) world_scheme, 'v) action \<Rightarrow> (('s, 'r, 'v, 'x) world_scheme, 'v) action" where
  "retried r zero fn ctx w = (if in_tx ctx then fn ctx w else captured zero (r ctx) fn ctx w)"

definition retryDecorator where
  "retryDecorator r inner =
     \<lparr>Get = (\<lambda>i. retried r (REntity None) (Get inner i)), List = (\<lambda>p. retried r (RPage None) (List inner p)),
      Create = Create inner, Update = (\<lambda>i x. retried r (REntity None) (Update inner i x)),
      Delete = (\<lambda>i. retried r RUnit (Delete inner i)), Exists = (\<lambda>i. retried r (RBool False) (Exists inner i))\<rparr>"

definition circuitBreakerDecorator where
  "circuitBreakerDecorator cb inner =
     \<lparr>Get = (\<lambda>i. captured (REntity None) cb (Get inner i)), List = (\<lambda>p. captured (RPage None) cb (List inner p)),
      Create = (\<lambda>x. captured (REntity None) cb (Create inner x)), Update = (\<lambda>i x. captured (REntity None) cb (Update inner i x)),
      Delete = (\<lambda>i. captured RUnit cb (Delete inner i)), Exists = (\<lambda>i. captured (RBool False) cb (Exists inner i))\<rparr>"

definition timed ::
  "int \<Rightarrow> (('s, 'r, 'v, 'x) world_scheme, 'a) action \<Rightarrow> (('s, 'r, 'v, 'x) world_scheme, 'a) action" where
  "timed d fn ctx w = fn (WithTimeout ctx (w_now w) d) w"

definition timeoutDecorator where
  "timeoutDecorator d inner =
     \<lparr>Get = (\<lambda>i. timed d (Get inner i)), List = (\<lambda>p. timed d (List inner p)), Create = (\<lambda>x. timed d (Create inner x)),
      Update = (\<lambda>i x. timed d (Update inner i x)), Delete = (\<lambda>i. timed d (Delete inner i)),
      Exists = (\<lambda>i. timed d (Exists inner i))\<rparr>"

definition logged ::
  "string \<Rightarrow> (string \<times> logval) list \<Rightarrow> (('s, 'r, 'v, 'x) world_scheme, 'a) action \<Rightarrow> (('s, 'r, 'v, 'x) world_scheme, 'a) action" where
  "logged op flds fn ctx w =
     (case fn ctx (emit [Debug (''repository.'' @ op) flds] w) of
        (w', Return (v, Some e)) \<Rightarrow>
          (emit [Debug (''repository.'' @ op @ '' failed'') (flds @ [(''error'', LErr e)])] w', Return (v, Some e))
      | r \<Rightarrow> r)"

definition loggingDecorator where
  "loggingDecorator fmt name inner =
     (let r = (''repo'', LStr name); f = (\<lambda>i. (''id'', LStr (fmt i)))
      in \<lparr>Get = (\<lambda>i. logged ''Get'' [r, f i] (Get inner i)), List = (\<lambda>p. logged ''List'' [r] (List inner p)),
          Create = (\<lambda>x. logged ''Create'' [r] (Create inner x)), Update = (\<lambda>i x. logged ''Update'' [r, f i] (Update inner i x)),
          Delete = (\<lambda>i. logged ''Delete'' [r, f i] (Delete inner i)), Exists = (\<lambda>i. logged ''Exists'' [r, f i] (Exists inner i))\<rparr>)"

text \<open>The metrics decorator registers the collectors of the repository chain under the same names.\<close>

definition observe :: "string \<Rightarrow> string \<Rightarrow> error option \<Rightarrow> obs list" where
  "observe name op err =
     [Inc ''repository_operations_total'' [name, op], Observe ''repository_operation_duration_seconds'' [name, op]]
     @ (if err \<noteq> None then [Inc ''repository_errors_total'' [name, op]] else [])"

definition measured ::
  "string \<Rightarrow> string \<Rightarrow> (('s, 'r, 'v, 'x) world_scheme, 'a) action \<Rightarrow> (('s, 'r, 'v, 'x) world_scheme, 'a) action" where
  "measured name op fn ctx w =
     (case fn ctx w of
        (w', Return (v, err)) \<Rightarrow> (emit (observe name op err) w', Return (v, err))
      | r \<Rightarrow> r)"

definition metricsDecorator where
  "metricsDecorator name inner =
     \<lparr>Get = (\<lambda>i. measured name ''Get'' (Get inner i)), List = (\<lambda>p. measured name ''List'' (List inner p)),
      Create = (\<lambda>x. measured name ''Create'' (Create inner x)), Update = (\<lambda>i x. measured name ''Update'' (Update inner i x)),
      Delete = (\<lambda>i. measured name ''Delete'' (Delete inner i)), Exists = (\<lambda>i. measured name ''Exists'' (Exists inner i))\<rparr>"

definition traced ::
  "string \<Rightarrow> string \<Rightarrow> (('s, 'r, 'v, 'x) world_scheme, 'a) action \<Rightarrow> (('s, 'r, 'v, 'x) world_scheme, 'a) action" where
  "traced name op fn ctx w =
     (case fn ctx (emit [SpanStart (name @ ''.'' @ op), SpanAttr ''db.repository'' name, SpanAttr ''db.operation'' op] w) of
        (w', Return (v, Some e)) \<Rightarrow> (emit [SpanError e, SpanStatus (error_text e), SpanEnd] w', Return (v, Some e))
      | (w', r) \<Rightarrow> (emit [SpanEnd] w', r))"

definition tracingDecorator where
  "tracingDecorator name inner =
     \<lparr>Get = (\<lambda>i. traced name ''Get'' (Get inner i)), List = (\<lambda>p. traced name ''List'' (List inner p)),
      Create = (\<lambda>x. traced name ''Create'' (Create inner x)), Update = (\<lambda>i x. traced name ''Update'' (Update inner i x)),
      Delete = (\<lambda>i. traced name ''Delete'' (Delete inner i)), Exists = (\<lambda>i. traced name ''Exists'' (Exists inner i))\<rparr>"

section \<open>Builder (decorators/builder.go, from_config.go)\<close>

text \<open>The collaborators of theory \<^verbatim>\<open>Decorate\<close> and the cache, when one is set.\<close>

definition Build where
  "Build fmt c cache base =
     (let r = base;
          r = (case cache of Some d \<Rightarrow> cachingDecorator d r | None \<Rightarrow> r);
          r = (case c_retrier c of Some rt \<Rightarrow> retryDecorator rt r | None \<Rightarrow> r);
          r = (case c_cb c of Some cb \<Rightarrow> circuitBreakerDecorator cb r | None \<Rightarrow> r);
          r = (if c_timeout c > 0 then timeoutDecorator (c_timeout c) r else r);
          r = (if c_logger c then loggingDecorator fmt (c_name c) r else r);
          r = (if c_metrics c then metricsDecorator (c_name c) r else r);
          r = (if c_tracer c then tracingDecorator (c_name c) r else r)
      in r)"

definition DecoratedFromConfig where
  "DecoratedFromConfig fmt c cache st = Build fmt c cache (BaseRepository st)"

section \<open>Lemmas: the cache and the store\<close>

text \<open>What a byte cache promises: a hit is the value last set under the key and not deleted since.\<close>

definition byte_cache_law :: "'c DeleteCache \<Rightarrow> bool" where
  "byte_cache_law bc \<longleftrightarrow>
     (\<forall>c k v t k' x. cache_Get bc (cache_Set bc c k v t) k' = Some x \<longrightarrow> (if k' = k then x = v else cache_Get bc c k' = Some x))
   \<and> (\<forall>c k k' x. cache_Get bc (cache_Delete bc c k) k' = Some x \<longrightarrow> k' \<noteq> k \<and> cache_Get bc c k' = Some x)"

text \<open>
  A store that keeps entities by identifier.  Reads change nothing and answer from \<open>lookup\<close>; a
  create that succeeds adds a new entity, an update or delete that succeeds changes its own entity
  only, and a write that fails changes none.
\<close>

definition kv_reads :: "('s, 't, 'p, 'id, 'g) store \<Rightarrow> ('s \<Rightarrow> 'id \<Rightarrow> 't option) \<Rightarrow> ('id \<Rightarrow> error) \<Rightarrow> bool" where
  "kv_reads st lookup missing \<longleftrightarrow>
     (\<forall>i ctx s. st_Get st i ctx s =
        (s, Return (case lookup s i of Some t \<Rightarrow> (REntity (Some t), None) | None \<Rightarrow> (REntity None, Some (missing i)))))
   \<and> (\<forall>i ctx s. st_Exists st i ctx s = (s, Return (RBool (lookup s i \<noteq> None), None)))
   \<and> (\<forall>p ctx s. fst (st_List st p ctx s) = s)"

definition kv_creates :: "('s, ('t, 'g) rvalue) store_op \<Rightarrow> ('s \<Rightarrow> 'id \<Rightarrow> 't option) \<Rightarrow> ('t \<Rightarrow> 'id) \<Rightarrow> bool" where
  "kv_creates f lookup idOf \<longleftrightarrow>
     (\<forall>ctx s. \<exists>s'. (\<exists>t. f ctx s = (s', Return (REntity (Some t), None)) \<and> lookup s (idOf t) = None \<and> lookup s' = (lookup s)(idOf t := Some t))
                 \<or> (\<exists>e. f ctx s = (s', Return (REntity None, Some e)) \<and> lookup s' = lookup s))"

definition kv_writes :: "('s, ('t, 'g) rvalue) store_op \<Rightarrow> ('s \<Rightarrow> 'id \<Rightarrow> 't option) \<Rightarrow> 'id \<Rightarrow> bool" where
  "kv_writes f lookup i \<longleftrightarrow>
     (\<forall>ctx s. \<exists>s'. (\<exists>v. f ctx s = (s', Return (v, None)) \<and> (\<forall>j. j \<noteq> i \<longrightarrow> lookup s' j = lookup s j))
                 \<or> (\<exists>v e. f ctx s = (s', Return (v, Some e)) \<and> lookup s' = lookup s))"

definition kv_store ::
  "('s, 't, 'p, 'id, 'g) store \<Rightarrow> ('s \<Rightarrow> 'id \<Rightarrow> 't option) \<Rightarrow> ('id \<Rightarrow> error) \<Rightarrow> ('t \<Rightarrow> 'id) \<Rightarrow> bool" where
  "kv_store st lookup missing idOf \<longleftrightarrow>
     kv_reads st lookup missing \<and> (\<forall>x. kv_creates (st_Create st x) lookup idOf)
     \<and> (\<forall>i x. kv_writes (st_Update st i x) lookup i) \<and> (\<forall>i. kv_writes (st_Delete st i) lookup i)"

definition coherent :: "('c, 't, 'id) caching \<Rightarrow> ('s \<Rightarrow> 'id \<Rightarrow> 't option) \<Rightarrow> ('s, 'r, 'v, 'c, 'x) cworld_scheme \<Rightarrow> bool" where
  "coherent d lookup w \<longleftrightarrow> (\<forall>i v. readCache d (w_cache w) (cacheKey d i) = Some v \<longrightarrow> lookup (w_store w) i = Some v)"

text \<open>The decorator as it is meant to be set up.\<close>

definition caching_ok :: "('c, 't, 'id) caching \<Rightarrow> ('t \<Rightarrow> 'id) \<Rightarrow> bool" where
  "caching_ok d idOf \<longleftrightarrow>
     byte_cache_law (cd_cache d) \<and> codec_ok (cd_lib d) (cd_codec d) (cd_wall d) \<and> inj (cd_fmt d)
     \<and> MinInt64 \<le> cd_version d \<and> cd_version d \<le> MaxInt64 \<and> (cd_idOf d = None \<or> cd_idOf d = Some idOf)"

lemma cacheKey_inj: "inj (cd_fmt d) \<Longrightarrow> cacheKey d i = cacheKey d j \<longleftrightarrow> i = j"
  by (auto simp: cacheKey_def CacheKey_def inj_eq)

lemma readCache_set:
  assumes "caching_ok d idOf" and "Encode (cd_lib d) (cd_codec d) (cd_wall d) t (cd_version d) = Inr data"
    and "readCache d (cache_Set (cd_cache d) c k data ttl) k' = Some v"
  shows "if k' = k then v = t else readCache d c k' = Some v"
proof -
  have ok: "byte_cache_law (cd_cache d)" "codec_ok (cd_lib d) (cd_codec d) (cd_wall d)"
    "MinInt64 \<le> cd_version d" "cd_version d \<le> MaxInt64" using assms(1) by (auto simp: caching_ok_def)
  have dec: "Decode (cd_lib d) (cd_codec d) data (cd_version d) = Inr (Some t)"
    using Decode_Encode [OF ok(2-4), of t] assms(2) by auto
  obtain x where x: "cache_Get (cd_cache d) (cache_Set (cd_cache d) c k data ttl) k' = Some x"
    using assms(3) by (auto simp: readCache_def split: option.splits)
  then have "if k' = k then x = data else cache_Get (cd_cache d) c k' = Some x"
    using ok(1) unfolding byte_cache_law_def by blast
  then show ?thesis using assms(3) x dec by (auto simp: readCache_def split: if_splits)
qed

lemma readCache_delete:
  assumes "byte_cache_law (cd_cache d)" and "readCache d (cache_Delete (cd_cache d) c k) k' = Some v"
  shows "k' \<noteq> k \<and> readCache d c k' = Some v"
proof -
  obtain x where x: "cache_Get (cd_cache d) (cache_Delete (cd_cache d) c k) k' = Some x"
    using assms(2) by (auto simp: readCache_def split: option.splits)
  then have "k' \<noteq> k \<and> cache_Get (cd_cache d) c k' = Some x" using assms(1) unfolding byte_cache_law_def by blast
  then show ?thesis using assms(2) x by (auto simp: readCache_def)
qed

lemma fillCache_store [simp]: "w_store (fillCache d k t w) = w_store w"
  by (simp add: fillCache_def split: sum.splits)

lemma coherent_fill:
  assumes "caching_ok d idOf" and "lookup (w_store w') i = Some t"
    and "\<And>j v. j \<noteq> i \<Longrightarrow> readCache d (w_cache w') (cacheKey d j) = Some v \<Longrightarrow> lookup (w_store w') j = Some v"
  shows "coherent d lookup (fillCache d (cacheKey d i) t w')"
  unfolding coherent_def
proof (intro allI impI)
  fix j v
  assume R: "readCache d (w_cache (fillCache d (cacheKey d i) t w')) (cacheKey d j) = Some v"
  have inj: "inj (cd_fmt d)" using assms(1) by (simp add: caching_ok_def)
  obtain data where E: "Encode (cd_lib d) (cd_codec d) (cd_wall d) t (cd_version d) = Inr data"
    using Decode_Encode [of "cd_lib d" "cd_codec d" "cd_wall d" "cd_version d" t] assms(1) by (auto simp: caching_ok_def)
  then have "if cacheKey d j = cacheKey d i then v = t else readCache d (w_cache w') (cacheKey d j) = Some v"
    using R by (intro readCache_set [OF assms(1) E]) (simp add: fillCache_def)
  then show "lookup (w_store (fillCache d (cacheKey d i) t w')) j = Some v"
    using assms(2,3) cacheKey_inj [OF inj] by (cases "j = i") auto
qed

lemma coherent_evict:
  assumes "byte_cache_law (cd_cache d)"
    and "\<And>j v. j \<noteq> i \<Longrightarrow> readCache d (w_cache w') (cacheKey d j) = Some v \<Longrightarrow> lookup (w_store w') j = Some v"
  shows "coherent d lookup (w'\<lparr>w_cache := cache_Delete (cd_cache d) (w_cache w') (cacheKey d i)\<rparr>)"
  unfolding coherent_def
proof (intro allI impI)
  fix j v
  assume "readCache d (w_cache (w'\<lparr>w_cache := cache_Delete (cd_cache d) (w_cache w') (cacheKey d i)\<rparr>)) (cacheKey d j) = Some v"
  then have R: "readCache d (cache_Delete (cd_cache d) (w_cache w') (cacheKey d i)) (cacheKey d j) = Some v" by simp
  from readCache_delete [OF assms(1) R] have "j \<noteq> i" and "readCache d (w_cache w') (cacheKey d j) = Some v" by blast+
  then have "lookup (w_store w') j = Some v" by (rule assms(2))
  then show "lookup (w_store (w'\<lparr>w_cache := cache_Delete (cd_cache d) (w_cache w') (cacheKey d i)\<rparr>)) j = Some v" by simp
qed

section \<open>Lemmas: the cached repository answers as the store\<close>

datatype ('t, 'p, 'id) call = CGet 'id | CList 'p | CCreate 't | CUpdate 'id 't | CDelete 'id | CExists 'id

fun perform :: "('w, 't, 'p, 'id, 'g) repo \<Rightarrow> ('t, 'p, 'id) call \<Rightarrow> ('w, ('t, 'g) rvalue) action" where
  "perform r (CGet i) = Get r i"
| "perform r (CList p) = List r p"
| "perform r (CCreate x) = Create r x"
| "perform r (CUpdate i x) = Update r i x"
| "perform r (CDelete i) = Delete r i"
| "perform r (CExists i) = Exists r i"

fun run_calls ::
  "('w, 't, 'p, 'id, 'g) repo \<Rightarrow> (ctx \<times> ('t, 'p, 'id) call) list \<Rightarrow> 'w \<Rightarrow> 'w \<times> (('t, 'g) rvalue \<times> error option) outcome list" where
  "run_calls r [] w = (w, [])"
| "run_calls r ((ctx, c) # cs) w =
     (case perform r c ctx w of (w', a) \<Rightarrow> (case run_calls r cs w' of (w'', as) \<Rightarrow> (w'', a # as)))"

text \<open>One call on the cached repository, against the same call on the plain one.\<close>

abbreviation agrees where
  "agrees d lookup p q \<equiv> snd p = snd q \<and> w_store (fst p) = w_store (fst q) \<and> coherent d lookup (fst p)"

lemma Get_agrees:
  assumes kv: "kv_store st lookup missing idOf" and ok: "caching_ok d idOf" and co: "coherent d lookup w" and "w_store w0 = w_store w"
  shows "agrees d lookup (Get (cachingDecorator d (BaseRepository st)) i ctx w) (Get (BaseRepository st) i ctx w0)"
proof (cases "readCache d (w_cache w) (cacheKey d i)")
  case (Some v)
  then have "lookup (w_store w) i = Some v" using co by (simp add: coherent_def)
  then show ?thesis using Some kv co assms(4)
    by (simp add: cachingDecorator_def caching_Get_def BaseRepository_def on_store_def kv_store_def kv_reads_def)
next
  case None
  have get: "Get (BaseRepository st) i ctx w =
      (w, Return (case lookup (w_store w) i of Some t \<Rightarrow> (REntity (Some t), None) | None \<Rightarrow> (REntity None, Some (missing i))))" for w
    using kv by (simp add: BaseRepository_def on_store_def kv_store_def kv_reads_def)
  show ?thesis
  proof (cases "lookup (w_store w) i")
    case N: None
    then show ?thesis using None co assms(4) by (simp add: cachingDecorator_def caching_Get_def get)
  next
    case (Some t)
    have "coherent d lookup (fillCache d (cacheKey d i) t w)"
      by (rule coherent_fill [where idOf = idOf]) (use ok co Some in \<open>simp_all add: coherent_def\<close>)
    then show ?thesis using None Some assms(4) by (simp add: cachingDecorator_def caching_Get_def get)
  qed
qed

lemma Exists_agrees:
  assumes kv: "kv_store st lookup missing idOf" and co: "coherent d lookup w" and "w_store w0 = w_store w"
  shows "agrees d lookup (Exists (cachingDecorator d (BaseRepository st)) i ctx w) (Exists (BaseRepository st) i ctx w0)"
proof -
  have ex: "Exists (BaseRepository st) i ctx w = (w, Return (RBool (lookup (w_store w) i \<noteq> None), None))" for w
    using kv by (simp add: BaseRepository_def on_store_def kv_store_def kv_reads_def)
  show ?thesis using co assms(3)
    by (cases "readCache d (w_cache w) (cacheKey d i)")
      (auto simp: cachingDecorator_def caching_Exists_def ex coherent_def)
qed

lemma Create_agrees:
  assumes kv: "kv_store st lookup missing idOf" and ok: "caching_ok d idOf" and co: "coherent d lookup w" and st: "w_store w0 = w_store w"
  shows "agrees d lookup (Create (cachingDecorator d (BaseRepository st)) x ctx w) (Create (BaseRepository st) x ctx w0)"
proof -
  have "kv_creates (st_Create st x) lookup idOf" using kv by (simp add: kv_store_def)
  then consider s' t where "st_Create st x ctx (w_store w) = (s', Return (REntity (Some t), None))"
      "lookup (w_store w) (idOf t) = None" "lookup s' = (lookup (w_store w))(idOf t := Some t)"
    | s' e where "st_Create st x ctx (w_store w) = (s', Return (REntity None, Some e))" "lookup s' = lookup (w_store w)"
    unfolding kv_creates_def by blast
  then show ?thesis
  proof cases
    case 1
    have no_hit: "lookup s' j = Some v" if "readCache d (w_cache w) (cacheKey d j) = Some v" for j v
      using co that 1(2,3) by (auto simp: coherent_def)
    have "coherent d lookup (w\<lparr>w_store := s'\<rparr>)" using no_hit by (simp add: coherent_def)
    moreover have "coherent d lookup (fillCache d (cacheKey d (idOf t)) t (w\<lparr>w_store := s'\<rparr>))"
    proof (rule coherent_fill [OF ok])
      show "lookup (w_store (w\<lparr>w_store := s'\<rparr>)) (idOf t) = Some t" using 1(3) by simp
      show "lookup (w_store (w\<lparr>w_store := s'\<rparr>)) j = Some v"
        if "readCache d (w_cache (w\<lparr>w_store := s'\<rparr>)) (cacheKey d j) = Some v" for j v
        using no_hit that by simp
    qed
    ultimately show ?thesis using 1(1) st ok
      by (auto simp: cachingDecorator_def caching_Create_def BaseRepository_def on_store_def caching_ok_def)
  next
    case 2
    then show ?thesis using st co
      by (simp add: cachingDecorator_def caching_Create_def BaseRepository_def on_store_def coherent_def)
  qed
qed

text \<open>Updates and deletes: the entry of the written entity is evicted when the write succeeds.\<close>

lemma evict_agrees:
  assumes ok: "caching_ok d idOf" and co: "coherent d lookup w" and st: "w_store w0 = w_store w"
    and f: "kv_writes f lookup i"
  shows "agrees d lookup (cache_evict d i (on_store f ctx w)) (on_store f ctx w0)"
proof -
  have "(\<exists>s' v. f ctx (w_store w) = (s', Return (v, None)) \<and> (\<forall>j. j \<noteq> i \<longrightarrow> lookup s' j = lookup (w_store w) j))
      \<or> (\<exists>s' v e. f ctx (w_store w) = (s', Return (v, Some e)) \<and> lookup s' = lookup (w_store w))"
    using f unfolding kv_writes_def by blast
  then show ?thesis
proof (elim disjE exE conjE)
  fix s' v
  assume F: "f ctx (w_store w) = (s', Return (v, None))" and other: "\<forall>j. j \<noteq> i \<longrightarrow> lookup s' j = lookup (w_store w) j"
  have "coherent d lookup ((w\<lparr>w_store := s'\<rparr>)\<lparr>w_cache := cache_Delete (cd_cache d) (w_cache (w\<lparr>w_store := s'\<rparr>)) (cacheKey d i)\<rparr>)"
    by (rule coherent_evict) (use ok co other in \<open>simp_all add: caching_ok_def coherent_def\<close>)
  then show ?thesis using F st by (simp add: cache_evict_def on_store_def)
next
  fix s' v e
  assume "f ctx (w_store w) = (s', Return (v, Some e))" "lookup s' = lookup (w_store w)"
  then show ?thesis using co st by (simp add: cache_evict_def on_store_def coherent_def)
qed
qed

lemma perform_agrees:
  assumes kv: "kv_store st lookup missing idOf" and ok: "caching_ok d idOf" and co: "coherent d lookup w" and st: "w_store w0 = w_store w"
  shows "agrees d lookup (perform (cachingDecorator d (BaseRepository st)) c ctx w) (perform (BaseRepository st) c ctx w0)"
proof (cases c)
  case (CGet i)
  then show ?thesis using Get_agrees [OF assms] by simp
next
  case (CList p)
  have "fst (st_List st p ctx (w_store w)) = w_store w" using kv by (simp add: kv_store_def kv_reads_def)
  then show ?thesis using CList co st
    by (cases "st_List st p ctx (w_store w)") (simp add: cachingDecorator_def BaseRepository_def on_store_def coherent_def)
next
  case (CCreate x)
  then show ?thesis using Create_agrees [OF assms] by simp
next
  case (CUpdate i x)
  have "kv_writes (st_Update st i x) lookup i" using kv by (simp add: kv_store_def)
  from evict_agrees [OF ok co st this] show ?thesis using CUpdate by (simp add: cachingDecorator_def BaseRepository_def)
next
  case (CDelete i)
  have "kv_writes (st_Delete st i) lookup i" using kv by (simp add: kv_store_def)
  from evict_agrees [OF ok co st this] show ?thesis using CDelete by (simp add: cachingDecorator_def BaseRepository_def)
next
  case (CExists i)
  then show ?thesis using Exists_agrees [OF kv co st] by simp
qed

lemma run_calls_agree:
  assumes kv: "kv_store st lookup missing idOf" and ok: "caching_ok d idOf" and "coherent d lookup w" and "w_store w0 = w_store w"
  shows "agrees d lookup (run_calls (cachingDecorator d (BaseRepository st)) cs w) (run_calls (BaseRepository st) cs w0)"
  using assms(3,4)
proof (induction cs arbitrary: w w0)
  case (Cons a cs)
  obtain ctx c where a: "a = (ctx, c)" by (cases a)
  obtain w1 r where 1: "perform (cachingDecorator d (BaseRepository st)) c ctx w = (w1, r)" by fastforce
  obtain v1 q where 2: "perform (BaseRepository st) c ctx w0 = (v1, q)" by fastforce
  have P: "q = r" "w_store v1 = w_store w1" "coherent d lookup w1"
    using perform_agrees [OF kv ok Cons.prems, of c ctx] 1 2 by simp_all
  show ?case using Cons.IH [OF P(3,2)] a 1 2 P(1) by (simp add: case_prod_beta)
qed simp

section \<open>Lemmas: how often the store is reached\<close>

definition store_once :: "('s, 'a) store_op \<Rightarrow> ctx \<Rightarrow> ('s, 'r, 'v, 'x) world_scheme \<Rightarrow> ('s, 'r, 'v, 'x) world_scheme \<Rightarrow> bool" where
  "store_once f ctx w w' \<longleftrightarrow>
     w_store w' = w_store w \<or> (\<exists>ctx'. in_tx ctx' = in_tx ctx \<and> w_store w' = fst (f ctx' (w_store w)))"

definition action_once :: "bool \<Rightarrow> ('s, 'a) store_op \<Rightarrow> (('s, 'r, 'v, 'x) world_scheme, 'b) action \<Rightarrow> bool" where
  "action_once b f g \<longleftrightarrow> (\<forall>ctx w. in_tx ctx = b \<longrightarrow> store_once f ctx w (fst (g ctx w)))"

lemma action_onceI: "(\<And>ctx w. in_tx ctx = b \<Longrightarrow> store_once f ctx w (fst (g ctx w))) \<Longrightarrow> action_once b f g"
  by (simp add: action_once_def)

lemma action_onceD: "action_once b f g \<Longrightarrow> in_tx ctx = b \<Longrightarrow> store_once f ctx w (fst (g ctx w))"
  by (simp add: action_once_def)

lemma store_once_cong:
  "store_once f ctx w w' \<Longrightarrow> w_store v = w_store w \<Longrightarrow> w_store v' = w_store w' \<Longrightarrow> store_once f ctx v v'"
  by (simp add: store_once_def)

lemma once_base: "action_once b f (on_store f)"
  by (rule action_onceI) (auto simp: store_once_def on_store_def split: prod.splits)

text \<open>A wrapper that runs the inner action on a world with the same store, and leaves the store alone afterwards.\<close>

lemma once_wrap:
  assumes "action_once b f g"
    and "\<And>ctx w. \<exists>ctx' v. in_tx ctx' = in_tx ctx \<and> w_store v = w_store w \<and> w_store (fst (h ctx w)) = w_store (fst (g ctx' v))"
  shows "action_once b f h"
proof (rule action_onceI)
  fix ctx :: ctx and w
  assume b: "in_tx ctx = b"
  obtain ctx' v where h: "in_tx ctx' = in_tx ctx" "w_store v = w_store w" "w_store (fst (h ctx w)) = w_store (fst (g ctx' v))"
    using assms(2) by blast
  have "store_once f ctx' v (fst (g ctx' v))" using assms(1) h(1) b by (simp add: action_onceD)
  then show "store_once f ctx w (fst (h ctx w))" using h by (simp add: store_once_def)
qed

lemma once_timed: "action_once b f g \<Longrightarrow> action_once b f (timed t g)"
  by (erule once_wrap) (auto simp: timed_def intro!: exI [of _ "WithTimeout _ _ _"])

lemma once_observed:
  assumes "action_once b f g"
    and "\<And>ctx w. \<exists>os. w_store (fst (h ctx w)) = w_store (fst (g ctx (emit os w)))"
  shows "action_once b f h"
  using assms(1)
proof (rule once_wrap)
  fix ctx :: ctx and w
  obtain os where "w_store (fst (h ctx w)) = w_store (fst (g ctx (emit os w)))" using assms(2) by blast
  then show "\<exists>ctx' v. in_tx ctx' = in_tx ctx \<and> w_store v = w_store w \<and> w_store (fst (h ctx w)) = w_store (fst (g ctx' v))"
    by (intro exI [of _ ctx] exI [of _ "emit os w"]) (simp add: emit_def)
qed

lemma emit_store [simp]: "w_store (emit os w) = w_store w"
  by (simp add: emit_def)

lemma once_logged: "action_once b f g \<Longrightarrow> action_once b f (logged op flds g)"
  by (erule once_observed, rule exI [of _ "[Debug (''repository.'' @ op) flds]"])
    (auto simp: logged_def split: prod.splits outcome.splits option.splits)

lemma once_measured: "action_once b f g \<Longrightarrow> action_once b f (measured n op g)"
  by (erule once_observed, rule exI [of _ "[]"]) (auto simp: measured_def split: prod.splits outcome.splits)

lemma once_traced: "action_once b f g \<Longrightarrow> action_once b f (traced n op g)"
  by (erule once_observed, rule exI [of _ "[SpanStart (n @ ''.'' @ op), SpanAttr ''db.repository'' n, SpanAttr ''db.operation'' op]"])
    (auto simp: traced_def split: prod.splits outcome.splits option.splits)

lemma once_captured:
  assumes "breaker_law cb" and "action_once b f g"
  shows "action_once b f (captured zero cb g)"
proof (rule action_onceI)
  fix ctx :: ctx and w :: "('a, 'b, 'c, 'd) world_scheme"
  assume b: "in_tx ctx = b"
  define fn :: "('a, 'b, 'c, 'd) world_scheme thunk" where "fn = (\<lambda>w. case g ctx w of
      (w', Return (v, e)) \<Rightarrow> (w'\<lparr>w_cell := v\<rparr>, Return e) | (w', Panic p) \<Rightarrow> (w', Panic p))"
  obtain x r where X: "cb fn (w\<lparr>w_cell := zero\<rparr>) = (x, r)" by fastforce
  have C: "w_store (fst (captured zero cb g ctx w)) = w_store x"
    using X unfolding captured_def fn_def by (auto split: outcome.splits)
  have "quiet (w\<lparr>w_cell := zero\<rparr>) x \<or> (\<exists>w1 w2. quiet (w\<lparr>w_cell := zero\<rparr>) w1 \<and> fn w1 = (w2, r) \<and> quiet w2 x)"
    using assms(1) X unfolding breaker_law_def by (metis prod.inject)
  then show "store_once f ctx w (fst (captured zero cb g ctx w))"
  proof (elim disjE exE conjE)
    assume "quiet (w\<lparr>w_cell := zero\<rparr>) x"
    then show ?thesis using C by (simp add: store_once_def quiet_iff)
  next
    fix w1 w2
    assume q: "quiet (w\<lparr>w_cell := zero\<rparr>) w1" "fn w1 = (w2, r)" "quiet w2 x"
    have "w_store (fst (g ctx w1)) = w_store w2" using q(2) by (auto simp: fn_def split: prod.splits outcome.splits)
    then have "store_once f ctx w1 w2" using action_onceD [OF assms(2) b, of w1] by (simp add: store_once_def)
    then show ?thesis using C q by (simp add: store_once_def quiet_iff)
  qed
qed

lemma once_retried_tx: "action_once True f g \<Longrightarrow> action_once True f (retried r zero g)"
  by (simp add: action_once_def retried_def)

lemma once_or_not:
  assumes "action_once b f g" and "\<And>ctx w. w_store (fst (h ctx w)) = w_store w \<or> w_store (fst (h ctx w)) = w_store (fst (g ctx w))"
  shows "action_once b f h"
proof (rule action_onceI)
  fix ctx :: ctx and w
  assume "in_tx ctx = b"
  then have "store_once f ctx w (fst (g ctx w))" using assms(1) by (rule action_onceD [rotated])
  then show "store_once f ctx w (fst (h ctx w))" using assms(2) [of ctx w] by (auto simp: store_once_def)
qed

lemma once_caching_Create: "action_once b f (Create inner x) \<Longrightarrow> action_once b f (caching_Create d inner x)"
  by (erule once_or_not) (auto simp: caching_Create_def split: prod.splits outcome.splits option.splits rvalue.splits)

lemma once_caching_Get: "action_once b f (Get inner i) \<Longrightarrow> action_once b f (caching_Get d inner i)"
  by (erule once_or_not) (auto simp: caching_Get_def split: prod.splits outcome.splits option.splits rvalue.splits)

lemma once_caching_Exists: "action_once b f (Exists inner i) \<Longrightarrow> action_once b f (caching_Exists d inner i)"
  by (erule once_or_not) (simp add: caching_Exists_def)

lemma once_evict: "action_once b f g \<Longrightarrow> action_once b f (\<lambda>ctx w. cache_evict d i (g ctx w))"
  by (erule once_or_not) (auto simp: cache_evict_def split: prod.splits outcome.splits option.splits)

text \<open>Every create of the repository reaches the store at most once; in a transaction so does every operation.\<close>

definition repo_once :: "bool \<Rightarrow> ('s, 't, 'p, 'id, 'g) store \<Rightarrow> (('s, 'r, 'v, 'x) world_scheme, 't, 'p, 'id, 'g) repo \<Rightarrow> bool" where
  "repo_once b st R \<longleftrightarrow>
     (\<forall>x. action_once b (st_Create st x) (Create R x))
   \<and> (b \<longrightarrow> (\<forall>i. action_once b (st_Get st i) (Get R i)) \<and> (\<forall>p. action_once b (st_List st p) (List R p))
          \<and> (\<forall>i x. action_once b (st_Update st i x) (Update R i x)) \<and> (\<forall>i. action_once b (st_Delete st i) (Delete R i))
          \<and> (\<forall>i. action_once b (st_Exists st i) (Exists R i)))"

lemma repo_once_base: "repo_once b st (BaseRepository st)"
  by (simp add: repo_once_def BaseRepository_def once_base)

lemma repo_once_caching: "repo_once b st R \<Longrightarrow> repo_once b st (cachingDecorator d R)"
  by (simp add: repo_once_def cachingDecorator_def once_caching_Create once_caching_Get once_caching_Exists once_evict)

lemma repo_once_retry: "repo_once b st R \<Longrightarrow> repo_once b st (retryDecorator r R)"
  by (simp add: repo_once_def retryDecorator_def once_retried_tx)

lemma repo_once_breaker: "breaker_law cb \<Longrightarrow> repo_once b st R \<Longrightarrow> repo_once b st (circuitBreakerDecorator cb R)"
  by (simp add: repo_once_def circuitBreakerDecorator_def once_captured)

lemma repo_once_timeout: "repo_once b st R \<Longrightarrow> repo_once b st (timeoutDecorator t R)"
  by (simp add: repo_once_def timeoutDecorator_def once_timed)

lemma repo_once_logging: "repo_once b st R \<Longrightarrow> repo_once b st (loggingDecorator fmt n R)"
  by (simp add: repo_once_def loggingDecorator_def Let_def once_logged)

lemma repo_once_metrics: "repo_once b st R \<Longrightarrow> repo_once b st (metricsDecorator n R)"
  by (simp add: repo_once_def metricsDecorator_def once_measured)

lemma repo_once_tracing: "repo_once b st R \<Longrightarrow> repo_once b st (tracingDecorator n R)"
  by (simp add: repo_once_def tracingDecorator_def once_traced)

lemma Build_once:
  assumes "\<And>cb. c_cb c = Some cb \<Longrightarrow> breaker_law cb" and "repo_once b st base"
  shows "repo_once b st (Build fmt c cache base)"
  using assms unfolding Build_def Let_def
  by (auto intro!: repo_once_caching repo_once_retry repo_once_breaker repo_once_timeout repo_once_logging
      repo_once_metrics repo_once_tracing split: option.splits)

section \<open>Concrete set-up\<close>

text \<open>A store of strings that are their own identifiers, a map as cache, and the string codec.\<close>

definition string_store :: "(string set, string, unit, string, unit) store" where
  "string_store =
     \<lparr>st_Get = (\<lambda>i ctx s. (s, Return (if i \<in> s then (REntity (Some i), None) else (REntity None, Some (New CodeNotFound i))))),
      st_List = (\<lambda>p ctx s. (s, Return (RPage None, None))),
      st_Create = (\<lambda>x ctx s. if x \<in> s then (s, Return (REntity None, Some (New CodeConflict x)))
                             else (insert x s, Return (REntity (Some x), None))),
      st_Update = (\<lambda>i x ctx s. (s, Return (REntity None, Some (New CodeNotFound i)))),
      st_Delete = (\<lambda>i ctx s. (s - {i}, Return (RUnit, None))),
      st_Exists = (\<lambda>i ctx s. (s, Return (RBool (i \<in> s), None))),
      st_Insert = (\<lambda>x ctx s. (insert x s, Return (RUnit, None)))\<rparr>"

definition string_caching :: "(string \<rightharpoonup> string, string, string) caching" where
  "string_caching =
     \<lparr>cd_lib = clock_lib, cd_codec = demo_codec, cd_wall = wall demo_call, cd_fmt = (\<lambda>i. i),
      cd_cache = \<lparr>cache_Get = (\<lambda>c k. c k), cache_Set = (\<lambda>c k v t. c(k \<mapsto> v)), cache_Delete = (\<lambda>c k. c(k := None))\<rparr>,
      cd_idOf = Some (\<lambda>t. t), cd_name = ''names'', cd_ttl = 60, cd_version = 1\<rparr>"

definition string_world :: "(string set, unit, (string, unit) rvalue, string \<rightharpoonup> string) cworld" where
  "string_world = \<lparr>w_store = {}, w_res = (), w_cell = RUnit, w_log = [], w_now = 0, w_cache = Map.empty\<rparr>"

definition string_lookup :: "string set \<Rightarrow> string \<Rightarrow> string option" where
  "string_lookup s i = (if i \<in> s then Some i else None)"

lemma string_kv: "kv_store string_store string_lookup (New CodeNotFound) (\<lambda>t. t)"
  by (auto simp: kv_store_def kv_reads_def kv_creates_def kv_writes_def string_store_def string_lookup_def fun_eq_iff)

lemma string_caching_ok: "caching_ok string_caching (\<lambda>t. t)"
  by (auto simp: caching_ok_def string_caching_def byte_cache_law_def inj_def MinInt64_def MaxInt64_def
      codec_ok_def demo_codec_def clock_lib_def demo_call_def split: if_splits)

lemma string_coherent: "coherent string_caching string_lookup string_world"
  by (simp add: coherent_def readCache_def string_caching_def string_world_def)

section \<open>Properties\<close>



text \<open>
  C36. A create inside a transaction fills the cache before the commit.  When the transaction is
  rolled back, the repository goes on answering with the entity, from the cache, although the
  store does not have it.
\<close>

theorem caching_rollback_phantom:
  assumes "kv_store st lookup missing idOf" and "caching_ok d idOf" and "cd_idOf d = Some idOf"
    and "\<And>c k v t. cache_Get (cd_cache d) (cache_Set (cd_cache d) c k v t) k = Some v"
    and "st_Create st x ctx (w_store w) = (s', Return (REntity (Some t), None))"
    and "w' = (fst (Create (cachingDecorator d (BaseRepository st)) x ctx w))\<lparr>w_store := w_store w\<rparr>"
  shows "snd (Get (cachingDecorator d (BaseRepository st)) (idOf t) ctx' w') = Return (REntity (Some t), None)
    \<and> snd (Exists (cachingDecorator d (BaseRepository st)) (idOf t) ctx' w') = Return (RBool True, None)
    \<and> snd (Get (BaseRepository st) (idOf t) ctx' w') = Return (REntity None, Some (missing (idOf t)))"
proof -
  obtain data where E: "Encode (cd_lib d) (cd_codec d) (cd_wall d) t (cd_version d) = Inr data"
    and D: "Decode (cd_lib d) (cd_codec d) data (cd_version d) = Inr (Some t)"
    using Decode_Encode [of "cd_lib d" "cd_codec d" "cd_wall d" "cd_version d" t] assms(2) by (auto simp: caching_ok_def)
  have w': "w' = (w\<lparr>w_cache := cache_Set (cd_cache d) (w_cache w) (cacheKey d (idOf t)) data (cd_ttl d)\<rparr>)"
    unfolding assms(6) using assms(3,5) E
    by (simp add: cachingDecorator_def caching_Create_def BaseRepository_def on_store_def fillCache_def)
  have hit: "readCache d (w_cache w') (cacheKey d (idOf t)) = Some t"
    by (simp add: w' readCache_def assms(4) D)
  have "kv_creates (st_Create st x) lookup idOf" using assms(1) by (simp add: kv_store_def)
  then have "lookup (w_store w) (idOf t) = None"
    unfolding kv_creates_def by (elim allE [of _ ctx] allE [of _ "w_store w"]) (auto simp: assms(5))
  then have "st_Get st (idOf t) ctx' (w_store w) = (w_store w, Return (REntity None, Some (missing (idOf t))))"
    using assms(1) by (simp add: kv_store_def kv_reads_def)
  then show ?thesis using hit
    by (simp add: cachingDecorator_def caching_Get_def caching_Exists_def BaseRepository_def on_store_def w')
qed

theorem caching_rollback_phantom_witness:
  "snd (Get (cachingDecorator string_caching (BaseRepository string_store)) ''a'' \<lparr>in_tx = False, ctx_deadline = None\<rparr>
     ((fst (Create (cachingDecorator string_caching (BaseRepository string_store)) ''a'' \<lparr>in_tx = True, ctx_deadline = None\<rparr> string_world))\<lparr>w_store := {}\<rparr>))
   = Return (REntity (Some ''a''), None)"
proof -
  have "w_store string_world = {}" by (simp add: string_world_def)
  then show ?thesis
    using caching_rollback_phantom [OF string_kv string_caching_ok, where x = "''a''" and t = "''a''" and w = string_world
        and ctx = "\<lparr>in_tx = True, ctx_deadline = None\<rparr>" and ctx' = "\<lparr>in_tx = False, ctx_deadline = None\<rparr>"]
    by (simp add: string_caching_def string_store_def)
qed

text \<open>
  C37. In the fully decorated repository a create changes the store at most once, whatever the
  retrier does, and inside a transaction so does every operation.
\<close>

theorem decorated_at_most_once:
  assumes "\<And>cb. c_cb c = Some cb \<Longrightarrow> breaker_law cb"
  shows "store_once (st_Create st x) ctx w (fst (Create (DecoratedFromConfig fmt c cache st) x ctx w))
    \<and> (in_tx ctx \<longrightarrow>
         store_once (st_Update st i x) ctx w (fst (Update (DecoratedFromConfig fmt c cache st) i x ctx w))
       \<and> store_once (st_Delete st i) ctx w (fst (Delete (DecoratedFromConfig fmt c cache st) i ctx w)))"
proof -
  have "repo_once (in_tx ctx) st (DecoratedFromConfig fmt c cache st)"
    unfolding DecoratedFromConfig_def by (rule Build_once [OF assms repo_once_base])
  then show ?thesis by (auto simp: repo_once_def action_once_def)
qed

theorem decorated_at_most_once_witness:
  "store_once (st_Create string_store ''a'') \<lparr>in_tx = False, ctx_deadline = None\<rparr> string_world
     (fst (Create (DecoratedFromConfig (\<lambda>i. i)
        \<lparr>c_name = ''names'', c_timeout = 5, c_logger = True, c_metrics = True, c_tracer = True,
         c_retrier = Some (\<lambda>ctx op w. op (fst (op w))), c_cb = Some (\<lambda>fn. fn)\<rparr>
        (Some string_caching) string_store) ''a'' \<lparr>in_tx = False, ctx_deadline = None\<rparr> string_world))"
  by (rule decorated_at_most_once [THEN conjunct1]) (use breaker_law_id in auto)

end
