(* ===== verification/Jsonapi.thy ===== *)
theory Jsonapi
  imports Listquery_Token "HOL-Library.Finite_Map"
begin

text \<open>
  The JSON:API middleware of \<^verbatim>\<open>transport/jsonapi\<close>: the route table and its matcher, the transformation
  of responses into JSON:API documents, the validation and unwrapping of request envelopes, and the
  middleware that composes them around a handler.  A Go \<^verbatim>\<open>map[string]any\<close> is a finite map; a
  JSON number is a finite float64, with its parser, printer and truncation to an integer as
  parameters.  The handler and the names of the Connect codes are parameters.
\<close>

section \<open>Values of encoding/json\<close>

datatype 'n any =
    ANull | ABool bool | ANum 'n | AStr string | AArr "'n any list" | AObj "(string, 'n any) fmap"

type_synonym 'n object = "(string, 'n any) fmap"

record 'n floatlib =
  fparse :: "string \<Rightarrow> 'n option"
  fprint :: "'n \<Rightarrow> string"
  ftrunc :: "'n \<Rightarrow> int"

text \<open>Decoding: of a repeated key the last value counts.\<close>

definition go_map :: "(string \<times> 'a) list \<Rightarrow> (string, 'a) fmap" where
  "go_map kvs = fold (\<lambda>(k, v) m. fmupd k v m) kvs fmempty"

fun any_of_json :: "'n floatlib \<Rightarrow> json \<Rightarrow> 'n any option" where
  "any_of_json F JNull = Some ANull"
| "any_of_json F (JBool b) = Some (ABool b)"
| "any_of_json F (JNum l) = map_option ANum (fparse F l)"
| "any_of_json F (JStr s) = Some (AStr s)"
| "any_of_json F (JArr vs) = map_option AArr (those (map (any_of_json F) vs))"
| "any_of_json F (JObj kvs) =
     map_option (\<lambda>vs. AObj (go_map (zip (map fst kvs) vs))) (those (map (\<lambda>kv. any_of_json F (snd kv)) kvs))"

text \<open>\<^verbatim>\<open>json.Unmarshal\<close> into a \<^verbatim>\<open>map[string]any\<close>; \<^verbatim>\<open>null\<close> leaves the map empty without an error.\<close>

definition Unmarshal :: "'n floatlib \<Rightarrow> string \<Rightarrow> 'n object option" where
  "Unmarshal F body =
     (case Option.bind (json_parse body) (any_of_json F) of
        Some ANull \<Rightarrow> Some fmempty
      | Some (AObj m) \<Rightarrow> Some m
      | _ \<Rightarrow> None)"

text \<open>\<^verbatim>\<open>json.Marshal\<close> writes the keys in order.\<close>

primrec json_of_any :: "'n floatlib \<Rightarrow> 'n any \<Rightarrow> json" where
  "json_of_any F ANull = JNull"
| "json_of_any F (ABool b) = JBool b"
| "json_of_any F (ANum x) = JNum (fprint F x)"
| "json_of_any F (AStr s) = JStr s"
| "json_of_any F (AArr vs) = JArr (map (json_of_any F) vs)"
| "json_of_any F (AObj m) = JObj (sorted_list_of_fmap (fmmap (json_of_any F) m))"

definition Marshal :: "'n floatlib \<Rightarrow> 'n any \<Rightarrow> string" where
  "Marshal F v = json_print (json_of_any F v)"

section \<open>Route table (config.go)\<close>

datatype Role = RoleList | RoleGetOne | RoleCreate | RoleUpdate | RoleDelete | RoleAction | OtherRole string

record RouteEntry =
  Method :: string
  PathTemplate :: string
  RouteRole :: Role
  ResourceType :: string
  SingleKey :: string
  CollectionKey :: string
  PaginationKey :: string
  RPC :: string
  RequestEnvelope :: bool

record ResourceConfig =
  rc_Type :: string
  rc_SingleKey :: string
  rc_CollectionKey :: string
  rc_PaginationKey :: string

definition resourceConfig :: "RouteEntry \<Rightarrow> ResourceConfig" where
  "resourceConfig e =
     \<lparr>rc_Type = ResourceType e, rc_SingleKey = SingleKey e, rc_CollectionKey = CollectionKey e,
      rc_PaginationKey = PaginationKey e\<rparr>"

record api_Config =
  BasePath :: string
  Routes :: "RouteEntry list"

text \<open>\<^verbatim>\<open>strings.FieldsFunc\<close>: the non-empty segments between slashes.\<close>

fun split_slash :: "string \<Rightarrow> string \<Rightarrow> string list" where
  "split_slash seg [] = (if seg = [] then [] else [rev seg])"
| "split_slash seg (c # s) =
     (if c = CHR ''/'' then (if seg = [] then [] else [rev seg]) @ split_slash [] s else split_slash (c # seg) s)"

definition splitPath :: "string \<Rightarrow> string list" where
  "splitPath path = split_slash [] path"

definition isParam :: "string \<Rightarrow> bool" where
  "isParam seg = (length seg \<ge> 2 \<and> seg ! 0 = CHR ''{'' \<and> seg ! (length seg - 1) = CHR ''}'')"

text \<open>\<open>None\<close>: no match; otherwise the number of literal segments.\<close>

fun match_segments :: "string list \<Rightarrow> string list \<Rightarrow> nat \<Rightarrow> nat option" where
  "match_segments [] [] literals = Some literals"
| "match_segments (t # ts) (p # ps) literals =
     (if isParam t then match_segments ts ps literals
      else if t \<noteq> p then None
      else match_segments ts ps (Suc literals))"
| "match_segments _ _ literals = None"

definition matchTemplate :: "string list \<Rightarrow> string list \<Rightarrow> nat option" where
  "matchTemplate tmpl path = (if length tmpl \<noteq> length path then None else match_segments tmpl path 0)"

text \<open>The literals of a route for a request, when the route matches it.\<close>

definition route_literals :: "string \<Rightarrow> string list \<Rightarrow> RouteEntry \<Rightarrow> nat option" where
  "route_literals m segs e =
     (if EqualFold (Method e) m then matchTemplate (splitPath (PathTemplate e)) segs else None)"

fun best_route :: "string \<Rightarrow> string list \<Rightarrow> RouteEntry list \<Rightarrow> (RouteEntry \<times> nat) option \<Rightarrow> (RouteEntry \<times> nat) option" where
  "best_route m segs [] best = best"
| "best_route m segs (e # es) best =
     best_route m segs es
       (case route_literals m segs e of
          None \<Rightarrow> best
        | Some n \<Rightarrow> (case best of Some (b, k) \<Rightarrow> if n > k then Some (e, n) else best | None \<Rightarrow> Some (e, n)))"

definition MatchRoute :: "api_Config \<Rightarrow> string \<Rightarrow> string \<Rightarrow> RouteEntry option" where
  "MatchRoute c m path =
     (if BasePath c \<noteq> [] \<and> \<not> HasPrefix path (BasePath c) then None
      else map_option fst (best_route m (splitPath path) (Routes c) None))"

section \<open>Transformations (transform.go)\<close>

definition buildResourceObject :: "'n object \<Rightarrow> string \<Rightarrow> 'n object" where
  "buildResourceObject resource typ =
     (let obj = fmupd ''type'' (AStr typ) fmempty;
          obj = (case fmlookup resource ''id'' of Some i \<Rightarrow> fmupd ''id'' i obj | None \<Rightarrow> obj)
      in fmupd ''attributes'' (AObj (fmdrop ''id'' resource)) obj)"

definition TransformMeta :: "'n object \<Rightarrow> 'n object" where
  "TransformMeta body = fmupd ''meta'' (AObj body) fmempty"

definition TransformSingleResource :: "'n object \<Rightarrow> ResourceConfig \<Rightarrow> string \<Rightarrow> 'n object" where
  "TransformSingleResource body cfg selfLink =
     (case fmlookup body (rc_SingleKey cfg) of
        None \<Rightarrow> TransformMeta body
      | Some (AObj resource) \<Rightarrow>
          (let result = fmupd ''data'' (AObj (buildResourceObject resource (rc_Type cfg))) fmempty;
               result = (if selfLink \<noteq> [] then fmupd ''links'' (AObj (fmupd ''self'' (AStr selfLink) fmempty)) result else result);
               meta = fmdrop (rc_SingleKey cfg) body
           in if meta \<noteq> fmempty then fmupd ''meta'' (AObj meta) result else result)
      | Some _ \<Rightarrow> body)"

definition collection_item :: "string \<Rightarrow> 'n any \<Rightarrow> 'n any" where
  "collection_item typ item = (case item of AObj m \<Rightarrow> AObj (buildResourceObject m typ) | _ \<Rightarrow> item)"

definition copy_member :: "string \<Rightarrow> 'n object \<Rightarrow> 'n object \<Rightarrow> 'n object" where
  "copy_member k src dst = (case fmlookup src k of Some v \<Rightarrow> fmupd k v dst | None \<Rightarrow> dst)"

definition next_link :: "string \<Rightarrow> 'n object \<Rightarrow> 'n object \<Rightarrow> 'n object" where
  "next_link selfLink pg links =
     (case fmlookup pg ''nextPageToken'' of
        Some (AStr s) \<Rightarrow> if s \<noteq> [] then fmupd ''next'' (AStr (selfLink @ ''?page_token='' @ s)) links else links
      | _ \<Rightarrow> links)"

definition TransformCollection :: "'n object \<Rightarrow> ResourceConfig \<Rightarrow> string \<Rightarrow> 'n object" where
  "TransformCollection body cfg selfLink =
     (case (case fmlookup body (rc_CollectionKey cfg) of None \<Rightarrow> Some [] | Some (AArr items) \<Rightarrow> Some items | Some _ \<Rightarrow> None) of
        None \<Rightarrow> body
      | Some items \<Rightarrow>
          (let result = fmupd ''data'' (AArr (map (collection_item (rc_Type cfg)) items)) fmempty;
               links = fmupd ''self'' (AStr selfLink) fmempty
           in if selfLink = [] then result
              else (case (if rc_PaginationKey cfg = [] then None else fmlookup body (rc_PaginationKey cfg)) of
                      Some (AObj pg) \<Rightarrow>
                        (let meta = copy_member ''totalIsEstimate'' pg (copy_member ''totalCount'' pg fmempty);
                             result = (if meta \<noteq> fmempty then fmupd ''meta'' (AObj meta) result else result)
                         in fmupd ''links'' (AObj (next_link selfLink pg links)) result)
                    | _ \<Rightarrow> fmupd ''links'' (AObj links) result)))"

definition normalizeErrorCode :: "'n floatlib \<Rightarrow> (int \<Rightarrow> string) \<Rightarrow> 'n any option \<Rightarrow> string" where
  "normalizeErrorCode F code_name raw =
     (case raw of
        Some (AStr s) \<Rightarrow> s
      | Some (ANum x) \<Rightarrow> if 1 \<le> ftrunc F x \<and> ftrunc F x \<le> 16 then code_name (ftrunc F x) else []
      | _ \<Rightarrow> [])"

definition error_member :: "string \<Rightarrow> int \<Rightarrow> string \<Rightarrow> 'n object" where
  "error_member code status detail =
     (let m = fmupd ''status'' (AStr (Itoa status)) (fmupd ''code'' (AStr code) fmempty)
      in if detail \<noteq> [] then fmupd ''detail'' (AStr detail) m else m)"

definition error_document :: "string \<Rightarrow> int \<Rightarrow> string \<Rightarrow> 'n object" where
  "error_document code status detail = fmupd ''errors'' (AArr [AObj (error_member code status detail)]) fmempty"

text \<open>The code and detail an upstream body carries.\<close>

definition parse_error :: "'n floatlib \<Rightarrow> (int \<Rightarrow> string) \<Rightarrow> string \<Rightarrow> string \<times> string" where
  "parse_error F code_name body =
     (case (if body = [] then None else Unmarshal F body) of
        None \<Rightarrow> (''unknown'', [])
      | Some parsed \<Rightarrow>
          (let c = normalizeErrorCode F code_name (fmlookup parsed ''code'')
           in (if c \<noteq> [] then c else ''unknown'',
               case fmlookup parsed ''message'' of Some (AStr m) \<Rightarrow> m | _ \<Rightarrow> [])))"

definition TransformError :: "'n floatlib \<Rightarrow> (int \<Rightarrow> string) \<Rightarrow> int \<Rightarrow> string \<Rightarrow> string" where
  "TransformError F code_name status body =
     (case parse_error F code_name body of (code, detail) \<Rightarrow> Marshal F (AObj (error_document code status detail)))"

section \<open>Requests and responses (middleware.go)\<close>

record request =
  req_Method :: string
  req_Path :: string
  req_ConnectVersion :: string
  req_ContentType :: string
  req_AcceptEncoding :: "string option"
  req_ContentLength :: int
  req_Body :: "string option"

record response =
  resp_Status :: int
  resp_ContentType :: "string option"
  resp_ContentLength :: "string option"
  resp_Location :: "string option"
  resp_Body :: string

definition contentTypeJSONAPI :: string where "contentTypeJSONAPI = ''application/vnd.api+json''"
definition maxBodySize :: nat where "maxBodySize = 1048576"

definition IsRESTRequest :: "request \<Rightarrow> bool" where
  "IsRESTRequest r = (if req_ConnectVersion r \<noteq> [] then False else \<not> HasPrefix (req_ContentType r) ''application/grpc'')"

definition hasKey :: "'n object \<Rightarrow> string \<Rightarrow> bool" where
  "hasKey parsed key = (key = [] \<or> fmlookup parsed key \<noteq> None)"

definition unwrapAndValidate :: "'n floatlib \<Rightarrow> string \<Rightarrow> string \<Rightarrow> string + string" where
  "unwrapAndValidate F body typ =
     (if body = [] then Inl ''request body is required and must be a JSON:API document''
      else case Unmarshal F body of
        None \<Rightarrow> Inl ''request body is not valid JSON''
      | Some parsed \<Rightarrow>
          (case fmlookup parsed ''data'' of
             None \<Rightarrow> Inl ''request must be a JSON:API document with a data member''
           | Some (AObj d) \<Rightarrow>
               (if (case fmlookup d ''type'' of Some (AStr t) \<Rightarrow> t | _ \<Rightarrow> []) \<noteq> typ
                then Inl (''request data.type must be '' @ typ)
                else case fmlookup d ''attributes'' of
                  None \<Rightarrow> Inl ''request data.attributes is required''
                | Some (AObj attrs) \<Rightarrow> Inr (Marshal F (AObj (copy_member ''id'' d attrs)))
                | Some _ \<Rightarrow> Inl ''request data.attributes must be an object'')
           | Some _ \<Rightarrow> Inl ''request data member must be an object''))"

text \<open>Decoding into a struct with one field: names match up to case, the last one counts.\<close>

definition code_member :: "string \<times> json \<Rightarrow> int \<Rightarrow> int option" where
  "code_member kv n =
     (case kv of (name, v) \<Rightarrow>
        if EqualFold name ''code'' then (case v of JNull \<Rightarrow> Some n | JNum l \<Rightarrow> Atoi l | _ \<Rightarrow> None) else Some n)"

definition reclassifyBindingError :: "int \<Rightarrow> string \<Rightarrow> int" where
  "reclassifyBindingError status body =
     (if status \<noteq> 500 then status
      else case json_parse body of
        Some (JObj kvs) \<Rightarrow> if members code_member kvs 0 = Some 2 then 400 else status
      | _ \<Rightarrow> status)"

definition error_response :: "'n floatlib \<Rightarrow> (int \<Rightarrow> string) \<Rightarrow> int \<Rightarrow> string \<Rightarrow> string \<Rightarrow> response" where
  "error_response F code_name status code message =
     \<lparr>resp_Status = status, resp_ContentType = Some contentTypeJSONAPI, resp_ContentLength = None, resp_Location = None,
      resp_Body = TransformError F code_name status
        (Marshal F (AObj (fmupd ''message'' (AStr message) (fmupd ''code'' (AStr code) fmempty))))\<rparr>"

definition writeRequestError :: "'n floatlib \<Rightarrow> (int \<Rightarrow> string) \<Rightarrow> string \<Rightarrow> response" where
  "writeRequestError F code_name message = error_response F code_name 400 ''invalid_argument'' message"

definition writeMissingResourceError :: "'n floatlib \<Rightarrow> (int \<Rightarrow> string) \<Rightarrow> string \<Rightarrow> response" where
  "writeMissingResourceError F code_name key =
     error_response F code_name 500 ''internal'' (''response carried no '' @ key @ '' resource'')"

definition location_of :: "string \<Rightarrow> 'n object \<Rightarrow> string option" where
  "location_of selfLink result =
     (case fmlookup result ''data'' of
        Some (AObj d) \<Rightarrow>
          (case fmlookup d ''id'' of Some (AStr i) \<Rightarrow> if i \<noteq> [] then Some (selfLink @ ''/'' @ i) else None | _ \<Rightarrow> None)
      | _ \<Rightarrow> None)"

text \<open>The document, its status and its location; \<open>Inl\<close> is the key that is missing.\<close>

definition transformByRole :: "RouteEntry \<Rightarrow> 'n object \<Rightarrow> string \<Rightarrow> string + 'n object \<times> int \<times> string option" where
  "transformByRole route parsed selfLink =
     (let rc = resourceConfig route
      in case RouteRole route of
           RoleAction \<Rightarrow> Inr (TransformMeta parsed, 200, None)
         | RoleList \<Rightarrow> Inr (TransformCollection parsed rc selfLink, 200, None)
         | RoleCreate \<Rightarrow>
             (if rc_SingleKey rc = [] \<and> rc_CollectionKey rc \<noteq> []
              then if \<not> hasKey parsed (rc_CollectionKey rc) then Inl (rc_CollectionKey rc)
                   else Inr (TransformCollection parsed rc selfLink, 201, None)
              else if \<not> hasKey parsed (rc_SingleKey rc) then Inl (rc_SingleKey rc)
              else let result = TransformSingleResource parsed rc selfLink in Inr (result, 201, location_of selfLink result))
         | _ \<Rightarrow>
             (if \<not> hasKey parsed (rc_SingleKey rc) then Inl (rc_SingleKey rc)
              else Inr (TransformSingleResource parsed rc selfLink, 200, None)))"

text \<open>What the middleware makes of the handler's response.\<close>

definition transform_response ::
  "'n floatlib \<Rightarrow> (int \<Rightarrow> string) \<Rightarrow> RouteEntry \<Rightarrow> string \<Rightarrow> response \<Rightarrow> response" where
  "transform_response F code_name route selfLink resp =
     (if resp_Status resp \<ge> 400
      then (let status = reclassifyBindingError (resp_Status resp) (resp_Body resp)
            in resp\<lparr>resp_Status := status, resp_ContentType := Some contentTypeJSONAPI, resp_ContentLength := None,
                    resp_Body := TransformError F code_name status (resp_Body resp)\<rparr>)
      else if RouteRole route = RoleDelete
      then resp\<lparr>resp_Status := 204, resp_ContentType := Some contentTypeJSONAPI, resp_ContentLength := None, resp_Body := []\<rparr>
      else if length (resp_Body resp) > maxBodySize then resp
      else case Unmarshal F (resp_Body resp) of
        None \<Rightarrow> resp
      | Some parsed \<Rightarrow>
          (case transformByRole route parsed selfLink of
             Inl key \<Rightarrow> (writeMissingResourceError F code_name key)\<lparr>resp_Location := resp_Location resp\<rparr>
           | Inr (result, status, loc) \<Rightarrow>
               resp\<lparr>resp_Status := status, resp_ContentType := Some contentTypeJSONAPI, resp_ContentLength := None,
                    resp_Location := (if loc = None then resp_Location resp else loc),
                    resp_Body := Marshal F (AObj result)\<rparr>))"

text \<open>
  What a handler does with its writer, in order.  The capture writer shares the header map, keeps
  the last status, buffers the body and ignores a flush.
\<close>

datatype header = ContentType | ContentLength | Location

datatype write_op = SetHeader header string | WriteHeader int | Write string | Flush

fun capture :: "write_op \<Rightarrow> response \<Rightarrow> response" where
  "capture (SetHeader ContentType v) cw = cw\<lparr>resp_ContentType := Some v\<rparr>"
| "capture (SetHeader ContentLength v) cw = cw\<lparr>resp_ContentLength := Some v\<rparr>"
| "capture (SetHeader Location v) cw = cw\<lparr>resp_Location := Some v\<rparr>"
| "capture (WriteHeader code) cw = cw\<lparr>resp_Status := code\<rparr>"
| "capture (Write b) cw = cw\<lparr>resp_Body := resp_Body cw @ b\<rparr>"
| "capture Flush cw = cw"

definition captureWriter :: "write_op list \<Rightarrow> response" where
  "captureWriter ops = fold capture ops
     \<lparr>resp_Status = 200, resp_ContentType = None, resp_ContentLength = None, resp_Location = None, resp_Body = []\<rparr>"

text \<open>
  Either the handler wrote to the real writer itself, or the middleware wrote the response; with
  the request the handler saw, if it ran.  A body of \<open>None\<close> is one that cannot be read.
\<close>

datatype reply = PassThrough "write_op list" | Reply response

definition unwrap_request :: "'n floatlib \<Rightarrow> RouteEntry \<Rightarrow> request \<Rightarrow> string + request" where
  "unwrap_request F route r =
     (if \<not> RequestEnvelope route then Inr r
      else case req_Body r of
        None \<Rightarrow> Inl ''could not read request body''
      | Some body \<Rightarrow>
          (case unwrapAndValidate F body (ResourceType route) of
             Inl msg \<Rightarrow> Inl msg
           | Inr b \<Rightarrow> Inr (r\<lparr>req_Body := Some b, req_ContentLength := int (length b)\<rparr>)))"

definition Middleware ::
  "'n floatlib \<Rightarrow> (int \<Rightarrow> string) \<Rightarrow> (request \<Rightarrow> write_op list) \<Rightarrow> api_Config \<Rightarrow> request \<Rightarrow> reply \<times> request option" where
  "Middleware F code_name inner cfg r =
     (if \<not> IsRESTRequest r then (PassThrough (inner r), Some r)
      else case MatchRoute cfg (req_Method r) (req_Path r) of
        None \<Rightarrow> (PassThrough (inner r), Some r)
      | Some route \<Rightarrow>
          (case unwrap_request F route r of
             Inl msg \<Rightarrow> (Reply (writeRequestError F code_name msg), None)
           | Inr r1 \<Rightarrow>
               (let r2 = r1\<lparr>req_AcceptEncoding := None\<rparr>
                in (Reply (transform_response F code_name route (req_Path r) (captureWriter (inner r2))), Some r2))))"

section \<open>Encoding and decoding are inverse\<close>

text \<open>
  What the transformations rely on of float64 values: a finite float prints as a JSON number that
  reads back as the same float.
\<close>

definition float_law :: "'n floatlib \<Rightarrow> bool" where
  "float_law F = (\<forall>x. num_literal (fprint F x) \<and> fparse F (fprint F x) = Some x)"

lemma go_map_distinct:
  assumes "distinct (map fst kvs)"
  shows "fmlookup (go_map kvs) = map_of kvs"
proof -
  have "fmlookup (fold (\<lambda>(k, v) m. fmupd k v m) kvs m) = fmlookup m ++ map_of kvs" for m
    using assms
  proof (induction kvs arbitrary: m)
    case (Cons kv kvs)
    then show ?case
      by (cases kv) (auto simp: fun_eq_iff map_add_def split: option.splits dest: map_of_SomeD intro!: rev_image_eqI)
  qed simp
  from this [of fmempty] show ?thesis by (simp add: go_map_def map_add_def fun_eq_iff split: option.splits)
qed

lemma go_map_sorted_list: "go_map (sorted_list_of_fmap m) = m"
proof -
  have "distinct (map fst (sorted_list_of_fmap m))"
    by (simp add: sorted_list_of_fmap_def comp_def sorted_list_of_fset.rep_eq)
  then show ?thesis by (intro fmap_ext) (simp add: go_map_distinct map_of_sorted_list)
qed

lemma those_map_Some: "(\<And>x. x \<in> set xs \<Longrightarrow> f x = Some (g x)) \<Longrightarrow> those (map f xs) = Some (map g xs)"
  by (induction xs) auto

lemma sorted_list_of_fmmap: "sorted_list_of_fmap (fmmap f m) = map (\<lambda>(k, v). (k, f v)) (sorted_list_of_fmap m)"
  by (auto simp: sorted_list_of_fmap_def fmlookup_dom_iff sorted_list_of_fset.rep_eq)

lemma set_sorted_list_of_fmap: "(k, v) \<in> set (sorted_list_of_fmap m) \<longleftrightarrow> fmlookup m k = Some v"
  by (auto simp: sorted_list_of_fmap_def fmlookup_dom_iff sorted_list_of_fset.rep_eq image_iff)

lemma any_of_json_inverse:
  assumes "float_law F"
  shows "any_of_json F (json_of_any F v) = Some v"
proof (induction v)
  case (AArr vs)
  then show ?case using those_map_Some [of vs "any_of_json F \<circ> json_of_any F" id] by simp
next
  case (AObj m)
  have IH: "any_of_json F (json_of_any F v) = Some v" if "fmlookup m k = Some v" for k v
    using AObj that by (blast intro: fmran'I)
  have "those (map (\<lambda>kv. any_of_json F (json_of_any F (snd kv))) (sorted_list_of_fmap m)) =
      Some (map snd (sorted_list_of_fmap m))"
    by (rule those_map_Some) (auto simp: set_sorted_list_of_fmap dest: IH)
  then show ?case by (simp add: sorted_list_of_fmmap comp_def case_prod_unfold zip_map_fst_snd go_map_sorted_list)
qed (use assms in \<open>auto simp: float_law_def\<close>)

lemma json_of_any_printable:
  assumes "float_law F"
  shows "printable (json_of_any F v)"
proof (induction v)
  case (AObj m)
  have "printable (json_of_any F v)" if "fmlookup m k = Some v" for k v
    using AObj that by (blast intro: fmran'I)
  then show ?case by (auto simp: sorted_list_of_fmmap list_all_iff set_sorted_list_of_fmap)
qed (use assms in \<open>auto simp: float_law_def list_all_iff\<close>)

lemma Unmarshal_Marshal:
  assumes "float_law F"
  shows "Unmarshal F (Marshal F (AObj m)) = Some m"
proof -
  have "Option.bind (json_parse (Marshal F (AObj m))) (any_of_json F) = Some (AObj m)"
    by (simp only: Marshal_def json_parse_print [OF json_of_any_printable [OF assms]] Option.bind.simps
        any_of_json_inverse [OF assms])
  then show ?thesis by (simp add: Unmarshal_def)
qed

lemma Marshal_nonempty: "float_law F \<Longrightarrow> Marshal F v \<noteq> []"
  unfolding Marshal_def by (rule json_print_nonempty) (rule json_of_any_printable)

section \<open>Envelopes, errors and routes\<close>

lemma buildResourceObject_members:
  "fmlookup (buildResourceObject resource typ) ''type'' = Some (AStr typ)"
  "fmlookup (buildResourceObject resource typ) ''id'' = fmlookup resource ''id''"
  "fmlookup (buildResourceObject resource typ) ''attributes'' = Some (AObj (fmdrop ''id'' resource))"
  by (auto simp: buildResourceObject_def Let_def split: option.split)

lemma copy_member_restores:
  "fmlookup d k = fmlookup m k \<Longrightarrow> copy_member k d (fmdrop k m) = m"
  by (intro fmap_ext) (auto simp: copy_member_def split: option.split)

lemma unwrap_data:
  assumes "float_law F" "fmlookup doc ''data'' = Some (AObj (buildResourceObject resource typ))"
  shows "unwrapAndValidate F (Marshal F (AObj doc)) typ = Inr (Marshal F (AObj resource))"
  using assms Marshal_nonempty [OF assms(1)]
  by (simp add: unwrapAndValidate_def Unmarshal_Marshal buildResourceObject_members copy_member_restores)

text \<open>
  C38. A resource document is accepted as a request envelope and carries the resource unchanged:
  whatever extra fields and self link the response had, sending the document of a single resource
  back to a route of the same type hands the handler exactly the body of the resource, id included.
\<close>

theorem envelope_roundtrip:
  assumes "float_law F" "fmlookup body (rc_SingleKey cfg) = Some (AObj resource)"
  shows "unwrapAndValidate F (Marshal F (AObj (TransformSingleResource body cfg selfLink))) (rc_Type cfg) =
         Inr (Marshal F (AObj resource))"
  by (rule unwrap_data [OF assms(1)]) (simp add: TransformSingleResource_def Let_def assms(2))

text \<open>Integers in decimal, as a concrete instance of the float parameter.\<close>

definition int_floats :: "int floatlib" where
  "int_floats =
     \<lparr>fparse = (\<lambda>l. if l = [] then None
                     else if hd l = CHR ''-'' then Some (- int (digits_val (tl l))) else Some (int (digits_val l))),
      fprint = Itoa, ftrunc = id\<rparr>"

lemma int_floats_law: "float_law int_floats"
proof -
  have "hd (itoa_nat n) \<noteq> CHR ''-''" for n using itoa_nat_hd_digit [of n] by (auto simp: is_digit_def)
  then have "fparse int_floats (Itoa x) = Some x" for x
    by (simp add: int_floats_def Itoa_def itoa_nat_nonempty digits_val_itoa)
  then show ?thesis by (simp add: float_law_def int_floats_def itoa_literal)
qed

lemma reclassify_error: "400 \<le> status \<Longrightarrow> 400 \<le> reclassifyBindingError status body"
  by (auto simp: reclassifyBindingError_def split: option.split json.split)

lemma parse_error_code: "fst (parse_error F code_name body) \<noteq> []"
  by (auto simp: parse_error_def Let_def split: option.split)

definition is_error_reply :: "'n floatlib \<Rightarrow> response \<Rightarrow> bool" where
  "is_error_reply F resp =
     (resp_ContentType resp = Some contentTypeJSONAPI \<and> resp_ContentLength resp = None \<and>
      (\<exists>code detail. code \<noteq> [] \<and> Unmarshal F (resp_Body resp) = Some (error_document code (resp_Status resp) detail)))"

lemma TransformError_document:
  assumes "float_law F"
  shows "\<exists>code detail. code \<noteq> [] \<and>
           Unmarshal F (TransformError F code_name status body) = Some (error_document code status detail)"
  using parse_error_code [of F code_name body] Unmarshal_Marshal [OF assms]
  by (auto simp: TransformError_def split: prod.split)

lemma transformByRole_status:
  "transformByRole route parsed selfLink = Inr (result, status, loc) \<Longrightarrow> status < 400"
  unfolding transformByRole_def Let_def by (cases "RouteRole route") (simp_all split: if_splits)

lemma error_response_document:
  assumes "float_law F"
  shows "is_error_reply F ((error_response F code_name status code message)\<lparr>resp_Location := loc\<rparr>)"
  using TransformError_document [OF assms] by (simp add: is_error_reply_def error_response_def)

lemma transform_response_success:
  assumes "resp_Status resp < 400" "400 \<le> resp_Status (transform_response F code_name route selfLink resp)"
  shows "\<exists>key. transform_response F code_name route selfLink resp =
           (writeMissingResourceError F code_name key)\<lparr>resp_Location := resp_Location resp\<rparr>"
proof (cases "Unmarshal F (resp_Body resp)")
  case None
  then show ?thesis using assms by (simp add: transform_response_def split: if_splits)
next
  case (Some parsed)
  show ?thesis
  proof (cases "transformByRole route parsed selfLink")
    case (Inl key)
    then show ?thesis using assms Some by (auto simp: transform_response_def split: if_splits)
  next
    case (Inr doc)
    then obtain result status loc where doc: "transformByRole route parsed selfLink = Inr (result, status, loc)"
      by (cases doc) auto
    from transformByRole_status [OF doc] show ?thesis
      using assms Some doc by (simp add: transform_response_def split: if_splits)
  qed
qed

lemma transform_response_errors:
  assumes "float_law F" "400 \<le> resp_Status (transform_response F code_name route selfLink resp)"
  shows "is_error_reply F (transform_response F code_name route selfLink resp)"
proof (cases "400 \<le> resp_Status resp")
  case True
  then show ?thesis using TransformError_document [OF assms(1)]
    by (simp add: transform_response_def is_error_reply_def Let_def)
next
  case False
  then show ?thesis
    using transform_response_success [OF _ assms(2)] error_response_document [OF assms(1)]
    unfolding writeMissingResourceError_def by fastforce
qed

text \<open>
  C39. On a matched REST route every failure reaches the client as one JSON:API error document:
  whatever the handler wrote, a response of status 400 or more has the JSON:API content type, no
  stale content length, and a body that decodes to a single error member with a non-empty code and
  the status actually sent; a request the middleware stops before the handler is answered with 400.
\<close>

theorem middleware_errors:
  assumes "float_law F" "IsRESTRequest r" "MatchRoute cfg (req_Method r) (req_Path r) = Some route"
  shows "\<exists>resp seen. Middleware F code_name inner cfg r = (Reply resp, seen) \<and>
           (seen = None \<longrightarrow> resp_Status resp = 400) \<and>
           (400 \<le> resp_Status resp \<longrightarrow> is_error_reply F resp)"
proof (cases "unwrap_request F route r")
  case (Inl msg)
  then show ?thesis using assms TransformError_document [OF assms(1)]
    by (auto simp: Middleware_def writeRequestError_def error_response_def is_error_reply_def)
next
  case (Inr r1)
  then show ?thesis using assms transform_response_errors [OF assms(1)] by (simp add: Middleware_def Let_def)
qed

text \<open>What a route table promises: the routes that admit a request, and how specific each is.\<close>

definition admits :: "string \<Rightarrow> string list \<Rightarrow> RouteEntry \<Rightarrow> bool" where
  "admits m segs e =
     (EqualFold (Method e) m \<and> list_all2 (\<lambda>t p. isParam t \<or> t = p) (splitPath (PathTemplate e)) segs)"

definition specificity :: "RouteEntry \<Rightarrow> nat" where
  "specificity e = length (filter (\<lambda>t. \<not> isParam t) (splitPath (PathTemplate e)))"

lemma match_segments_eq:
  "match_segments ts ps n =
     (if list_all2 (\<lambda>t p. isParam t \<or> t = p) ts ps then Some (n + length (filter (\<lambda>t. \<not> isParam t) ts)) else None)"
  by (induction ts ps n rule: match_segments.induct) auto

lemma route_literals_eq:
  "route_literals m segs e = (if admits m segs e then Some (specificity e) else None)"
  by (auto simp: route_literals_def matchTemplate_def match_segments_eq admits_def specificity_def
      dest: list_all2_lengthD)

lemma best_route_append:
  "best_route m segs (es @ es') best = best_route m segs es' (best_route m segs es best)"
  by (induction es arbitrary: best) auto

definition first_best :: "string \<Rightarrow> string list \<Rightarrow> RouteEntry list \<Rightarrow> RouteEntry \<Rightarrow> bool" where
  "first_best m segs es e =
     (\<exists>xs ys. es = xs @ e # ys \<and> admits m segs e \<and>
       (\<forall>x \<in> set xs. admits m segs x \<longrightarrow> specificity x < specificity e) \<and>
       (\<forall>y \<in> set ys. admits m segs y \<longrightarrow> specificity y \<le> specificity e))"

lemma first_best_snoc:
  assumes "first_best m segs es e" "admits m segs x \<longrightarrow> specificity x \<le> specificity e"
  shows "first_best m segs (es @ [x]) e"
proof -
  from assms(1) obtain xs ys where "es = xs @ e # ys" "admits m segs e"
    "\<forall>x \<in> set xs. admits m segs x \<longrightarrow> specificity x < specificity e"
    "\<forall>y \<in> set ys. admits m segs y \<longrightarrow> specificity y \<le> specificity e"
    unfolding first_best_def by blast
  with assms(2) show ?thesis
    unfolding first_best_def by (intro exI [of _ xs] exI [of _ "ys @ [x]"]) auto
qed

lemma first_best_new:
  assumes "admits m segs x" "\<forall>y \<in> set es. admits m segs y \<longrightarrow> specificity y < specificity x"
  shows "first_best m segs (es @ [x]) x"
  unfolding first_best_def using assms by (intro exI [of _ es] exI [of _ "[]"]) simp

lemma first_best_max: "first_best m segs es e \<Longrightarrow> y \<in> set es \<Longrightarrow> admits m segs y \<Longrightarrow> specificity y \<le> specificity e"
  unfolding first_best_def by (auto simp: less_imp_le)

lemma best_route_spec:
  "case best_route m segs es None of
     None \<Rightarrow> \<forall>e \<in> set es. \<not> admits m segs e
   | Some (e, n) \<Rightarrow> n = specificity e \<and> first_best m segs es e"
proof (induction es rule: rev_induct)
  case (snoc x es)
  show ?case
  proof (cases "best_route m segs es None")
    case None
    with snoc show ?thesis by (auto simp: best_route_append route_literals_eq intro: first_best_new)
  next
    case (Some b)
    obtain e n where b: "b = (e, n)" by (cases b)
    with Some snoc have "n = specificity e" "first_best m segs es e" by auto
    moreover from this(2) have "\<forall>y \<in> set es. admits m segs y \<longrightarrow> specificity y \<le> specificity e"
      by (blast intro: first_best_max)
    ultimately show ?thesis using Some b
      by (cases "admits m segs x \<and> specificity e < specificity x")
        (auto simp: best_route_append route_literals_eq intro: first_best_new first_best_snoc le_less_trans)
  qed
qed simp

text \<open>
  C40. Route matching is sound, complete and deterministic: inside the base path a request that
  some route admits (the method up to case, every template segment a parameter or equal to the
  request's) gets the first of the admitting routes with the most literal segments, and a request
  is left unmatched only when it is outside the base path or no route admits it.
\<close>

theorem MatchRoute_best:
  "case MatchRoute c m path of
     None \<Rightarrow> (BasePath c \<noteq> [] \<and> \<not> HasPrefix path (BasePath c)) \<or>
             (\<forall>e \<in> set (Routes c). \<not> admits m (splitPath path) e)
   | Some e \<Rightarrow> (BasePath c = [] \<or> HasPrefix path (BasePath c)) \<and>
       (\<exists>xs ys. Routes c = xs @ e # ys \<and> admits m (splitPath path) e \<and>
         (\<forall>x \<in> set xs. admits m (splitPath path) x \<longrightarrow> specificity x < specificity e) \<and>
         (\<forall>y \<in> set ys. admits m (splitPath path) y \<longrightarrow> specificity y \<le> specificity e))"
  using best_route_spec [where m = m and segs = "splitPath path" and es = "Routes c"]
  by (auto simp: MatchRoute_def first_best_def split: option.splits)

section \<open>Examples\<close>

definition ex_route :: "string \<Rightarrow> string \<Rightarrow> Role \<Rightarrow> RouteEntry" where
  "ex_route m t role =
     \<lparr>Method = m, PathTemplate = t, RouteRole = role, ResourceType = ''users'', SingleKey = ''user'', CollectionKey = ''users'',
      PaginationKey = ''pagination'', RPC = [], RequestEnvelope = (role = RoleCreate)\<rparr>"

definition ex_config :: api_Config where
  "ex_config = \<lparr>BasePath = ''/v1'', Routes =
     [ex_route ''GET'' ''/v1/users/{id}'' RoleGetOne, ex_route ''GET'' ''/v1/users/me'' RoleAction,
      ex_route ''POST'' ''/v1/users'' RoleCreate]\<rparr>"

definition ex_request :: "string \<Rightarrow> string \<Rightarrow> request" where
  "ex_request m path =
     \<lparr>req_Method = m, req_Path = path, req_ConnectVersion = [], req_ContentType = ''application/json'',
      req_AcceptEncoding = Some ''gzip'', req_ContentLength = 0, req_Body = Some []\<rparr>"

theorem MatchRoute_best_witness:
  "MatchRoute ex_config ''get'' ''/v1/users/me'' = Some (ex_route ''GET'' ''/v1/users/me'' RoleAction) \<and>
   admits ''get'' (splitPath ''/v1/users/me'') (ex_route ''GET'' ''/v1/users/me'' RoleAction)"
proof -
  have m: "MatchRoute ex_config ''get'' ''/v1/users/me'' = Some (ex_route ''GET'' ''/v1/users/me'' RoleAction)"
    by code_simp
  with MatchRoute_best [where c = ex_config and m = "''get''" and path = "''/v1/users/me''"] show ?thesis by auto
qed

theorem envelope_roundtrip_witness:
  "unwrapAndValidate int_floats
     (Marshal int_floats (AObj (TransformSingleResource
        (fmupd ''user'' (AObj (fmupd ''id'' (AStr ''7'') fmempty)) (fmupd ''org'' (ANum 3) fmempty))
        (resourceConfig (ex_route ''GET'' ''/v1/users/{id}'' RoleGetOne)) ''/v1/users/7''))) ''users'' =
   Inr (Marshal int_floats (AObj (fmupd ''id'' (AStr ''7'') fmempty)))"
  using envelope_roundtrip [OF int_floats_law,
      of "fmupd ''user'' (AObj (fmupd ''id'' (AStr ''7'') fmempty)) (fmupd ''org'' (ANum 3) fmempty)"
         "resourceConfig (ex_route ''GET'' ''/v1/users/{id}'' RoleGetOne)"]
  by (simp add: resourceConfig_def ex_route_def)

theorem middleware_errors_witness:
  "\<exists>resp seen. Middleware int_floats (\<lambda>n. ''not_found'') (\<lambda>r. [WriteHeader 404, Write ''gone'', Flush])
       ex_config (ex_request ''GET'' ''/v1/users/9'') = (Reply resp, seen) \<and>
     (seen = None \<longrightarrow> resp_Status resp = 400) \<and> (400 \<le> resp_Status resp \<longrightarrow> is_error_reply int_floats resp)"
proof (rule middleware_errors [OF int_floats_law])
  show "IsRESTRequest (ex_request ''GET'' ''/v1/users/9'')" by code_simp
  show "MatchRoute ex_config (req_Method (ex_request ''GET'' ''/v1/users/9''))
          (req_Path (ex_request ''GET'' ''/v1/users/9'')) = Some (ex_route ''GET'' ''/v1/users/{id}'' RoleGetOne)"
    by code_simp
qed

end
