(* ===== verification/Spec2Isabelle.thy ===== *)
theory Spec2Isabelle
  imports App_Errors Query_Residual Pagination Lock_Local Storage_Memory Replay_Memory Viz_Time Outbox_Sink Execution Read_Through Resilience_Config Repository Jsonapi
begin

text \<open>
  A verification library for the Go part of the repository \<^verbatim>\<open>knowledge-engine\<close> (\<^verbatim>\<open>src/go\<close>), a
  set of packages from which services are assembled: coded errors, list queries with pagination,
  visualization queries, caches, locks, object stores, replay buffers, a transactional outbox, an
  execution engine, resilience primitives, decorated repositories and a JSON:API transport.

  \<^bold>\<open>Conventions.\<close>  A Go function returning \<^verbatim>\<open>(T, error)\<close> is a function into a sum (\<open>Inl\<close> is the error), a nil
  error is \<open>None\<close>, and a function that may panic returns an \<open>outcome\<close>.  Integers are \<open>int\<close> with the
  wrap-around of 32 and 64 bits written out where it matters (\<open>int32\<close>, \<open>int64\<close>); strings are byte
  lists.  State is passed explicitly.  A method under a mutex is one step, so a concurrent run is a
  sequence of steps; the retry budget, which has no mutex, is a small-step relation.  Clocks, random
  tokens, hash functions, the iteration order of maps and third-party clients are parameters, and
  what the code relies on of them is a named hypothesis shown to hold of a concrete instance.  A helper
  that only names a fragment of a function belongs to that function's source lines.

  \<^bold>\<open>Errors and text.\<close>  \<open>Prelude\<close> holds the result types, integers, package \<^verbatim>\<open>strings\<close> and shared lemmas.
  \<open>App_Errors\<close> is \<^verbatim>\<open>core/errors\<close> and the wire mapping of \<^verbatim>\<open>transport/rpc\<close>: sanitizing hides details and
  the code survives the wire.  \<open>Encoding\<close> is JSON text and base64 with printing and parsing inverse
  (the parser's fuel is taken from the length of the text, which bounds the nesting), \<open>Go_Values\<close>
  Go's dynamic values.

  \<^bold>\<open>List queries.\<close>  \<open>Query_Types\<close> is the vocabulary of \<^verbatim>\<open>core/types/query.go\<close>; \<open>Listquery_Filter\<close> the
  schema and parser of \<^verbatim>\<open>foundation/listquery\<close> (sound and complete for allow-listed, typed filters);
  \<open>Listquery_Compile\<close> the compiler over the locale \<open>query_backend\<close> and the keyset seek filter;
  \<open>Query_Residual\<close> the in-process backend of \<^verbatim>\<open>clients/analytics/cassandra\<close>, which interprets that
  locale, and its time pushdown; \<open>Listquery_Token\<close> the page tokens; \<open>Listquery_Page\<close> the pagination
  template and \<open>Pagination\<close> its properties: an infinite scroll ends and shows every row once.

  \<^bold>\<open>Visualization.\<close>  \<open>Viz_Spec\<close> is the table algebra, validation and compilation of \<^verbatim>\<open>foundation/vizql\<close>:
  what validates compiles to what the spec places.  \<open>Calendar\<close> and \<open>Viz_Time\<close> are the time grains and
  the partition loop, a \<open>partial_function\<close> proved to end; locale \<open>grain_periods\<close> has one
  interpretation per grain.

  \<^bold>\<open>Stores.\<close>  \<open>Lock_Local\<close>, \<open>Storage_Memory\<close> and \<open>Replay_Memory\<close> are the in-process backends behind the
  interfaces of \<^verbatim>\<open>core/interfaces\<close>; the locales \<open>distributed_lock\<close>, \<open>object_store\<close> and \<open>replay_buffer\<close>
  state those contracts and are interpreted on them.  Shown: exclusion by token, last write wins, a
  token listing that ends and misses nothing, and replays complete within the retained window.

  \<^bold>\<open>Outbox and execution.\<close>  \<open>Outbox_Relay\<close> is the relay of \<^verbatim>\<open>services/outbox\<close> over the locale
  \<open>outbox_contract\<close>, interpreted on the SQL reference store; \<open>Outbox_Sink\<close> the SQS and S3 sinks of
  \<^verbatim>\<open>clients/outbox\<close>.  A pass settles every due row, and the sends are bounded by the attempts left.
  \<open>Execution\<close> is \<^verbatim>\<open>execution/engine\<close>, \<^verbatim>\<open>job\<close> and \<^verbatim>\<open>gate\<close>: the verdict of a gate, and one observation
  per step under every interleaving.

  \<^bold>\<open>Resilience, decoration and repositories.\<close>  \<open>Resilience\<close> is \<^verbatim>\<open>foundation/resilience\<close>: the budget by
  rule induction over its interleavings, the bulkheads behind the locale \<open>bulkhead\<close>, throttling,
  deduplication, hedging; a float64 is a real with the rounding laws of the locale \<open>float_rounding\<close>.
  \<open>Resilience_Config\<close> builds them from configuration.  \<open>Read_Through\<close> is \<^verbatim>\<open>foundation/cache\<close>.
  \<open>Decorate\<close> is \<^verbatim>\<open>foundation/decorate\<close> and \<^verbatim>\<open>foundation/decorator\<close> with the chains of
  repositories and services, and \<open>Repository\<close> the decorators of \<^verbatim>\<open>repos/repository\<close> around a base
  repository: a write happens at most once, a cached repository answers as a plain one, and what
  goes wrong with the cache when a transaction is rolled back.

  \<^bold>\<open>Transport.\<close>  \<open>Jsonapi\<close> is \<^verbatim>\<open>transport/jsonapi\<close>: the route matcher picks the first of the most literal
  routes, envelopes round-trip, and every failure on a matched route is one error document.

  \<^bold>\<open>Not modelled.\<close>  Clients whose behaviour is that of a service or a third-party library (S3, SQS and Redis
  messaging, Redis, Cassandra sessions, Postgres, River, Prometheus, secret managers, Ent and GORM);
  the Connect and gRPC interceptors; the shared client resilience stack and per-client decorators;
  logging, metrics and tracing adapters; configuration loading by reflection and the sections other
  than resilience; processes, files, ciphers and validation helpers; HTTP middleware; test fixtures;
  and the separate Python package.  Of the interceptors, the client stack and the helpers much could
  be translated in the same way; the others are effects of code outside the repository.
\<close>

end
